(* ===== verification/FP6_Prelude.thy ===== *)
theory FP6_Prelude
  imports Main "HOL-Library.Word" "HOL-Library.Char_ord" "HOL-Library.List_Lexorder"
begin

text \<open>
  The prelude of the development: the machine integer types of the C and C++ sources, byte
  order conversion, runs of step functions with the locales that lift one-step facts to runs,
  and small facts on lists that several components share.
\<close>

unbundle bit_operations_syntax

section \<open>Machine integers\<close>

text \<open>
  A C integer of width w is a \<open>w word\<close>, whatever its sign: \<open>unat\<close> reads the unsigned type,
  \<open>sint\<close> the signed one, and a \<^verbatim>\<open>static_cast\<close> between the two is the identity on the bits.
\<close>

type_synonym u8 = "8 word"
type_synonym u16 = "16 word"
type_synonym u32 = "32 word"
type_synonym i32 = "32 word"
type_synonym u64 = "64 word"
type_synonym i64 = "64 word"

text \<open>
  \<^verbatim>\<open>htobe32\<close>, \<^verbatim>\<open>be32toh\<close> and their 64-bit versions on the little-endian target reverse the
  bytes: \<open>byteswap k\<close> reverses the k low bytes of a word.
\<close>

fun byteswap :: "nat \<Rightarrow> 'a::len word \<Rightarrow> 'a word" where
  "byteswap 0 x = 0"
| "byteswap (Suc k) x = push_bit (8 * k) (take_bit 8 x) OR byteswap k (drop_bit 8 x)"

lemma bit_byteswap:
  fixes x :: "'a::len word"
  assumes "8 * k \<le> LENGTH('a)"
  shows "bit (byteswap k x) n \<longleftrightarrow> n < 8 * k \<and> bit x (8 * (k - 1 - n div 8) + n mod 8)"
  using assms
proof (induction k arbitrary: x)
  case 0
  then show ?case by simp
next
  case (Suc k)
  have IH: "bit (byteswap k (drop_bit 8 x)) n \<longleftrightarrow>
      n < 8 * k \<and> bit (drop_bit 8 x) (8 * (k - 1 - n div 8) + n mod 8)"
    using Suc.prems by (intro Suc.IH) simp
  show ?case
  proof (cases "n < 8 * k")
    case True
    then have "n div 8 < k" by (simp add: less_mult_imp_div_less mult.commute)
    then obtain d where d: "k = Suc (n div 8 + d)" using less_iff_Suc_add by auto
    with True IH show ?thesis by (simp add: bit_simps algebra_simps)
  next
    case False
    show ?thesis
    proof (cases "n < 8 * Suc k")
      case True
      with False have "n div 8 = k" by (simp add: div_nat_eqI)
      moreover from this have "n mod 8 = n - 8 * k" by (simp add: modulo_nat_def mult.commute)
      ultimately
        show ?thesis using True False IH Suc.prems by (auto simp: bit_simps)
    next
      case outer: False
      with False IH show ?thesis by (auto simp: bit_simps)
    qed
  qed
qed

lemma byteswap_byteswap:
  fixes x :: "'a::len word"
  assumes "8 * k = LENGTH('a)"
  shows "byteswap k (byteswap k x) = x"
proof (rule bit_word_eqI)
  fix n assume n: "n < LENGTH('a)"
  define m where "m = 8 * (k - 1 - n div 8) + n mod 8"
  have q: "n div 8 < k" using n assms by (simp add: less_mult_imp_div_less mult.commute)
  have "m div 8 = k - 1 - n div 8" "m mod 8 = n mod 8" by (simp_all add: m_def)
  moreover have "m < 8 * k" using q calculation(1)
    by (simp add: div_less_iff_less_mult [symmetric, of 8] mult.commute)
  moreover have "8 * (k - 1 - (k - 1 - n div 8)) + n mod 8 = n" using q by simp
  ultimately show "bit (byteswap k (byteswap k x)) n = bit x n"
    using n assms by (simp add: bit_byteswap m_def)
qed

definition htobe32 :: "u32 \<Rightarrow> u32" where
  "htobe32 x = byteswap 4 x"

definition be32toh :: "u32 \<Rightarrow> u32" where
  "be32toh x = byteswap 4 x"

definition htobe64 :: "u64 \<Rightarrow> u64" where
  "htobe64 x = byteswap 8 x"

definition be64toh :: "u64 \<Rightarrow> u64" where
  "be64toh x = byteswap 8 x"

lemma endian_roundtrip [simp]:
  "be32toh (htobe32 x) = x" "htobe32 (be32toh x) = x"
  "be64toh (htobe64 y) = y" "htobe64 (be64toh y) = y"
  by (simp_all add: htobe32_def be32toh_def htobe64_def be64toh_def byteswap_byteswap)

section \<open>Decimal numbers\<close>

text \<open>What \<^verbatim>\<open>printf\<close>'s \<^verbatim>\<open>%d\<close> and \<^verbatim>\<open>std::to_string\<close> write, and the value of a digit string.\<close>

definition digit_char :: "nat \<Rightarrow> char" where
  "digit_char d = char_of (48 + d)"

definition digit_value :: "char \<Rightarrow> nat" where
  "digit_value c = of_char c - 48"

definition is_digit :: "char \<Rightarrow> bool" where
  "is_digit c = (48 \<le> (of_char c :: nat) \<and> (of_char c :: nat) \<le> 57)"

fun show_nat :: "nat \<Rightarrow> string" where
  "show_nat n = (if n < 10 then [digit_char n] else show_nat (n div 10) @ [digit_char (n mod 10)])"

declare show_nat.simps [simp del]

definition show_int :: "int \<Rightarrow> string" where
  "show_int i = (if i < 0 then CHR ''-'' # show_nat (nat (- i)) else show_nat (nat i))"

definition nat_value :: "string \<Rightarrow> nat" where
  "nat_value cs = foldl (\<lambda>a c. 10 * a + digit_value c) 0 cs"

lemma digit_char_simps [simp]:
  "d < 10 \<Longrightarrow> digit_value (digit_char d) = d"
  "d < 10 \<Longrightarrow> is_digit (digit_char d)"
  by (simp_all add: digit_char_def digit_value_def is_digit_def)

lemma nat_value_show [simp]: "nat_value (show_nat n) = n"
proof (induction n rule: less_induct)
  case (less n)
  show ?case
  proof (cases "n < 10")
    case True
    then show ?thesis by (simp add: nat_value_def show_nat.simps)
  next
    case False
    with less [of "n div 10"] show ?thesis
      by (simp add: nat_value_def show_nat.simps [of n])
  qed
qed

lemma show_nat_digits: "list_all is_digit (show_nat n)"
proof (induction n rule: less_induct)
  case (less n)
  then show ?case by (cases "n < 10") (simp_all add: show_nat.simps [of n])
qed

lemma show_nat_nonempty [simp]: "show_nat n \<noteq> []"
  by (simp add: show_nat.simps)

lemma show_nat_no_minus: "show_nat n \<noteq> CHR ''-'' # cs"
proof
  assume "show_nat n = CHR ''-'' # cs"
  with show_nat_digits [of n] have "is_digit (CHR ''-'')" by simp
  then show False by (simp add: is_digit_def)
qed

lemma show_nat_inj: "show_nat m = show_nat n \<Longrightarrow> m = n"
  using nat_value_show by metis

lemma show_int_inj: "show_int i = show_int j \<Longrightarrow> i = j"
  by (auto simp: show_int_def show_nat_no_minus show_nat_no_minus [symmetric]
      dest!: show_nat_inj split: if_splits)

lemma show_nat_length: "n < 10 ^ k \<Longrightarrow> 0 < k \<Longrightarrow> length (show_nat n) \<le> k"
proof (induction k arbitrary: n)
  case (Suc k)
  show ?case
  proof (cases "n < 10")
    case True
    then show ?thesis by (simp add: show_nat.simps)
  next
    case False
    with Suc.prems have "n div 10 < 10 ^ k" "0 < k" by (auto intro: gr0I)
    with Suc.IH [of "n div 10"] False show ?thesis by (simp add: show_nat.simps [of n])
  qed
qed simp

lemma show_int_length:
  assumes "\<bar>i\<bar> < 10 ^ k" "0 < k"
  shows "length (show_int i) \<le> Suc k"
proof -
  have "nat \<bar>i\<bar> < 10 ^ k" using assms(1) by (simp add: nat_less_iff)
  from show_nat_length [OF this assms(2)] show ?thesis by (auto simp: show_int_def)
qed

text \<open>Characters of a printed number.\<close>

lemma show_int_chars: "c \<in> set (show_int i) \<Longrightarrow> c = CHR ''-'' \<or> is_digit c"
  using show_nat_digits by (auto simp: show_int_def list_all_iff split: if_splits)

section \<open>Signed 64-bit arithmetic on integers\<close>

text \<open>
  Where a component computes with \<^verbatim>\<open>int64_t\<close> values whose range matters, they are integers and
  \<open>s64\<close> is written around every operation; \<open>in64\<close> is the range.
\<close>

definition s64 :: "int \<Rightarrow> int" where
  "s64 x = signed_take_bit 63 x"

definition in64 :: "int \<Rightarrow> bool" where
  "in64 x \<longleftrightarrow> - (2 ^ 63) \<le> x \<and> x < 2 ^ 63"

lemma s64_id: "in64 x \<Longrightarrow> s64 x = x"
  unfolding s64_def in64_def by (rule signed_take_bit_int_eq_self) simp_all

lemma s64_between [simp]:
  "- 9223372036854775808 \<le> x \<Longrightarrow> x < 9223372036854775808 \<Longrightarrow> s64 x = x"
  by (rule s64_id) (simp add: in64_def)

text \<open>Division and remainder of C on signed integers truncate towards zero.\<close>

definition tdiv :: "int \<Rightarrow> int \<Rightarrow> int" where
  "tdiv a b = sgn a * sgn b * (\<bar>a\<bar> div \<bar>b\<bar>)"

definition tmod :: "int \<Rightarrow> int \<Rightarrow> int" where
  "tmod a b = a - tdiv a b * b"

lemma tdiv_nonneg [simp]: "0 \<le> a \<Longrightarrow> 0 < b \<Longrightarrow> tdiv a b = a div b"
  by (cases "a = 0") (simp_all add: tdiv_def)

lemma tmod_nonneg [simp]: "0 \<le> a \<Longrightarrow> 0 < b \<Longrightarrow> tmod a b = a mod b"
  by (simp add: tmod_def minus_div_mult_eq_mod)

section \<open>Runs of step functions\<close>

text \<open>
  A component is a step function on its state; a history is a list of events. The locales lift
  what one step does to whole histories, so that every component proves one-step facts only.
\<close>

fun run :: "('s \<Rightarrow> 'e \<Rightarrow> 's) \<Rightarrow> 's \<Rightarrow> 'e list \<Rightarrow> 's" where
  "run step s [] = s"
| "run step s (e # es) = run step (step s e) es"

lemma run_append: "run step s (es @ fs) = run step (run step s es) fs"
  by (induction es arbitrary: s) auto

text \<open>An invariant that every step keeps holds after every history.\<close>

locale step_invariant =
  fixes step :: "'s \<Rightarrow> 'e \<Rightarrow> 's"
    and inv :: "'s \<Rightarrow> bool"
  assumes step_inv: "inv s \<Longrightarrow> inv (step s e)"
begin

lemma run_inv: "inv s \<Longrightarrow> inv (run step s es)"
  by (induction es arbitrary: s) (auto intro: step_inv)

end

text \<open>A component that only appends to an output log, and what holds of every appended entry.\<close>

locale step_log =
  fixes step :: "'s \<Rightarrow> 'e \<Rightarrow> 's"
    and log :: "'s \<Rightarrow> 'o list"
    and new :: "'s \<Rightarrow> 'e \<Rightarrow> 'o list"
  assumes step_log: "log (step s e) = log s @ new s e"
begin

lemma run_log: "\<exists>xs. log (run step s es) = log s @ xs"
proof (induction es arbitrary: s)
  case Nil
  then show ?case by simp
next
  case (Cons e es)
  then obtain xs where "log (run step (step s e) es) = log (step s e) @ xs" by blast
  then show ?case by (simp add: step_log)
qed

lemma run_log_ball:
  assumes inv: "\<And>s e. I s \<Longrightarrow> I (step s e)"
    and new: "\<And>s e x. I s \<Longrightarrow> x \<in> set (new s e) \<Longrightarrow> P x"
    and "I s"
  shows "\<exists>xs. log (run step s es) = log s @ xs \<and> (\<forall>x\<in>set xs. P x)"
  using \<open>I s\<close>
proof (induction es arbitrary: s)
  case Nil
  then show ?case by simp
next
  case (Cons e es)
  from Cons.IH [OF inv [OF Cons.prems]] obtain xs
    where xs: "log (run step (step s e) es) = log (step s e) @ xs" "\<forall>x\<in>set xs. P x" by blast
  with new [OF Cons.prems] show ?case
    by (intro exI [of _ "new s e @ xs"]) (auto simp: step_log)
qed

end

end
