(* ===== verification/Fp_Session.thy ===== *)
theory Fp_Session
  imports FP6_Prelude
begin

text \<open>
  The fingerprint session of \<^verbatim>\<open>fingerprint/Session.cpp\<close>: the translation of one AIDL session
  into calls on the legacy fingerprint module.

  The state record has the data members of class \<^verbatim>\<open>Session\<close> and a ghost log \<open>outs\<close> of what
  leaves the session: callbacks to the framework, calls on the module, re-arm threads started,
  the detach notice, and a marker where an operation begins. Log lines are not modelled.

  Concurrency. \<^verbatim>\<open>mMutex\<close> makes every access to the state a critical section and
  \<^verbatim>\<open>moduleMutex()\<close> serialises the handlers that call the module. While a handler holds the
  module lock, other threads can run only the sections that do not need it: the type
  \<open>critical\<close>. Every handler that calls the module therefore takes, in a \<open>module_call\<close>, the
  critical sections other threads run before and during the call (module messages reported
  synchronously are among them) and the code the module returns. A history of a session is any
  sequence of such handlers and critical sections.

  Numbers that belong to headers outside the repository (error and acquired codes, the token
  version) are fields of the parameter \<open>fp_abi\<close>.
\<close>

section \<open>Data\<close>

record fp_abi =
  HW_AUTH_TOKEN_VERSION :: u8
  FINGERPRINT_ERROR_HW_UNAVAILABLE :: i32
  FINGERPRINT_ERROR_UNABLE_TO_REMOVE :: i32
  FINGERPRINT_ERROR_VENDOR_BASE :: i32
  FINGERPRINT_ACQUIRED_GOOD :: i32
  FINGERPRINT_ACQUIRED_TOO_FAST :: i32
  FINGERPRINT_ACQUIRED_VENDOR_BASE :: i32
  Error_UNABLE_TO_PROCESS :: i32
  Error_VENDOR :: i32
  AcquiredInfo_VENDOR :: i32
  AcquiredInfo_INSUFFICIENT :: i32

record HardwareAuthToken =
  challenge :: i64
  userId :: i64
  authenticatorId :: i64
  authenticatorType :: i32
  milliSeconds :: i64
  mac :: "u8 list"

record hw_auth_token_t =
  tok_version :: u8
  tok_challenge :: u64
  tok_user_id :: u64
  tok_authenticator_id :: u64
  tok_authenticator_type :: u32
  tok_timestamp :: u64
  tok_hmac :: "u8 list"

text \<open>The module's messages, the union of \<^verbatim>\<open>fingerprint_msg_t\<close> as constructors.\<close>

datatype fingerprint_msg =
    MsgError i32
  | MsgAcquired i32
  | MsgEnrolling u32 u32 u32 \<comment> \<open>fid, gid, samples remaining\<close>
  | MsgRemoved u32 u32 u32 \<comment> \<open>fid, gid, templates remaining\<close>
  | MsgAuthenticated u32 u32 hw_auth_token_t \<comment> \<open>fid, gid, token\<close>
  | MsgEnumerating u32 u32 u32 \<comment> \<open>fid, gid, templates remaining\<close>
  | MsgLockout u32 i64 \<comment> \<open>\<^verbatim>\<open>LockoutMsg\<close>: kind, duration\<close>
  | MsgInteractionDetected
  | MsgUnknown int

datatype OpKind =
    kNone | kEnroll | kAuthenticate | kDetectInteraction | kEnumerate | kRemove
  | kInvalidateAuthenticatorId | kResetLockout

datatype DisplayState = DS_UNKNOWN | DS_NO_UI | DS_AOD | DS_OTHER int

text \<open>
  The reason in an operation context: any reason other than the vendor one, or the vendor one
  with the status \<^verbatim>\<open>getParcelable\<close> returned (\<open>True\<close> for \<^verbatim>\<open>STATUS_OK\<close>) and the parcelable it read.
\<close>

datatype AuthenticateReason = OtherReason | VendorReason bool "bool option"

record OperationContext =
  displayState :: DisplayState
  authenticateReason :: "AuthenticateReason option"

datatype callback =
    onError i32 i32
  | onAcquired i32 i32
  | onEnrollmentProgress i32 i32
  | onAuthenticationFailed
  | onAuthenticationSucceeded i32 HardwareAuthToken
  | onInteractionDetected
  | onEnrollmentsEnumerated "i32 list"
  | onEnrollmentsRemoved "i32 list"
  | onLockoutTimed i64
  | onLockoutPermanent
  | onLockoutCleared
  | onChallengeGenerated i64
  | onChallengeRevoked i64
  | onAuthenticatorIdRetrieved i64
  | onAuthenticatorIdInvalidated i64
  | onSessionClosed

datatype device_call =
    dev_pre_enroll
  | dev_post_enroll
  | dev_enroll hw_auth_token_t i32 u32
  | dev_authenticate i64 i32
  | dev_cancel
  | dev_enumerate
  | dev_remove i32 i32
  | dev_get_authenticator_id
  | dev_invalidate_authenticator_id
  | dev_reset_lockout hw_auth_token_t
  | dev_detect_interaction

datatype fp_out =
    Begin u64 OpKind
  | Cb callback
  | Dev device_call
  | Rearm u64
  | OnDetach

record session =
  mUserId :: i32
  mNextOp :: u64
  mOp :: u64
  mOpKind :: OpKind
  mOpEnded :: bool
  mDetached :: bool
  mEnumerated :: "i32 list"
  mRemoved :: "i32 list"
  mAuthOperationId :: i64
  mPressToAuth :: bool
  mDisplayState :: DisplayState
  mHeldMatch :: bool
  mHeldEnrollmentId :: i32
  mHeldHat :: HardwareAuthToken
  mHeldAt :: int
  outs :: "fp_out list"

definition empty_hat :: HardwareAuthToken where
  "empty_hat = \<lparr>challenge = 0, userId = 0, authenticatorId = 0, authenticatorType = 0,
     milliSeconds = 0, mac = []\<rparr>"

text \<open>The constructor and the members' initialisers. Times are in nanoseconds.\<close>

definition new_session :: "i32 \<Rightarrow> session" where
  "new_session user = \<lparr>mUserId = user, mNextOp = 0, mOp = 0, mOpKind = kNone, mOpEnded = True,
     mDetached = False, mEnumerated = [], mRemoved = [], mAuthOperationId = 0,
     mPressToAuth = False, mDisplayState = DS_UNKNOWN, mHeldMatch = False,
     mHeldEnrollmentId = 0, mHeldHat = empty_hat, mHeldAt = 0, outs = []\<rparr>"

definition emit :: "fp_out \<Rightarrow> session \<Rightarrow> session" where
  "emit x s = s\<lparr>outs := outs s @ [x]\<rparr>"

definition kEnrollTimeoutSec :: u32 where
  "kEnrollTimeoutSec = 60"

definition kHeldMatchWindow :: int where
  "kHeldMatchWindow = 1000 * 1000000"

section \<open>Translations\<close>

text \<open>\<^verbatim>\<open>hw_auth_token_t\<close> is 69 packed bytes, 32 of them the HMAC.\<close>

definition hmac_size :: nat where
  "hmac_size = 32"

definition toLegacy :: "fp_abi \<Rightarrow> HardwareAuthToken \<Rightarrow> hw_auth_token_t" where
  "toLegacy A hat = \<lparr>tok_version = HW_AUTH_TOKEN_VERSION A,
     tok_challenge = challenge hat, tok_user_id = userId hat,
     tok_authenticator_id = authenticatorId hat,
     tok_authenticator_type = htobe32 (authenticatorType hat),
     tok_timestamp = htobe64 (milliSeconds hat),
     tok_hmac = take hmac_size (mac hat) @ replicate (hmac_size - length (mac hat)) 0\<rparr>"

definition fromLegacy :: "hw_auth_token_t \<Rightarrow> HardwareAuthToken" where
  "fromLegacy tok = \<lparr>challenge = tok_challenge tok, userId = tok_user_id tok,
     authenticatorId = tok_authenticator_id tok,
     authenticatorType = be32toh (tok_authenticator_type tok),
     milliSeconds = be64toh (tok_timestamp tok), mac = tok_hmac tok\<rparr>"

text \<open>The AIDL error and the vendor code.\<close>

definition toAidlError :: "fp_abi \<Rightarrow> i32 \<Rightarrow> i32 \<times> i32" where
  "toAidlError A err =
     (if sint (FINGERPRINT_ERROR_HW_UNAVAILABLE A) \<le> sint err
         \<and> sint err \<le> sint (FINGERPRINT_ERROR_UNABLE_TO_REMOVE A) then (err, 0)
      else if sint (FINGERPRINT_ERROR_VENDOR_BASE A) \<le> sint err
        then (Error_VENDOR A, err - FINGERPRINT_ERROR_VENDOR_BASE A)
      else (Error_UNABLE_TO_PROCESS A, 0))"

definition toAidlAcquired :: "fp_abi \<Rightarrow> i32 \<Rightarrow> i32 \<times> i32" where
  "toAidlAcquired A info =
     (if sint (FINGERPRINT_ACQUIRED_GOOD A) \<le> sint info
         \<and> sint info \<le> sint (FINGERPRINT_ACQUIRED_TOO_FAST A) then (info + 1, 0)
      else if sint (FINGERPRINT_ACQUIRED_VENDOR_BASE A) \<le> sint info
        then (AcquiredInfo_VENDOR A, info - FINGERPRINT_ACQUIRED_VENDOR_BASE A)
      else (AcquiredInfo_INSUFFICIENT A, 0))"

section \<open>The state under the session's lock\<close>

text \<open>The caller holds the module lock. The result 0 means the session is detached.\<close>

definition beginOperation :: "OpKind \<Rightarrow> session \<Rightarrow> u64 \<times> session" where
  "beginOperation kind s =
     (if mDetached s then (0, s)
      else let op = mNextOp s + 1 in
        (op, emit (Begin op kind)
           (s\<lparr>mNextOp := op, mOp := op, mOpKind := kind, mOpEnded := False,
             mEnumerated := [], mRemoved := [], mHeldMatch := False\<rparr>)))"

definition detached :: "session \<Rightarrow> bool" where
  "detached s = mDetached s"

definition runningLocked_op :: "u64 \<Rightarrow> session \<Rightarrow> bool" where
  "runningLocked_op op s = (\<not> mDetached s \<and> mOp s = op \<and> \<not> mOpEnded s)"

definition runningLocked_kind :: "OpKind \<Rightarrow> session \<Rightarrow> bool" where
  "runningLocked_kind kind s = (\<not> mOpEnded s \<and> mOpKind s = kind)"

definition updateContextLocked :: "OperationContext \<Rightarrow> session \<Rightarrow> session" where
  "updateContextLocked ctx s =
     (let s = s\<lparr>mDisplayState := displayState ctx\<rparr> in
      case authenticateReason ctx of
        None \<Rightarrow> s
      | Some OtherReason \<Rightarrow> s\<lparr>mPressToAuth := False\<rparr>
      | Some (VendorReason ok parcelable) \<Rightarrow>
          (case (ok, parcelable) of
             (True, Some enabled) \<Rightarrow> s\<lparr>mPressToAuth := enabled\<rparr>
           | _ \<Rightarrow> s\<lparr>mPressToAuth := False\<rparr>))"

definition screenGatedLocked :: "session \<Rightarrow> bool" where
  "screenGatedLocked s =
     (runningLocked_kind kAuthenticate s \<and> mPressToAuth s \<and>
      (mDisplayState s = DS_NO_UI \<or> mDisplayState s = DS_AOD))"

definition endOperationLocked :: "session \<Rightarrow> session" where
  "endOperationLocked s = s\<lparr>mOpEnded := True, mHeldMatch := False\<rparr>"

definition failOperation :: "fp_abi \<Rightarrow> u64 \<Rightarrow> session \<Rightarrow> session" where
  "failOperation A op s =
     (if \<not> runningLocked_op op s then s
      else endOperationLocked (emit (Cb (onError (Error_UNABLE_TO_PROCESS A) 0)) s))"

subsection \<open>Messages of the module\<close>

text \<open>
  \<^verbatim>\<open>LockoutKind\<close> of \<^verbatim>\<open>LegacyHal.h\<close>. The lockout state is relayed whenever it is reported; only
  the operations it is a terminal result of end with it.
\<close>

definition kLockoutTimed :: u32 where
  "kLockoutTimed = 0"

definition kLockoutPermanent :: u32 where
  "kLockoutPermanent = 1"

definition kLockoutCleared :: u32 where
  "kLockoutCleared = 2"

definition lockoutMessage :: "u32 \<Rightarrow> i64 \<Rightarrow> session \<Rightarrow> session" where
  "lockoutMessage kind durationMillis s =
     (let scanning = runningLocked_kind kAuthenticate s
                     \<or> runningLocked_kind kDetectInteraction s;
          (s', terminal) =
            (if kind = kLockoutTimed then (emit (Cb (onLockoutTimed durationMillis)) s, scanning)
             else if kind = kLockoutPermanent then (emit (Cb onLockoutPermanent) s, scanning)
             else if kind = kLockoutCleared
               then (emit (Cb onLockoutCleared) s, runningLocked_kind kResetLockout s)
             else (s, False))
      in if terminal then endOperationLocked s' else s')"

fun messageLocked :: "fp_abi \<Rightarrow> int \<Rightarrow> fingerprint_msg \<Rightarrow> session \<Rightarrow> session" where
  "messageLocked A now (MsgError err) s =
     (if mOpEnded s then s
      else let (e, vendorCode) = toAidlError A err
        in endOperationLocked (emit (Cb (onError e vendorCode)) s))"
| "messageLocked A now (MsgAcquired acquired) s =
     (if \<not> runningLocked_kind kEnroll s \<and> \<not> runningLocked_kind kAuthenticate s
         \<and> \<not> runningLocked_kind kDetectInteraction s then s
      else if screenGatedLocked s then s
      else let (info, vendorCode) = toAidlAcquired A acquired
        in emit (Cb (onAcquired info vendorCode)) s)"
| "messageLocked A now (MsgEnrolling fid gid samples) s =
     (if \<not> runningLocked_kind kEnroll s then s
      else if gid \<noteq> mUserId s then s
      else let s = emit (Cb (onEnrollmentProgress fid samples)) s
        in if samples = 0 then endOperationLocked s else s)"
| "messageLocked A now (MsgRemoved fid gid remaining) s =
     (if \<not> runningLocked_kind kRemove s then s
      else if fid \<noteq> 0 then s\<lparr>mRemoved := mRemoved s @ [fid]\<rparr> else s)"
| "messageLocked A now (MsgAuthenticated fid gid hat) s =
     (if runningLocked_kind kDetectInteraction s
        then endOperationLocked (emit (Cb onInteractionDetected) s)
      else if \<not> runningLocked_kind kAuthenticate s then s
      else if screenGatedLocked s then
        (if fid \<noteq> 0 \<and> gid = mUserId s
         then emit (Rearm (mOp s))
           (s\<lparr>mHeldMatch := True, mHeldEnrollmentId := fid, mHeldHat := fromLegacy hat,
             mHeldAt := now\<rparr>)
         else s)
      else if fid = 0 then emit (Cb onAuthenticationFailed) s
      else if gid \<noteq> mUserId s then emit (Cb onAuthenticationFailed) s
      else endOperationLocked (emit (Cb (onAuthenticationSucceeded fid (fromLegacy hat))) s))"
| "messageLocked A now (MsgEnumerating fid gid remaining) s =
     (if \<not> runningLocked_kind kEnumerate s then s
      else let s = (if fid \<noteq> 0 then s\<lparr>mEnumerated := mEnumerated s @ [fid]\<rparr> else s)
        in if remaining = 0
           then endOperationLocked
             (emit (Cb (onEnrollmentsEnumerated (mEnumerated s))) (s\<lparr>mEnumerated := []\<rparr>))
           else s)"
| "messageLocked A now (MsgLockout kind durationMillis) s = lockoutMessage kind durationMillis s"
| "messageLocked A now MsgInteractionDetected s =
     (if \<not> runningLocked_kind kDetectInteraction s then s
      else endOperationLocked (emit (Cb onInteractionDetected) s))"
| "messageLocked A now (MsgUnknown typ) s = s"

definition onMessage :: "fp_abi \<Rightarrow> int \<Rightarrow> fingerprint_msg \<Rightarrow> session \<Rightarrow> session" where
  "onMessage A now msg s = (if mDetached s then s else messageLocked A now msg s)"

subsection \<open>Critical sections that do not need the module lock\<close>

text \<open>
  The locked part of \<^verbatim>\<open>onContextChanged\<close>. The first component is the operation whose held match
  was released, 0 if none.
\<close>

definition contextChangedLocked :: "OperationContext \<Rightarrow> int \<Rightarrow> session \<Rightarrow> u64 \<times> session" where
  "contextChangedLocked ctx now s =
     (let s = updateContextLocked ctx s in
      if mDetached s \<or> mOpEnded s \<or> \<not> mHeldMatch s \<or> screenGatedLocked s then (0, s)
      else let s = s\<lparr>mHeldMatch := False\<rparr> in
        if now - mHeldAt s \<le> kHeldMatchWindow
        then (mOp s, endOperationLocked
               (emit (Cb (onAuthenticationSucceeded (mHeldEnrollmentId s) (mHeldHat s))) s))
        else (0, s))"

text \<open>The locked part of \<^verbatim>\<open>close\<close>; it returns whether the session goes on to detach.\<close>

definition closeLocked :: "session \<Rightarrow> bool \<times> session" where
  "closeLocked s = (if mDetached s then (False, s) else (True, emit (Cb onSessionClosed) s))"

text \<open>
  What a thread without the module lock can do to the session. The last three are the callbacks
  that \<^verbatim>\<open>generateChallenge\<close>, \<^verbatim>\<open>revokeChallenge\<close> and \<^verbatim>\<open>getAuthenticatorId\<close> make after they
  released it.
\<close>

datatype critical =
    CritMessage int fingerprint_msg
  | CritContext OperationContext int
  | CritUpdate OperationContext
  | CritClose
  | CritChallengeGenerated i64
  | CritChallengeRevoked i64
  | CritAuthenticatorId i64

fun run_crit :: "fp_abi \<Rightarrow> critical \<Rightarrow> session \<Rightarrow> session" where
  "run_crit A (CritMessage now msg) s = onMessage A now msg s"
| "run_crit A (CritContext ctx now) s = snd (contextChangedLocked ctx now s)"
| "run_crit A (CritUpdate ctx) s = updateContextLocked ctx s"
| "run_crit A CritClose s = snd (closeLocked s)"
| "run_crit A (CritChallengeGenerated c) s = emit (Cb (onChallengeGenerated c)) s"
| "run_crit A (CritChallengeRevoked c) s = emit (Cb (onChallengeRevoked c)) s"
| "run_crit A (CritAuthenticatorId i) s = emit (Cb (onAuthenticatorIdRetrieved i)) s"

definition run_crits :: "fp_abi \<Rightarrow> critical list \<Rightarrow> session \<Rightarrow> session" where
  "run_crits A cs s = fold (run_crit A) cs s"

section \<open>Handlers that hold the module lock\<close>

text \<open>
  One call on the module: what other threads do between the handler's last critical section and
  the call, what they do until its next one, and the code the call returns.
\<close>

record module_call =
  gap :: "critical list"
  during :: "critical list"
  ret :: int

definition call_device :: "fp_abi \<Rightarrow> module_call \<Rightarrow> device_call \<Rightarrow> session \<Rightarrow> session" where
  "call_device A m d s = run_crits A (during m) (emit (Dev d) (run_crits A (gap m) s))"

text \<open>\<^verbatim>\<open>EX_ILLEGAL_STATE\<close> for a closed session, or \<^verbatim>\<open>ok\<close>.\<close>

datatype fp_status = FpOk | sessionClosed

text \<open>The thread \<^verbatim>\<open>rearm\<close> starts, once it has the module lock.\<close>

definition rearmThread :: "fp_abi \<Rightarrow> u64 \<Rightarrow> module_call \<Rightarrow> session \<Rightarrow> session" where
  "rearmThread A op m s =
     (if \<not> runningLocked_op op s then s
      else let operationId = mAuthOperationId s;
               s = call_device A m (dev_authenticate operationId (mUserId s)) s
        in if ret m \<noteq> 0 then failOperation A op s else s)"

definition stopSensorAfter :: "fp_abi \<Rightarrow> u64 \<Rightarrow> module_call \<Rightarrow> session \<Rightarrow> session" where
  "stopSensorAfter A op m s =
     (if mDetached s \<or> mOp s \<noteq> op then s else call_device A m dev_cancel s)"

definition cancel :: "fp_abi \<Rightarrow> u64 \<Rightarrow> module_call \<Rightarrow> session \<Rightarrow> session" where
  "cancel A op m s = (if \<not> runningLocked_op op s then s else call_device A m dev_cancel s)"

definition detach :: "fp_abi \<Rightarrow> bool \<Rightarrow> module_call \<Rightarrow> session \<Rightarrow> session" where
  "detach A clientDied m s =
     (if mDetached s then s
      else let running = \<not> mOpEnded s;
               s = s\<lparr>mDetached := True\<rparr>;
               s = (if clientDied \<and> running then call_device A m dev_cancel s
                    else run_crits A (gap m) s)
        in emit OnDetach s)"

text \<open>
  The locked parts of \<^verbatim>\<open>generateChallenge\<close>, \<^verbatim>\<open>revokeChallenge\<close> and \<^verbatim>\<open>getAuthenticatorId\<close>: the
  status, and whether the callback follows.
\<close>

definition queryLocked :: "fp_abi \<Rightarrow> device_call \<Rightarrow> module_call \<Rightarrow> session \<Rightarrow> fp_status \<times> session"
  where
  "queryLocked A d m s =
     (if detached s then (sessionClosed, s) else (FpOk, call_device A m d s))"

definition generateChallenge :: "fp_abi \<Rightarrow> i64 \<Rightarrow> module_call \<Rightarrow> session \<Rightarrow> fp_status \<times> session"
  where
  "generateChallenge A chal m s =
     (case queryLocked A dev_pre_enroll m s of
        (sessionClosed, s) \<Rightarrow> (sessionClosed, s)
      | (FpOk, s) \<Rightarrow> (FpOk, run_crit A (CritChallengeGenerated chal) s))"

definition revokeChallenge :: "fp_abi \<Rightarrow> i64 \<Rightarrow> module_call \<Rightarrow> session \<Rightarrow> fp_status \<times> session"
  where
  "revokeChallenge A chal m s =
     (case queryLocked A dev_post_enroll m s of
        (sessionClosed, s) \<Rightarrow> (sessionClosed, s)
      | (FpOk, s) \<Rightarrow> (FpOk, run_crit A (CritChallengeRevoked chal) s))"

definition getAuthenticatorId :: "fp_abi \<Rightarrow> i64 \<Rightarrow> module_call \<Rightarrow> session \<Rightarrow> fp_status \<times> session"
  where
  "getAuthenticatorId A i m s =
     (case queryLocked A dev_get_authenticator_id m s of
        (sessionClosed, s) \<Rightarrow> (sessionClosed, s)
      | (FpOk, s) \<Rightarrow> (FpOk, run_crit A (CritAuthenticatorId i) s))"

text \<open>
  Requests with a cancellation signal return the operation the signal is for
  (\<^verbatim>\<open>cancellationSignal(op)\<close>).
\<close>

type_synonym request_result = "fp_status \<times> u64 option \<times> session"

definition enroll :: "fp_abi \<Rightarrow> HardwareAuthToken \<Rightarrow> module_call \<Rightarrow> session \<Rightarrow> request_result" where
  "enroll A hat m s =
     (case beginOperation kEnroll s of (op, s) \<Rightarrow>
      if op = 0 then (sessionClosed, None, s)
      else let s = call_device A m (dev_enroll (toLegacy A hat) (mUserId s) kEnrollTimeoutSec) s;
               s = (if ret m \<noteq> 0 then failOperation A op s else s)
        in (FpOk, Some op, s))"

text \<open>\<open>pre\<close>: what other threads do before the section that stores the operation id.\<close>

definition authenticate ::
    "fp_abi \<Rightarrow> i64 \<Rightarrow> critical list \<Rightarrow> module_call \<Rightarrow> session \<Rightarrow> request_result" where
  "authenticate A operationId pre m s =
     (case beginOperation kAuthenticate s of (op, s) \<Rightarrow>
      if op = 0 then (sessionClosed, None, s)
      else let s = (run_crits A pre s)\<lparr>mAuthOperationId := operationId\<rparr>;
               s = call_device A m (dev_authenticate operationId (mUserId s)) s;
               s = (if ret m \<noteq> 0 then failOperation A op s else s)
        in (FpOk, Some op, s))"

text \<open>
  \<open>slot\<close>: whether the reserved entry of the module's table is set (\<^verbatim>\<open>reservedOp\<close>).
\<close>

definition detectInteraction ::
    "fp_abi \<Rightarrow> bool \<Rightarrow> module_call \<Rightarrow> session \<Rightarrow> request_result" where
  "detectInteraction A slot m s =
     (case beginOperation kDetectInteraction s of (op, s) \<Rightarrow>
      if op = 0 then (sessionClosed, None, s)
      else let s = (if \<not> slot then failOperation A op (run_crits A (gap m) s)
                    else let s = call_device A m dev_detect_interaction s
                      in if ret m \<noteq> 0 then failOperation A op s else s)
        in (FpOk, Some op, s))"

definition enumerateEnrollments :: "fp_abi \<Rightarrow> module_call \<Rightarrow> session \<Rightarrow> fp_status \<times> session" where
  "enumerateEnrollments A m s =
     (case beginOperation kEnumerate s of (op, s) \<Rightarrow>
      if op = 0 then (sessionClosed, s)
      else let s = call_device A m dev_enumerate s
        in (FpOk, if ret m \<noteq> 0 then failOperation A op s else s))"

text \<open>The loop over the ids; the i-th call on the module goes as \<open>ms i\<close> says.\<close>

fun removeLoop :: "fp_abi \<Rightarrow> (nat \<Rightarrow> module_call) \<Rightarrow> i32 list \<Rightarrow> session \<Rightarrow> session" where
  "removeLoop A ms [] s = s"
| "removeLoop A ms (i # ids) s =
     (if i = 0 then removeLoop A (\<lambda>n. ms (Suc n)) ids s
      else removeLoop A (\<lambda>n. ms (Suc n)) ids
        (call_device A (ms 0) (dev_remove (mUserId s) i) s))"

definition removeEnrollments ::
    "fp_abi \<Rightarrow> i32 list \<Rightarrow> (nat \<Rightarrow> module_call) \<Rightarrow> critical list \<Rightarrow> session \<Rightarrow> fp_status \<times> session"
  where
  "removeEnrollments A enrollmentIds ms post s =
     (case beginOperation kRemove s of (op, s) \<Rightarrow>
      if op = 0 then (sessionClosed, s)
      else let s = run_crits A post (removeLoop A ms enrollmentIds s)
        in if \<not> runningLocked_op op s then (FpOk, s)
           else (FpOk, endOperationLocked
             (emit (Cb (onEnrollmentsRemoved (mRemoved s))) (s\<lparr>mRemoved := []\<rparr>))))"

text \<open>\<open>newId\<close>: what the module stored in the id.\<close>

definition invalidateAuthenticatorId ::
    "fp_abi \<Rightarrow> bool \<Rightarrow> u64 \<Rightarrow> module_call \<Rightarrow> session \<Rightarrow> fp_status \<times> session" where
  "invalidateAuthenticatorId A slot newId m s =
     (case beginOperation kInvalidateAuthenticatorId s of (op, s) \<Rightarrow>
      if op = 0 then (sessionClosed, s)
      else if \<not> slot then (FpOk, failOperation A op (run_crits A (gap m) s))
      else let s = call_device A m dev_invalidate_authenticator_id s
        in if ret m \<noteq> 0 then (FpOk, failOperation A op s)
           else if \<not> runningLocked_op op s then (FpOk, s)
           else (FpOk, endOperationLocked (emit (Cb (onAuthenticatorIdInvalidated newId)) s)))"

definition resetLockout ::
    "fp_abi \<Rightarrow> HardwareAuthToken \<Rightarrow> bool \<Rightarrow> module_call \<Rightarrow> session \<Rightarrow> fp_status \<times> session" where
  "resetLockout A hat slot m s =
     (case beginOperation kResetLockout s of (op, s) \<Rightarrow>
      if op = 0 then (sessionClosed, s)
      else if \<not> slot then (FpOk, failOperation A op (run_crits A (gap m) s))
      else let s = call_device A m (dev_reset_lockout (toLegacy A hat)) s
        in (FpOk, if ret m \<noteq> 0 then failOperation A op s else s))"

section \<open>Requests composed of the parts above\<close>

definition close :: "fp_abi \<Rightarrow> module_call \<Rightarrow> session \<Rightarrow> session" where
  "close A m s = (case closeLocked s of (goes_on, s) \<Rightarrow> if goes_on then detach A False m s else s)"

definition authenticateWithContext ::
    "fp_abi \<Rightarrow> i64 \<Rightarrow> OperationContext \<Rightarrow> critical list \<Rightarrow> module_call \<Rightarrow> session \<Rightarrow> request_result"
  where
  "authenticateWithContext A operationId ctx pre m s =
     authenticate A operationId pre m (updateContextLocked ctx s)"

text \<open>Enrolment and detection ignore the context.\<close>

definition enrollWithContext ::
    "fp_abi \<Rightarrow> HardwareAuthToken \<Rightarrow> OperationContext \<Rightarrow> module_call \<Rightarrow> session \<Rightarrow> request_result"
  where
  "enrollWithContext A hat ctx m s = enroll A hat m s"

definition detectInteractionWithContext ::
    "fp_abi \<Rightarrow> bool \<Rightarrow> OperationContext \<Rightarrow> module_call \<Rightarrow> session \<Rightarrow> request_result" where
  "detectInteractionWithContext A slot ctx m s = detectInteraction A slot m s"

definition onContextChanged ::
    "fp_abi \<Rightarrow> OperationContext \<Rightarrow> int \<Rightarrow> module_call \<Rightarrow> session \<Rightarrow> session" where
  "onContextChanged A ctx now m s =
     (case contextChangedLocked ctx now s of (released, s) \<Rightarrow>
      if released \<noteq> 0 then stopSensorAfter A released m s else s)"

text \<open>\<^verbatim>\<open>onClientDied\<close>: the death recipient's notice.\<close>

definition onClientDied :: "fp_abi \<Rightarrow> module_call \<Rightarrow> session \<Rightarrow> session" where
  "onClientDied A m s = detach A True m s"

section \<open>Histories\<close>

datatype event =
    Crit critical
  | EvPreEnroll module_call
  | EvPostEnroll module_call
  | EvGetAuthenticatorId module_call
  | EvEnroll HardwareAuthToken module_call
  | EvAuthenticate i64 "critical list" module_call
  | EvDetect bool module_call
  | EvEnumerate module_call
  | EvRemove "i32 list" "nat \<Rightarrow> module_call" "critical list"
  | EvInvalidate bool u64 module_call
  | EvResetLockout HardwareAuthToken bool module_call
  | EvRearmThread u64 module_call
  | EvStopSensorAfter u64 module_call
  | EvCancel u64 module_call
  | EvDetach bool module_call

fun session_step :: "fp_abi \<Rightarrow> session \<Rightarrow> event \<Rightarrow> session" where
  "session_step A s (Crit c) = run_crit A c s"
| "session_step A s (EvPreEnroll m) = snd (queryLocked A dev_pre_enroll m s)"
| "session_step A s (EvPostEnroll m) = snd (queryLocked A dev_post_enroll m s)"
| "session_step A s (EvGetAuthenticatorId m) = snd (queryLocked A dev_get_authenticator_id m s)"
| "session_step A s (EvEnroll hat m) = snd (snd (enroll A hat m s))"
| "session_step A s (EvAuthenticate i pre m) = snd (snd (authenticate A i pre m s))"
| "session_step A s (EvDetect slot m) = snd (snd (detectInteraction A slot m s))"
| "session_step A s (EvEnumerate m) = snd (enumerateEnrollments A m s)"
| "session_step A s (EvRemove ids ms post) = snd (removeEnrollments A ids ms post s)"
| "session_step A s (EvInvalidate slot i m) = snd (invalidateAuthenticatorId A slot i m s)"
| "session_step A s (EvResetLockout hat slot m) = snd (resetLockout A hat slot m s)"
| "session_step A s (EvRearmThread op m) = rearmThread A op m s"
| "session_step A s (EvStopSensorAfter op m) = stopSensorAfter A op m s"
| "session_step A s (EvCancel op m) = cancel A op m s"
| "session_step A s (EvDetach died m) = detach A died m s"

end
