(* ===== verification/Fp_Session_Props.thy ===== *)
theory Fp_Session_Props
  imports Fp_Session
begin

text \<open>
  Correctness of the fingerprint session: the frame of the critical sections, the atomic moves
  every handler is made of, the protocol automaton a session's output follows, where a released
  token comes from, what a detached session can still do, and the code translations.
\<close>

named_theorems fp_defs

lemmas [fp_defs] =
  emit_def endOperationLocked_def failOperation_def runningLocked_op_def runningLocked_kind_def
  updateContextLocked_def contextChangedLocked_def closeLocked_def onMessage_def
  lockoutMessage_def beginOperation_def screenGatedLocked_def detached_def

section \<open>What a critical section cannot change\<close>

definition op_frame :: "session \<Rightarrow> i32 \<times> u64 \<times> u64 \<times> OpKind \<times> bool \<times> i64" where
  "op_frame s = (mUserId s, mNextOp s, mOp s, mOpKind s, mDetached s, mAuthOperationId s)"

lemma op_frame_emit [simp]: "op_frame (emit x s) = op_frame s"
  by (simp add: op_frame_def emit_def)

lemma op_frame_end [simp]: "op_frame (endOperationLocked s) = op_frame s"
  by (simp add: op_frame_def endOperationLocked_def)

lemma op_frame_fail [simp]: "op_frame (failOperation A op s) = op_frame s"
  by (simp add: failOperation_def)

lemma op_frame_update [simp]: "op_frame (updateContextLocked ctx s) = op_frame s"
  by (simp add: updateContextLocked_def Let_def op_frame_def
      split: option.split AuthenticateReason.split bool.split)

lemma op_frame_message: "op_frame (messageLocked A now msg s) = op_frame s"
  by (cases msg) (auto simp: lockoutMessage_def op_frame_def emit_def endOperationLocked_def Let_def
      split: prod.split)

lemma op_frame_crit [simp]: "op_frame (run_crit A c s) = op_frame s"
proof (cases c)
  case (CritContext ctx now)
  have "op_frame (s\<lparr>mHeldMatch := b\<rparr>) = op_frame s" for s b by (simp add: op_frame_def)
  with CritContext show ?thesis by (simp add: contextChangedLocked_def Let_def)
qed (simp_all add: onMessage_def op_frame_message closeLocked_def)

lemma op_frame_crits [simp]: "op_frame (run_crits A cs s) = op_frame s"
  unfolding run_crits_def by (induction cs arbitrary: s) simp_all

lemma op_frame_call [simp]: "op_frame (call_device A m d s) = op_frame s"
  by (simp add: call_device_def)

lemma op_frame_removeLoop [simp]: "op_frame (removeLoop A ms ids s) = op_frame s"
  by (induction A ms ids s rule: removeLoop.induct) simp_all

lemma op_frameD:
  assumes "op_frame s = op_frame t"
  shows "mUserId s = mUserId t" "mNextOp s = mNextOp t" "mOp s = mOp t" "mOpKind s = mOpKind t"
    "mDetached s = mDetached t" "mAuthOperationId s = mAuthOperationId t"
  using assms by (simp_all add: op_frame_def)

lemmas frame_fields [simp] =
  op_frame_crit [THEN op_frameD(1)] op_frame_crit [THEN op_frameD(2)]
  op_frame_crit [THEN op_frameD(3)] op_frame_crit [THEN op_frameD(4)]
  op_frame_crit [THEN op_frameD(5)]
  op_frame_crits [THEN op_frameD(1)] op_frame_crits [THEN op_frameD(2)]
  op_frame_crits [THEN op_frameD(3)] op_frame_crits [THEN op_frameD(4)]
  op_frame_crits [THEN op_frameD(5)]
  op_frame_call [THEN op_frameD(1)] op_frame_call [THEN op_frameD(2)]
  op_frame_call [THEN op_frameD(3)] op_frame_call [THEN op_frameD(4)]
  op_frame_call [THEN op_frameD(5)]
  op_frame_removeLoop [THEN op_frameD(1)] op_frame_removeLoop [THEN op_frameD(2)]
  op_frame_removeLoop [THEN op_frameD(3)] op_frame_removeLoop [THEN op_frameD(4)]
  op_frame_removeLoop [THEN op_frameD(5)]
  op_frame_fail [THEN op_frameD(1)] op_frame_fail [THEN op_frameD(2)]
  op_frame_fail [THEN op_frameD(3)] op_frame_fail [THEN op_frameD(4)]
  op_frame_fail [THEN op_frameD(5)]
  op_frame_update [THEN op_frameD(1)] op_frame_update [THEN op_frameD(2)]
  op_frame_update [THEN op_frameD(3)] op_frame_update [THEN op_frameD(4)]
  op_frame_update [THEN op_frameD(5)]

section \<open>Atomic moves\<close>

fun crit_msgs :: "critical \<Rightarrow> fingerprint_msg set" where
  "crit_msgs (CritMessage now msg) = {msg}"
| "crit_msgs _ = {}"

definition crits_msgs :: "critical list \<Rightarrow> fingerprint_msg set" where
  "crits_msgs cs = (\<Union>c\<in>set cs. crit_msgs c)"

definition call_msgs :: "module_call \<Rightarrow> fingerprint_msg set" where
  "call_msgs m = crits_msgs (gap m) \<union> crits_msgs (during m)"

text \<open>The module messages an event delivers to the session.\<close>

fun event_msgs :: "event \<Rightarrow> fingerprint_msg set" where
  "event_msgs (Crit c) = crit_msgs c"
| "event_msgs (EvPreEnroll m) = call_msgs m"
| "event_msgs (EvPostEnroll m) = call_msgs m"
| "event_msgs (EvGetAuthenticatorId m) = call_msgs m"
| "event_msgs (EvEnroll hat m) = call_msgs m"
| "event_msgs (EvAuthenticate i pre m) = crits_msgs pre \<union> call_msgs m"
| "event_msgs (EvDetect slot m) = call_msgs m"
| "event_msgs (EvEnumerate m) = call_msgs m"
| "event_msgs (EvRemove ids ms post) = (\<Union>n. call_msgs (ms n)) \<union> crits_msgs post"
| "event_msgs (EvInvalidate slot i m) = call_msgs m"
| "event_msgs (EvResetLockout hat slot m) = call_msgs m"
| "event_msgs (EvRearmThread op m) = call_msgs m"
| "event_msgs (EvStopSensorAfter op m) = call_msgs m"
| "event_msgs (EvCancel op m) = call_msgs m"
| "event_msgs (EvDetach died m) = call_msgs m"

text \<open>
  The calls a session of user \<open>u\<close> may make on the module while its last operation is of kind \<open>k\<close>. A re-arm
  authenticates again for whatever operation started it.
\<close>

fun legit :: "OpKind \<Rightarrow> i32 \<Rightarrow> device_call \<Rightarrow> bool" where
  "legit k u (dev_enroll tok v timeout) = (k = kEnroll \<and> v = u \<and> timeout = kEnrollTimeoutSec)"
| "legit k u (dev_authenticate i v) = (v = u)"
| "legit k u (dev_remove v i) = (k = kRemove \<and> v = u \<and> i \<noteq> 0)"
| "legit k u dev_enumerate = (k = kEnumerate)"
| "legit k u dev_invalidate_authenticator_id = (k = kInvalidateAuthenticatorId)"
| "legit k u (dev_reset_lockout tok) = (k = kResetLockout)"
| "legit k u dev_detect_interaction = (k = kDetectInteraction)"
| "legit k u _ = True"

text \<open>
  One move of a session when all messages come from \<open>M\<close>: a critical section of another thread,
  or one step of the handler that holds the module lock. Detaching is kept apart.
\<close>

inductive atom :: "fp_abi \<Rightarrow> fingerprint_msg set \<Rightarrow> session \<Rightarrow> session \<Rightarrow> bool"
  for A M where
  atom_crit: "crit_msgs c \<subseteq> M \<Longrightarrow> atom A M s (run_crit A c s)"
| atom_begin: "atom A M s (snd (beginOperation k s))"
| atom_fail: "atom A M s (failOperation A op s)"
| atom_dev: "legit (mOpKind s) (mUserId s) d \<Longrightarrow> atom A M s (emit (Dev d) s)"
| atom_auth_id: "atom A M s (s\<lparr>mAuthOperationId := i\<rparr>)"
| atom_removed: "runningLocked_kind kRemove s \<Longrightarrow> atom A M s
    (endOperationLocked (emit (Cb (onEnrollmentsRemoved (mRemoved s))) (s\<lparr>mRemoved := []\<rparr>)))"
| atom_invalidated: "runningLocked_kind kInvalidateAuthenticatorId s \<Longrightarrow> atom A M s
    (endOperationLocked (emit (Cb (onAuthenticatorIdInvalidated i)) s))"

abbreviation atoms :: "fp_abi \<Rightarrow> fingerprint_msg set \<Rightarrow> session \<Rightarrow> session \<Rightarrow> bool" where
  "atoms A M \<equiv> (atom A M)\<^sup>*\<^sup>*"

lemma atoms_step: "atoms A M s t \<Longrightarrow> atom A M t u \<Longrightarrow> atoms A M s u"
  by (rule rtranclp.rtrancl_into_rtrancl)

lemma atoms_crits: "crits_msgs cs \<subseteq> M \<Longrightarrow> atoms A M s t \<Longrightarrow> atoms A M s (run_crits A cs t)"
  unfolding run_crits_def
proof (induction cs arbitrary: t)
  case (Cons c cs)
  have "atoms A M s (run_crit A c t)"
    using Cons.prems by (intro atoms_step [OF Cons.prems(2)] atom_crit) (simp add: crits_msgs_def)
  with Cons show ?case by (simp add: crits_msgs_def)
qed simp

lemma atoms_call:
  "call_msgs m \<subseteq> M \<Longrightarrow> legit (mOpKind t) (mUserId t) d \<Longrightarrow> atoms A M s t \<Longrightarrow>
   atoms A M s (call_device A m d t)"
  unfolding call_device_def call_msgs_def
  by (intro atoms_crits atoms_step [OF _ atom_dev]) auto

lemma atoms_gap: "call_msgs m \<subseteq> M \<Longrightarrow> atoms A M s t \<Longrightarrow> atoms A M s (run_crits A (gap m) t)"
  unfolding call_msgs_def by (intro atoms_crits) auto

lemmas atoms_fail = atoms_step [OF _ atom_fail]

lemma atoms_call_fail:
  "call_msgs m \<subseteq> M \<Longrightarrow> legit (mOpKind t) (mUserId t) d \<Longrightarrow> atoms A M s t \<Longrightarrow>
   atoms A M s (failOperation A op (call_device A m d t))"
  by (rule atoms_fail [OF atoms_call])

lemma atoms_gap_fail:
  "call_msgs m \<subseteq> M \<Longrightarrow> atoms A M s t \<Longrightarrow> atoms A M s (failOperation A op (run_crits A (gap m) t))"
  by (rule atoms_fail [OF atoms_gap])

lemma atoms_begin: "beginOperation k s = (op, t) \<Longrightarrow> atoms A M s t"
  using atom_begin [of A M s k] by auto

lemma atoms_removeLoop:
  "(\<And>n. call_msgs (ms n) \<subseteq> M) \<Longrightarrow> mOpKind t = kRemove \<Longrightarrow> atoms A M s t \<Longrightarrow> atoms A M s (removeLoop A ms ids t)"
proof (induction A ms ids t rule: removeLoop.induct)
  case (2 A ms i ids t)
  have "atoms A M s (call_device A (ms 0) (dev_remove (mUserId t) i) t)" if "i \<noteq> 0"
    using that "2.prems" by (intro atoms_call) auto
  with 2 show ?case by simp
qed simp


lemma runningLocked_op_kind:
  "runningLocked_op op s \<Longrightarrow> mOpKind s = k \<Longrightarrow> runningLocked_kind k s"
  by (simp add: fp_defs)

lemma beginOperation_kind:
  "beginOperation k s = (op, t) \<Longrightarrow> op \<noteq> 0 \<Longrightarrow>
   mOpKind t = k \<and> mOp t = op \<and> \<not> mDetached t \<and> \<not> mOpEnded t"
  by (auto simp: fp_defs Let_def split: if_splits)

lemma atoms_call_begun:
  assumes "call_msgs m \<subseteq> M" "beginOperation k s = (op, t)" "op \<noteq> 0" "legit k (mUserId t) d"
  shows "atoms A M s (call_device A m d t)"
  using assms(1,4) beginOperation_kind [OF assms(2,3)] by (intro atoms_call atoms_begin [OF assms(2)]) auto

lemmas atoms_intros =
  atoms_call_fail atoms_gap_fail atoms_call atoms_gap rtranclp.rtrancl_refl atoms_begin
  atoms_call_begun atoms_fail [OF atoms_call_begun]

lemma beginOperation_user: "beginOperation k s = (op, t) \<Longrightarrow> mUserId t = mUserId s"
  by (auto simp: fp_defs Let_def split: if_splits)

text \<open>Every handler but the one that detaches is a sequence of atomic moves.\<close>

lemma authenticate_atoms:
  assumes "crits_msgs pre \<subseteq> M" "call_msgs m \<subseteq> M"
  shows "atoms A M s (snd (snd (authenticate A i pre m s)))"
proof -
  have "atoms A M s ((run_crits A pre t)\<lparr>mAuthOperationId := i\<rparr>)"
    if "beginOperation kAuthenticate s = (op, t)" for op t
    using that assms by (intro atoms_step [OF _ atom_auth_id] atoms_crits atoms_begin) auto
  with assms(2) show ?thesis
    by (auto simp: authenticate_def Let_def intro: atoms_intros split: prod.split)
qed

lemma removeEnrollments_atoms:
  assumes "\<And>n. call_msgs (ms n) \<subseteq> M" "crits_msgs post \<subseteq> M"
  shows "atoms A M s (snd (removeEnrollments A ids ms post s))"
proof -
  have L: "atoms A M s (run_crits A post (removeLoop A ms ids t))"
    if "beginOperation kRemove s = (op, t)" "op \<noteq> 0" for op t
    using that assms beginOperation_kind [OF that] by (intro atoms_crits atoms_removeLoop atoms_begin) auto
  have K: "runningLocked_kind kRemove (run_crits A post (removeLoop A ms ids t))"
    if "beginOperation kRemove s = (op, t)" "op \<noteq> 0"
      "runningLocked_op op (run_crits A post (removeLoop A ms ids t))" for op t
    using that(3) beginOperation_kind [OF that(1,2)] by (intro runningLocked_op_kind) auto
  show ?thesis
    by (auto simp: removeEnrollments_def Let_def split: prod.split
        intro: L atoms_begin atoms_step [OF L atom_removed [OF K]])
qed

lemma invalidate_atoms:
  assumes "call_msgs m \<subseteq> M"
  shows "atoms A M s (snd (invalidateAuthenticatorId A slot i m s))"
proof -
  have K: "runningLocked_kind kInvalidateAuthenticatorId (call_device A m d t)"
    if "beginOperation kInvalidateAuthenticatorId s = (op, t)" "op \<noteq> 0"
      "runningLocked_op op (call_device A m d t)" for op t d
    using that(3) beginOperation_kind [OF that(1,2)] by (intro runningLocked_op_kind) auto
  have L: "atoms A M s (call_device A m dev_invalidate_authenticator_id t)"
    if "beginOperation kInvalidateAuthenticatorId s = (op, t)" "op \<noteq> 0" for op t
    using that assms beginOperation_kind [OF that] by (intro atoms_call atoms_begin) auto
  show ?thesis using assms
    by (auto simp: invalidateAuthenticatorId_def Let_def split: prod.split
        intro: atoms_intros atoms_step [OF L atom_invalidated [OF K]])
qed

lemma session_step_atoms:
  assumes "event_msgs e \<subseteq> M" "\<And>died m. e \<noteq> EvDetach died m"
  shows "atoms A M s (session_step A s e)"
  using assms
  by (cases e)
    (auto simp: queryLocked_def enroll_def detectInteraction_def enumerateEnrollments_def
      resetLockout_def rearmThread_def stopSensorAfter_def cancel_def Let_def
      intro: atom_crit authenticate_atoms removeEnrollments_atoms invalidate_atoms atoms_intros
      split: prod.split)

lemma detach_cases:
  assumes "call_msgs m \<subseteq> M"
  shows "mDetached s \<and> detach A died m s = s \<or>
    \<not> mDetached s \<and> (\<exists>t. atoms A M (s\<lparr>mDetached := True\<rparr>) t \<and> detach A died m s = emit OnDetach t)"
proof (cases "died \<and> \<not> mOpEnded s")
  case True
  have "atoms A M (s\<lparr>mDetached := True\<rparr>) (call_device A m dev_cancel (s\<lparr>mDetached := True\<rparr>))"
    using assms by (intro atoms_call) auto
  with True show ?thesis by (auto simp: detach_def)
next
  case False
  have "atoms A M (s\<lparr>mDetached := True\<rparr>) (run_crits A (gap m) (s\<lparr>mDetached := True\<rparr>))"
    using assms by (intro atoms_gap) auto
  with False show ?thesis by (auto simp: detach_def Let_def)
qed

text \<open>So an invariant of the moves and of the two ends of a detach is one of every handler.\<close>

lemma session_step_induct:
  assumes msgs: "event_msgs e \<subseteq> M"
    and move: "\<And>s t. atom A M s t \<Longrightarrow> I s \<Longrightarrow> I t"
    and detach: "\<And>s. I s \<Longrightarrow> I (s\<lparr>mDetached := True\<rparr>)"
    and notice: "\<And>s. I s \<Longrightarrow> I (emit OnDetach s)"
    and "I s"
  shows "I (session_step A s e)"
proof -
  have moves: "I t" if "atoms A M s t" "I s" for s t
    using that by induction (auto intro: move)
  show ?thesis
  proof (cases "\<exists>died m. e = EvDetach died m")
    case True
    then obtain died m where e: "e = EvDetach died m" by blast
    with msgs detach_cases [of m M s A died] \<open>I s\<close> show ?thesis
      using moves [OF _ detach] notice by fastforce
  next
    case False
    with msgs have "atoms A M s (session_step A s e)" by (intro session_step_atoms) auto
    with \<open>I s\<close> show ?thesis by (rule moves [rotated])
  qed
qed

section \<open>The protocol of a session\<close>

text \<open>
  The contract of an AIDL session as an automaton over its output: no operation, or one running
  of some kind. An operation ends with its terminal result; results, progress and haptics of an
  operation outside it are not allowed (\<open>None\<close>). Lockout state may be relayed at any time.
\<close>

datatype proto = PIdle | PRun OpKind

fun proto_cb :: "OpKind \<Rightarrow> callback \<Rightarrow> proto option" where
  "proto_cb k (onError e v) = Some PIdle"
| "proto_cb k (onAcquired i v) =
     (if k = kEnroll \<or> k = kAuthenticate \<or> k = kDetectInteraction then Some (PRun k) else None)"
| "proto_cb k (onEnrollmentProgress f r) =
     (if k = kEnroll then Some (if r = 0 then PIdle else PRun k) else None)"
| "proto_cb k onAuthenticationFailed = (if k = kAuthenticate then Some (PRun k) else None)"
| "proto_cb k (onAuthenticationSucceeded f h) = (if k = kAuthenticate then Some PIdle else None)"
| "proto_cb k onInteractionDetected = (if k = kDetectInteraction then Some PIdle else None)"
| "proto_cb k (onEnrollmentsEnumerated xs) = (if k = kEnumerate then Some PIdle else None)"
| "proto_cb k (onEnrollmentsRemoved xs) = (if k = kRemove then Some PIdle else None)"
| "proto_cb k (onAuthenticatorIdInvalidated i) =
     (if k = kInvalidateAuthenticatorId then Some PIdle else None)"
| "proto_cb k (onLockoutTimed d) =
     Some (if k = kAuthenticate \<or> k = kDetectInteraction then PIdle else PRun k)"
| "proto_cb k onLockoutPermanent =
     Some (if k = kAuthenticate \<or> k = kDetectInteraction then PIdle else PRun k)"
| "proto_cb k onLockoutCleared = Some (if k = kResetLockout then PIdle else PRun k)"
| "proto_cb k (onChallengeGenerated c) = Some (PRun k)"
| "proto_cb k (onChallengeRevoked c) = Some (PRun k)"
| "proto_cb k (onAuthenticatorIdRetrieved i) = Some (PRun k)"
| "proto_cb k onSessionClosed = Some (PRun k)"

fun idle_cb :: "callback \<Rightarrow> bool" where
  "idle_cb (onLockoutTimed d) = True"
| "idle_cb onLockoutPermanent = True"
| "idle_cb onLockoutCleared = True"
| "idle_cb (onChallengeGenerated c) = True"
| "idle_cb (onChallengeRevoked c) = True"
| "idle_cb (onAuthenticatorIdRetrieved i) = True"
| "idle_cb onSessionClosed = True"
| "idle_cb _ = False"

fun proto_step :: "proto \<Rightarrow> fp_out \<Rightarrow> proto option" where
  "proto_step p (Begin op k) = Some (PRun k)"
| "proto_step (PRun k) (Cb c) = proto_cb k c"
| "proto_step PIdle (Cb c) = (if idle_cb c then Some PIdle else None)"
| "proto_step p _ = Some p"

fun proto_run :: "proto \<Rightarrow> fp_out list \<Rightarrow> proto option" where
  "proto_run p [] = Some p"
| "proto_run p (x # xs) = Option.bind (proto_step p x) (\<lambda>q. proto_run q xs)"

lemma proto_run_append:
  "proto_run p (xs @ ys) = Option.bind (proto_run p xs) (\<lambda>q. proto_run q ys)"
  by (induction xs arbitrary: p) (auto split: Option.bind_splits)

lemma proto_run_snoc [simp]:
  "proto_run p (xs @ [x]) = Option.bind (proto_run p xs) (\<lambda>q. proto_step q x)"
  by (simp add: proto_run_append)

definition proto_of :: "session \<Rightarrow> proto" where
  "proto_of s = (if mOpEnded s then PIdle else PRun (mOpKind s))"

text \<open>A held match belongs to a running authentication.\<close>

definition held_ok :: "session \<Rightarrow> bool" where
  "held_ok s \<longleftrightarrow> (mHeldMatch s \<longrightarrow> runningLocked_kind kAuthenticate s)"

fun is_Begin :: "fp_out \<Rightarrow> bool" where
  "is_Begin (Begin op k) = True"
| "is_Begin _ = False"

text \<open>Output within one operation that takes the automaton along with the session.\<close>

definition within :: "session \<Rightarrow> session \<Rightarrow> bool" where
  "within s t \<longleftrightarrow> (\<exists>xs. outs t = outs s @ xs \<and> \<not> list_ex is_Begin xs \<and>
     proto_run (proto_of s) xs = Some (proto_of t))"

lemma within_eq:
  "within s t \<longleftrightarrow> take (length (outs s)) (outs t) = outs s \<and>
     \<not> list_ex is_Begin (drop (length (outs s)) (outs t)) \<and>
     proto_run (proto_of s) (drop (length (outs s)) (outs t)) = Some (proto_of t)"
  unfolding within_def by (metis append_eq_conv_conj)

lemma within_refl: "outs t = outs s \<Longrightarrow> proto_of t = proto_of s \<Longrightarrow> within s t"
  unfolding within_def by simp

lemma within_trans: "within s t \<Longrightarrow> within t u \<Longrightarrow> within s u"
  unfolding within_def by (force simp: proto_run_append)

lemma update_fields [simp]:
  "mHeldMatch (updateContextLocked ctx s) = mHeldMatch s"
  "mHeldEnrollmentId (updateContextLocked ctx s) = mHeldEnrollmentId s"
  "mHeldHat (updateContextLocked ctx s) = mHeldHat s"
  "mHeldAt (updateContextLocked ctx s) = mHeldAt s"
  "mOpEnded (updateContextLocked ctx s) = mOpEnded s"
  "outs (updateContextLocked ctx s) = outs s"
  "mDisplayState (updateContextLocked ctx s) = displayState ctx"
  by (simp_all add: updateContextLocked_def Let_def
      split: option.split AuthenticateReason.split bool.split)

lemma message_within:
  "within s (messageLocked A now msg s) \<and> (held_ok s \<longrightarrow> held_ok (messageLocked A now msg s))"
  by (cases msg)
    (auto simp: within_eq held_ok_def proto_of_def fp_defs Let_def split: prod.split)

lemma crit_within:
  assumes "held_ok s"
  shows "within s (run_crit A c s) \<and> held_ok (run_crit A c s)"
proof (cases c)
  case (CritMessage now msg)
  with assms message_within show ?thesis by (auto simp: onMessage_def intro: within_refl)
next
  case (CritContext ctx now)
  with assms show ?thesis
    by (auto simp: within_eq contextChangedLocked_def Let_def held_ok_def proto_of_def emit_def
        endOperationLocked_def runningLocked_kind_def)
qed (use assms in \<open>auto simp: within_eq held_ok_def proto_of_def closeLocked_def emit_def
      runningLocked_kind_def\<close>)

lemma crits_within: "held_ok s \<Longrightarrow> within s (run_crits A cs s) \<and> held_ok (run_crits A cs s)"
  unfolding run_crits_def
proof (induction cs arbitrary: s)
  case (Cons c cs)
  with crit_within [OF Cons.prems, of A c] show ?case by (auto intro: within_trans)
qed (simp add: within_refl)

lemma dev_within: "held_ok s \<Longrightarrow> within s (emit (Dev d) s) \<and> held_ok (emit (Dev d) s)"
  by (auto simp: within_eq held_ok_def emit_def runningLocked_kind_def proto_of_def)

lemma call_within:
  assumes "held_ok s"
  shows "within s (call_device A m d s) \<and> held_ok (call_device A m d s)"
  unfolding call_device_def
  by (meson assms crits_within dev_within within_trans)

lemma removeLoop_within:
  "held_ok s \<Longrightarrow> within s (removeLoop A ms ids s) \<and> held_ok (removeLoop A ms ids s)"
proof (induction A ms ids s rule: removeLoop.induct)
  case (2 A ms i ids s)
  then show ?case using call_within [OF "2.prems"] by (auto intro: within_trans)
qed (simp add: within_refl)

lemma fail_within: "held_ok s \<Longrightarrow> within s (failOperation A op s) \<and> held_ok (failOperation A op s)"
  by (auto simp: within_eq held_ok_def fp_defs proto_of_def)

definition follows_proto :: "session \<Rightarrow> bool" where
  "follows_proto s \<longleftrightarrow> held_ok s \<and> proto_run PIdle (outs s) = Some (proto_of s)"

lemma follows_within: "follows_proto s \<Longrightarrow> within s t \<Longrightarrow> held_ok t \<Longrightarrow> follows_proto t"
  by (auto simp: follows_proto_def within_def proto_run_append)

lemma atom_proto: "atom A M s t \<Longrightarrow> follows_proto s \<Longrightarrow> follows_proto t"
proof (induction rule: atom.induct)
  case (atom_crit c s)
  then show ?case using crit_within by (meson follows_within follows_proto_def)
next
  case (atom_begin s k)
  then show ?case by (auto simp: follows_proto_def held_ok_def proto_of_def fp_defs Let_def)
next
  case (atom_fail s op)
  then show ?case using fail_within by (meson follows_within follows_proto_def)
next
  case (atom_dev s d)
  then show ?case using dev_within by (meson follows_within follows_proto_def)
qed (auto simp: follows_proto_def held_ok_def proto_of_def fp_defs)

interpretation proto: step_invariant "session_step A" follows_proto for A
proof unfold_locales
  fix s e assume "follows_proto s"
  show "follows_proto (session_step A s e)"
  proof (rule session_step_induct [of e UNIV A])
    show "follows_proto t" if "atom A UNIV s t" "follows_proto s" for s t
      using that by (rule atom_proto)
  qed (use \<open>follows_proto s\<close> in \<open>auto simp: follows_proto_def held_ok_def proto_of_def fp_defs\<close>)
qed

lemma new_session_proto: "follows_proto (new_session u)"
  by (simp add: new_session_def follows_proto_def proto_of_def held_ok_def)

subsection \<open>Counting terminal results\<close>

text \<open>How many operations the output ends, and how many it begins.\<close>

fun terminals :: "proto \<Rightarrow> fp_out list \<Rightarrow> nat" where
  "terminals p [] = 0"
| "terminals p (x # xs) =
     (case proto_step p x of
        None \<Rightarrow> 0
      | Some q \<Rightarrow> (if p \<noteq> PIdle \<and> q = PIdle then 1 else 0) + terminals q xs)"

definition begins :: "fp_out list \<Rightarrow> nat" where
  "begins xs = length (filter is_Begin xs)"

lemma terminals_le_begins:
  "proto_run p xs = Some q \<Longrightarrow>
   terminals p xs + (if q = PIdle then 0 else 1) \<le> begins xs + (if p = PIdle then 0 else 1)"
proof (induction xs arbitrary: p)
  case (Cons x xs)
  then obtain p' where p': "proto_step p x = Some p'" "proto_run p' xs = Some q"
    by (auto split: Option.bind_splits)
  from Cons.IH [OF p'(2)] p'(1) show ?case
    by (cases x; cases p) (auto simp: begins_def split: if_splits)
qed (simp add: begins_def)

lemma terminals_within:
  "proto_run (PRun k) xs = Some q \<Longrightarrow> \<not> list_ex is_Begin xs \<Longrightarrow>
   terminals (PRun k) xs = (if q = PIdle then 1 else 0)"
proof (induction xs arbitrary: k)
  case (Cons x xs)
  have idle: "proto_run PIdle ys = Some r \<Longrightarrow> \<not> list_ex is_Begin ys \<Longrightarrow>
      r = PIdle \<and> terminals PIdle ys = 0" for ys r
  proof (induction ys)
    case (Cons y ys)
    then show ?case by (cases y) (auto split: if_splits Option.bind_splits)
  qed simp
  from Cons.prems obtain p' where p': "proto_step (PRun k) x = Some p'" "proto_run p' xs = Some q"
    by (auto split: Option.bind_splits)
  show ?case
  proof (cases p')
    case PIdle
    with p' Cons.prems idle [of xs q] show ?thesis by simp
  next
    case (PRun k')
    with p' Cons.prems Cons.IH [of k'] show ?thesis by simp
  qed
qed auto


text \<open>
  C1. In every history of a session, under every interleaving of its threads, the output follows
  the session protocol: each result belongs to the running operation and ends it, and at most one
  terminal result is delivered per operation begun.
\<close>

theorem session_protocol:
  "let s = run (session_step A) (new_session u) es in
   proto_run PIdle (outs s) = Some (proto_of s) \<and>
   terminals PIdle (outs s) + (if mOpEnded s then 0 else 1) \<le> begins (outs s)"
proof -
  let ?s = "run (session_step A) (new_session u) es"
  have "follows_proto ?s" by (rule proto.run_inv [OF new_session_proto])
  then have p: "proto_run PIdle (outs ?s) = Some (proto_of ?s)" by (simp add: follows_proto_def)
  with terminals_le_begins [OF p] show ?thesis by (simp add: proto_of_def Let_def split: if_splits)
qed

subsection \<open>Requests that must end with their call\<close>

text \<open>
  The kind of the operation a request begins, for the requests whose operation is over when they
  return: the module failed the call, the module has no such entry, or the request completes
  by itself (removal and invalidation).
\<close>

fun must_end :: "event \<Rightarrow> OpKind option" where
  "must_end (EvEnroll hat m) = (if ret m \<noteq> 0 then Some kEnroll else None)"
| "must_end (EvAuthenticate i pre m) = (if ret m \<noteq> 0 then Some kAuthenticate else None)"
| "must_end (EvDetect slot m) = (if \<not> slot \<or> ret m \<noteq> 0 then Some kDetectInteraction else None)"
| "must_end (EvEnumerate m) = (if ret m \<noteq> 0 then Some kEnumerate else None)"
| "must_end (EvRemove ids ms post) = Some kRemove"
| "must_end (EvInvalidate slot i m) = Some kInvalidateAuthenticatorId"
| "must_end (EvResetLockout hat slot m) =
     (if \<not> slot \<or> ret m \<noteq> 0 then Some kResetLockout else None)"
| "must_end _ = None"

definition begun :: "OpKind \<Rightarrow> session \<Rightarrow> session" where
  "begun k s = snd (beginOperation k s)"

lemma begin_attached:
  "\<not> mDetached s \<Longrightarrow> beginOperation k s = (mNextOp s + 1, begun k s)"
  by (simp add: begun_def beginOperation_def Let_def)

lemma begun_facts [simp]:
  assumes "\<not> mDetached s"
  shows "held_ok (begun k s)" "mOp (begun k s) = mNextOp s + 1" "mOpKind (begun k s) = k"
    "\<not> mDetached (begun k s)" "proto_of (begun k s) = PRun k"
    "outs (begun k s) = outs s @ [Begin (mNextOp s + 1) k]"
  using assms by (simp_all add: begun_def held_ok_def proto_of_def fp_defs Let_def)

text \<open>An operation that stays the session's own until it has ended, ended once.\<close>

definition ended_once :: "OpKind \<Rightarrow> session \<Rightarrow> session \<Rightarrow> bool" where
  "ended_once k s t \<longleftrightarrow> mOpEnded t \<and>
     (\<exists>xs. outs t = outs s @ Begin (mNextOp s + 1) k # xs \<and> begins xs = 0 \<and>
       terminals (PRun k) xs = 1)"

lemma within_ended_once:
  assumes "\<not> mDetached s" "within (begun k s) t" "mOpEnded t"
  shows "ended_once k s t"
proof -
  from assms(1,2) obtain xs where xs: "outs t = outs s @ Begin (mNextOp s + 1) k # xs"
    "\<not> list_ex is_Begin xs" "proto_run (PRun k) xs = Some (proto_of t)"
    by (auto simp: within_def)
  moreover have "begins xs = 0" using xs(2) by (induction xs) (auto simp: begins_def)
  moreover have "terminals (PRun k) xs = 1"
    using terminals_within [OF xs(3,2)] assms(3) by (simp add: proto_of_def)
  ultimately show ?thesis using assms(3) unfolding ended_once_def by blast
qed

lemma fail_ends:
  assumes "mOp s = op" "\<not> mDetached s"
  shows "mOpEnded (failOperation A op s)"
  using assms by (auto simp: fp_defs)

lemma call_fail_ended_once:
  assumes "\<not> mDetached s"
  shows "ended_once k s (failOperation A (mNextOp s + 1) (call_device A m d (begun k s)))"
proof (rule within_ended_once [OF assms])
  have "held_ok (begun k s)" using assms by simp
  then show "within (begun k s) (failOperation A (mNextOp s + 1) (call_device A m d (begun k s)))"
    using call_within fail_within by (meson within_trans)
qed (use assms in \<open>simp add: fail_ends\<close>)

lemma gap_fail_ended_once:
  assumes "\<not> mDetached s"
  shows "ended_once k s (failOperation A (mNextOp s + 1) (run_crits A cs (begun k s)))"
proof (rule within_ended_once [OF assms])
  have "held_ok (begun k s)" using assms by simp
  then show "within (begun k s) (failOperation A (mNextOp s + 1) (run_crits A cs (begun k s)))"
    using crits_within fail_within by (meson within_trans)
qed (use assms in \<open>simp add: fail_ends\<close>)

lemma auth_id_within:
  "held_ok s \<Longrightarrow> within s (s\<lparr>mAuthOperationId := i\<rparr>) \<and> held_ok (s\<lparr>mAuthOperationId := i\<rparr>)"
  by (auto simp: within_eq held_ok_def runningLocked_kind_def proto_of_def)

lemma auth_fail_ended_once:
  assumes "\<not> mDetached s"
  shows "ended_once kAuthenticate s (failOperation A (mNextOp s + 1) (call_device A m d
      ((run_crits A pre (begun kAuthenticate s))\<lparr>mAuthOperationId := i\<rparr>)))"
proof (rule within_ended_once [OF assms])
  have "held_ok (begun kAuthenticate s)" using assms by simp
  then show "within (begun kAuthenticate s) (failOperation A (mNextOp s + 1) (call_device A m d
      ((run_crits A pre (begun kAuthenticate s))\<lparr>mAuthOperationId := i\<rparr>)))"
    using crits_within auth_id_within call_within fail_within by (meson within_trans)
qed (use assms in \<open>simp add: fail_ends\<close>)

lemma result_ended_once:
  assumes "\<not> mDetached s" "within (begun k s) t" "held_ok t" "mOp t = mNextOp s + 1"
    "mOpKind t = k" "\<not> mDetached t" "proto_cb k c = Some PIdle"
  shows "ended_once k s
    (if runningLocked_op (mNextOp s + 1) t then endOperationLocked (emit (Cb c) (t\<lparr>mRemoved := r\<rparr>)) else t)"
proof (rule within_ended_once [OF assms(1)])
  have "within t (if runningLocked_op (mNextOp s + 1) t
      then endOperationLocked (emit (Cb c) (t\<lparr>mRemoved := r\<rparr>)) else t)"
    using assms(5,7) by (auto simp: within_eq fp_defs proto_of_def)
  with assms(2) show "within (begun k s) (if runningLocked_op (mNextOp s + 1) t
      then endOperationLocked (emit (Cb c) (t\<lparr>mRemoved := r\<rparr>)) else t)"
    by (rule within_trans)
qed (use assms in \<open>auto simp: fp_defs\<close>)

text \<open>
  C3. A request on an open session whose module call fails, or that completes by itself, ends its
  operation with exactly one terminal result, whatever the module reported during the call and
  whatever other threads did: the module's own result or the fallback, never both.
\<close>

theorem failed_request_ends_once:
  assumes "must_end e = Some k" "\<not> mDetached s" "mNextOp s + 1 \<noteq> 0"
  shows "ended_once k s (session_step A s e)"
proof -
  have H: "held_ok (begun k s)" using assms(2) by simp
  show ?thesis
  proof (cases e)
    case (EvRemove ids ms post)
    let ?t = "run_crits A post (removeLoop A ms ids (begun kRemove s))"
    from EvRemove assms(1) have k: "k = kRemove" by simp
    have "within (begun k s) ?t \<and> held_ok ?t"
      using H removeLoop_within crits_within unfolding k by (meson within_trans)
    then have "ended_once k s (if runningLocked_op (mNextOp s + 1) ?t
        then endOperationLocked (emit (Cb (onEnrollmentsRemoved (mRemoved ?t)))
          (?t\<lparr>mRemoved := []\<rparr>)) else ?t)"
      using assms(2) by (intro result_ended_once) (auto simp: k)
    with EvRemove assms(2,3) show ?thesis
      by (simp add: removeEnrollments_def begin_attached Let_def if_distrib [of snd] cong: if_cong)
        (simp split: if_splits)
  next
    case (EvInvalidate slot i m)
    let ?t = "call_device A m dev_invalidate_authenticator_id (begun kInvalidateAuthenticatorId s)"
    from EvInvalidate assms(1) have k: "k = kInvalidateAuthenticatorId" by simp
    have "within (begun k s) ?t \<and> held_ok ?t" using H call_within unfolding k by blast
    then have "ended_once k s (if runningLocked_op (mNextOp s + 1) ?t
        then endOperationLocked (emit (Cb (onAuthenticatorIdInvalidated i))
          (?t\<lparr>mRemoved := mRemoved ?t\<rparr>)) else ?t)"
      using assms(2) by (intro result_ended_once) (auto simp: k)
    with EvInvalidate assms(2,3) k show ?thesis
      by (auto simp: invalidateAuthenticatorId_def begin_attached Let_def
          call_fail_ended_once gap_fail_ended_once split: if_splits)
  qed (use assms in \<open>auto simp: enroll_def authenticate_def detectInteraction_def
        enumerateEnrollments_def resetLockout_def begin_attached Let_def call_fail_ended_once
        gap_fail_ended_once auth_fail_ended_once split: if_splits\<close>)
qed


text \<open>Sample values: the numbering of the Android headers, and a module call that fails.\<close>

definition sample_abi :: fp_abi where
  "sample_abi = \<lparr>HW_AUTH_TOKEN_VERSION = 0, FINGERPRINT_ERROR_HW_UNAVAILABLE = 1,
     FINGERPRINT_ERROR_UNABLE_TO_REMOVE = 6, FINGERPRINT_ERROR_VENDOR_BASE = 1000,
     FINGERPRINT_ACQUIRED_GOOD = 0, FINGERPRINT_ACQUIRED_TOO_FAST = 5,
     FINGERPRINT_ACQUIRED_VENDOR_BASE = 1000, Error_UNABLE_TO_PROCESS = 2, Error_VENDOR = 7,
     AcquiredInfo_VENDOR = 7, AcquiredInfo_INSUFFICIENT = 3\<rparr>"

definition silent_call :: module_call where
  "silent_call = \<lparr>gap = [], during = [], ret = 0\<rparr>"

theorem failed_request_ends_once_witness:
  "must_end (EvEnroll empty_hat \<lparr>gap = [], during = [CritMessage 0 (MsgError 3)], ret = - 1\<rparr>) = Some kEnroll
   \<and> \<not> mDetached (new_session 10) \<and> mNextOp (new_session 10) + 1 \<noteq> 0
   \<and> ended_once kEnroll (new_session 10) (session_step sample_abi (new_session 10)
       (EvEnroll empty_hat \<lparr>gap = [], during = [CritMessage 0 (MsgError 3)], ret = - 1\<rparr>))"
proof -
  let ?e = "EvEnroll empty_hat \<lparr>gap = [], during = [CritMessage 0 (MsgError 3)], ret = - 1\<rparr>"
  have h: "must_end ?e = Some kEnroll" "\<not> mDetached (new_session 10)"
    "mNextOp (new_session 10) + 1 \<noteq> 0"
    by (simp_all add: new_session_def)
  from h failed_request_ends_once [OF h, of sample_abi] show ?thesis by blast
qed

section \<open>Where a released token comes from\<close>

text \<open>A match of an enrolled finger of user \<open>u\<close> that the module reported, with its token.\<close>

definition reported :: "fingerprint_msg set \<Rightarrow> i32 \<Rightarrow> i32 \<Rightarrow> HardwareAuthToken \<Rightarrow> bool" where
  "reported M u fid hat \<longleftrightarrow>
     fid \<noteq> 0 \<and> (\<exists>tok. MsgAuthenticated fid u tok \<in> M \<and> hat = fromLegacy tok)"

definition honest :: "fingerprint_msg set \<Rightarrow> session \<Rightarrow> bool" where
  "honest M s \<longleftrightarrow>
     (mHeldMatch s \<longrightarrow> reported M (mUserId s) (mHeldEnrollmentId s) (mHeldHat s)) \<and>
     (\<forall>fid hat. Cb (onAuthenticationSucceeded fid hat) \<in> set (outs s) \<longrightarrow>
        reported M (mUserId s) fid hat)"

lemma honest_message: "honest M s \<Longrightarrow> msg \<in> M \<Longrightarrow> honest M (messageLocked A now msg s)"
  by (cases msg)
    (auto simp: honest_def reported_def fp_defs Let_def split: prod.split)

lemma atom_honest: "atom A M s t \<Longrightarrow> honest M s \<Longrightarrow> honest M t"
proof (induction rule: atom.induct)
  case (atom_crit c s)
  then show ?case
  proof (cases c)
    case (CritMessage now msg)
    with atom_crit show ?thesis by (simp add: onMessage_def honest_message)
  next
    case (CritContext ctx now)
    with atom_crit show ?thesis
      by (auto simp: contextChangedLocked_def Let_def honest_def emit_def endOperationLocked_def)
  qed (use atom_crit in \<open>auto simp: honest_def closeLocked_def emit_def\<close>)
qed (auto simp: honest_def fp_defs Let_def)

lemma session_step_honest:
  assumes "event_msgs e \<subseteq> M" "honest M s"
  shows "honest M (session_step A s e)"
  by (rule session_step_induct [OF assms(1) atom_honest])
    (use assms(2) in \<open>auto simp: honest_def emit_def\<close>)

lemma run_honest:
  assumes "\<Union> (event_msgs ` set es) \<subseteq> M" "honest M s"
  shows "honest M (run (session_step A) s es)"
  using assms by (induction es arbitrary: s) (auto intro: session_step_honest)

lemma atom_user: "atom A M s t \<Longrightarrow> mUserId t = mUserId s"
  by (induction rule: atom.induct) (auto simp: fp_defs Let_def)

lemma session_step_user: "mUserId (session_step A s e) = mUserId s"
proof (rule session_step_induct [of e UNIV A "\<lambda>t. mUserId t = mUserId s"])
  show "mUserId t = mUserId s" if "atom A UNIV r t" "mUserId r = mUserId s" for r t
    using atom_user [OF that(1)] that(2) by simp
qed (auto simp: emit_def)

lemma run_user [simp]: "mUserId (run (session_step A) s es) = mUserId s"
  by (induction es arbitrary: s) (auto simp: session_step_user)

text \<open>
  C2. A session releases an authentication success only for a match the module reported to this
  session, of an enrolled finger (not 0) of the session's own user, and with the token of that
  report. This holds for delayed (held) matches too.
\<close>

theorem token_provenance:
  assumes "Cb (onAuthenticationSucceeded fid hat) \<in> set (outs (run (session_step A) (new_session u) es))"
  shows "fid \<noteq> 0 \<and>
    (\<exists>e\<in>set es. \<exists>tok. MsgAuthenticated fid u tok \<in> event_msgs e \<and> hat = fromLegacy tok)"
proof -
  have "honest (\<Union> (event_msgs ` set es)) (run (session_step A) (new_session u) es)"
    by (rule run_honest) (auto simp: honest_def new_session_def)
  moreover have "mUserId (run (session_step A) (new_session u) es) = u" by (simp add: new_session_def)
  ultimately show ?thesis using assms by (force simp: honest_def reported_def)
qed

definition sample_tok :: hw_auth_token_t where
  "sample_tok = toLegacy sample_abi empty_hat"

definition sample_history :: "event list" where
  "sample_history = [EvAuthenticate 77 [] silent_call,
     Crit (CritUpdate \<lparr>displayState = DS_AOD, authenticateReason = Some (VendorReason True (Some True))\<rparr>),
     Crit (CritMessage 5 (MsgAuthenticated 9 10 sample_tok)),
     Crit (CritContext \<lparr>displayState = DS_OTHER 1, authenticateReason = None\<rparr> 20)]"

lemmas session_eval =
  sample_history_def silent_call_def new_session_def authenticate_def call_device_def run_crits_def
  fp_defs Let_def kHeldMatchWindow_def

theorem token_provenance_witness:
  "Cb (onAuthenticationSucceeded 9 (fromLegacy sample_tok)) \<in>
     set (outs (run (session_step sample_abi) (new_session 10) sample_history)) \<and>
   (\<exists>e\<in>set sample_history. \<exists>tok. MsgAuthenticated 9 10 tok \<in> event_msgs e)"
proof -
  have h: "Cb (onAuthenticationSucceeded 9 (fromLegacy sample_tok)) \<in>
      set (outs (run (session_step sample_abi) (new_session 10) sample_history))"
    by (simp add: session_eval)
  with token_provenance [OF h] show ?thesis by blast
qed

section \<open>After the session is detached\<close>

lemma atom_appends: "atom A M s t \<Longrightarrow> \<exists>xs. outs t = outs s @ xs"
proof (induction rule: atom.induct)
  case (atom_crit c s)
  then show ?case
  proof (cases c)
    case (CritMessage now msg)
    then show ?thesis by (cases msg) (auto simp: fp_defs Let_def split: prod.split)
  next
    case (CritContext ctx now)
    then show ?thesis by (auto simp: contextChangedLocked_def Let_def emit_def endOperationLocked_def)
  qed (auto simp: closeLocked_def emit_def)
qed (auto simp: fp_defs Let_def)

abbreviation new_outs :: "fp_abi \<Rightarrow> session \<Rightarrow> event \<Rightarrow> fp_out list" where
  "new_outs A s e \<equiv> drop (length (outs s)) (outs (session_step A s e))"

lemma session_step_appends: "\<exists>xs. outs (session_step A s e) = outs s @ xs"
proof (rule session_step_induct [of e UNIV A])
  fix r t assume "atom A UNIV r t" and r: "\<exists>xs. outs r = outs s @ xs"
  from atom_appends [OF this(1)] r show "\<exists>xs. outs t = outs s @ xs" by auto
qed (auto simp: emit_def)

interpretation slog: step_log "session_step A" outs "new_outs A" for A
proof unfold_locales
  show "outs (session_step A s e) = outs s @ new_outs A s e" for s e
    using session_step_appends [of A s e] by auto
qed

lemma detached_step:
  assumes "mDetached s" "\<nexists>c. e = Crit c"
  shows "session_step A s e = s"
  using assms
  by (cases e)
    (simp_all add: queryLocked_def enroll_def authenticate_def detectInteraction_def
      enumerateEnrollments_def removeEnrollments_def invalidateAuthenticatorId_def
      resetLockout_def rearmThread_def stopSensorAfter_def cancel_def detach_def fp_defs)

text \<open>
  The callbacks that \<^verbatim>\<open>generateChallenge\<close>, \<^verbatim>\<open>revokeChallenge\<close> and \<^verbatim>\<open>getAuthenticatorId\<close> make
  after they gave up both locks.
\<close>

fun unlocked_out :: "fp_out \<Rightarrow> bool" where
  "unlocked_out (Cb (onChallengeGenerated c)) = True"
| "unlocked_out (Cb (onChallengeRevoked c)) = True"
| "unlocked_out (Cb (onAuthenticatorIdRetrieved i)) = True"
| "unlocked_out _ = False"

lemma detached_new_outs: "mDetached s \<Longrightarrow> x \<in> set (new_outs A s e) \<Longrightarrow> unlocked_out x"
proof (cases "\<exists>c. e = Crit c")
  case True
  then obtain c where "e = Crit c" by blast
  moreover assume "mDetached s" "x \<in> set (new_outs A s e)"
  ultimately show ?thesis
    by (cases c) (auto simp: onMessage_def contextChangedLocked_def Let_def closeLocked_def emit_def)
qed (simp add: detached_step)

lemma detached_stays: "mDetached s \<Longrightarrow> mDetached (session_step A s e)"
  by (cases "\<exists>c. e = Crit c") (auto simp: detached_step)

text \<open>
  C4. Once a session is detached (closed, or its client died) no history can make it call the
  module again, and it delivers no result of an operation: what may still come out are only the
  three callbacks that are made without a lock.
\<close>

theorem detached_silent:
  assumes "mDetached s"
  shows "\<exists>xs. outs (run (session_step A) s es) = outs s @ xs \<and> list_all unlocked_out xs"
  using slog.run_log_ball [of mDetached A unlocked_out, OF detached_stays detached_new_outs assms]
  by (auto simp: list_all_iff)

theorem detached_silent_witness:
  "mDetached (session_step sample_abi (new_session 10) (EvDetach True silent_call)) \<and>
   (\<exists>xs. outs (run (session_step sample_abi)
       (session_step sample_abi (new_session 10) (EvDetach True silent_call)) sample_history)
     = [OnDetach] @ xs \<and> list_all unlocked_out xs)"
proof -
  let ?s = "session_step sample_abi (new_session 10) (EvDetach True silent_call)"
  have h: "mDetached ?s" "outs ?s = [OnDetach]"
    by (simp_all add: session_eval detach_def)
  with detached_silent [OF h(1), of sample_abi sample_history] show ?thesis by simp
qed

lemma atom_detach:
  "atom A M s t \<Longrightarrow>
   mDetached t = mDetached s \<and> count_list (outs t) OnDetach = count_list (outs s) OnDetach"
proof (induction rule: atom.induct)
  case (atom_crit c s)
  then show ?case
  proof (cases c)
    case (CritMessage now msg)
    then show ?thesis by (cases msg) (auto simp: fp_defs Let_def split: prod.split)
  next
    case (CritContext ctx now)
    then show ?thesis by (auto simp: contextChangedLocked_def Let_def emit_def endOperationLocked_def)
  qed (auto simp: closeLocked_def emit_def)
qed (auto simp: fp_defs Let_def)

definition told_owner :: "session \<Rightarrow> bool" where
  "told_owner s \<longleftrightarrow> count_list (outs s) OnDetach = of_bool (mDetached s)"

lemma atoms_detach:
  "atoms A M s t \<Longrightarrow>
   mDetached t = mDetached s \<and> count_list (outs t) OnDetach = count_list (outs s) OnDetach"
  by (induction rule: rtranclp.induct) (auto dest: atom_detach)

interpretation told: step_invariant "session_step A" told_owner for A
proof unfold_locales
  fix s e assume I: "told_owner s"
  show "told_owner (session_step A s e)"
  proof (cases "\<exists>died m. e = EvDetach died m")
    case True
    then obtain died m where e: "e = EvDetach died m" by blast
    show ?thesis using detach_cases [of m UNIV s A died] I
      by (auto simp: e told_owner_def emit_def dest: atoms_detach)
  next
    case False
    then have "atoms A UNIV s (session_step A s e)" by (intro session_step_atoms) auto
    from atoms_detach [OF this] I show ?thesis by (simp add: told_owner_def)
  qed
qed

text \<open>
  In every history the owner of a session is told that it is detached exactly once when it
  is, and not at all while it is not, however many closes and client deaths there are.
\<close>

theorem detach_once:
  "count_list (outs (run (session_step A) (new_session u) es)) OnDetach
   = of_bool (mDetached (run (session_step A) (new_session u) es))"
  using told.run_inv [of "new_session u" A es] by (simp add: told_owner_def new_session_def)

end
