(* ===== verification/Fp_Session_Ops.thy ===== *)
theory Fp_Session_Ops
  imports Fp_Session_Props
begin

text \<open>
  The fingerprint session's operations one by one: operation numbers and stale requests, the
  calls that reach the module, the screen gate with its held match, what a removal reports, and
  the translations of tokens and codes.
\<close>

section \<open>Operation numbers\<close>

definition begin_ids :: "fp_out list \<Rightarrow> u64 list" where
  "begin_ids xs = concat (map (\<lambda>x. case x of Begin op k \<Rightarrow> [op] | _ \<Rightarrow> []) xs)"

lemma begin_ids_simps [simp]:
  "begin_ids [] = []"
  "begin_ids (xs @ ys) = begin_ids xs @ begin_ids ys"
  "begin_ids (x # xs) = (case x of Begin op k \<Rightarrow> [op] | _ \<Rightarrow> []) @ begin_ids xs"
  by (simp_all add: begin_ids_def)

text \<open>Operations are numbered from 1, in the order they begin; the last one is current.\<close>

definition numbered :: "session \<Rightarrow> bool" where
  "numbered s \<longleftrightarrow> mOp s = mNextOp s \<and> mNextOp s = of_nat (length (begin_ids (outs s))) \<and>
     begin_ids (outs s) = map of_nat [1..<Suc (length (begin_ids (outs s)))]"

lemma not_begin_appends:
  assumes "op_frame t = op_frame s" "outs t = outs s @ xs" "begin_ids xs = []" "numbered s"
  shows "numbered t"
  using assms op_frameD [OF assms(1)] by (simp add: numbered_def)

lemma crit_no_begin: "begin_ids (outs (run_crit A c s)) = begin_ids (outs s)"
proof (cases c)
  case (CritMessage now msg)
  then show ?thesis by (cases msg) (auto simp: fp_defs Let_def split: prod.split)
next
  case (CritContext ctx now)
  then show ?thesis by (simp add: contextChangedLocked_def Let_def emit_def endOperationLocked_def)
qed (simp_all add: closeLocked_def emit_def)

lemma atom_numbered: "atom A M s t \<Longrightarrow> numbered s \<Longrightarrow> numbered t"
proof (induction rule: atom.induct)
  case (atom_crit c s)
  then show ?case by (simp add: numbered_def crit_no_begin)
qed (auto simp: numbered_def fp_defs Let_def)

interpretation numbering: step_invariant "session_step A" numbered for A
proof unfold_locales
  fix s e assume "numbered s"
  show "numbered (session_step A s e)"
  proof (rule session_step_induct [of e UNIV A])
    show "numbered t" if "atom A UNIV s t" "numbered s" for s t
      using that by (rule atom_numbered)
  qed (use \<open>numbered s\<close> in \<open>auto simp: numbered_def emit_def\<close>)
qed

lemma new_session_numbered: "numbered (new_session u)"
  by (simp add: numbered_def new_session_def)

lemma numbered_stale:
  assumes "numbered s" "length (begin_ids (outs s)) < 2 ^ 64" "op \<in> set (butlast (begin_ids (outs s)))"
  shows "op \<noteq> mOp s"
proof -
  define n where "n = length (begin_ids (outs s))"
  have ids: "begin_ids (outs s) = map of_nat [1..<Suc n]" and mop: "mOp s = of_nat n"
    using assms(1) by (simp_all add: numbered_def n_def)
  then have "op \<in> set (map of_nat [1..<n])"
    using assms(3) by (cases n) (simp_all add: butlast_append upt_Suc)
  then obtain i where i: "op = of_nat i" "i < n" by auto
  with assms(2) have "unat op = i" "unat (mOp s) = n"
    by (simp_all add: mop n_def [symmetric] unat_of_nat take_bit_nat_eq_self)
  with i show ?thesis by auto
qed

text \<open>
  C5. A cancellation signal, a re-arm thread or a sensor stop that belongs to an operation which
  a later one replaced does nothing at all, as long as fewer than 2^64 operations were begun.
\<close>

theorem stale_operation_inert:
  assumes "s = run (session_step A) (new_session u) es"
    and "length (begin_ids (outs s)) < 2 ^ 64"
    and "op \<in> set (butlast (begin_ids (outs s)))"
  shows "cancel A op m s = s \<and> rearmThread A op m s = s \<and> stopSensorAfter A op m s = s"
proof -
  have "numbered s" unfolding assms(1) by (rule numbering.run_inv [OF new_session_numbered])
  from numbered_stale [OF this assms(2,3)] show ?thesis
    by (simp add: cancel_def rearmThread_def stopSensorAfter_def fp_defs)
qed

theorem stale_operation_inert_witness:
  "cancel sample_abi 1 silent_call
     (run (session_step sample_abi) (new_session 10) (sample_history @ sample_history))
   = run (session_step sample_abi) (new_session 10) (sample_history @ sample_history)"
proof -
  let ?s = "run (session_step sample_abi) (new_session 10) (sample_history @ sample_history)"
  have ids: "begin_ids (outs ?s) = [1, 2]" by (simp add: session_eval)
  have "cancel sample_abi 1 silent_call ?s = ?s \<and> rearmThread sample_abi 1 silent_call ?s = ?s \<and>
      stopSensorAfter sample_abi 1 silent_call ?s = ?s"
    by (rule stale_operation_inert [OF refl]) (simp_all add: ids)
  then show ?thesis by blast
qed

section \<open>What reaches the module\<close>

text \<open>The kind of the operation that was begun last, and the calls of a log checked against it.\<close>

fun last_kind :: "OpKind \<Rightarrow> fp_out list \<Rightarrow> OpKind" where
  "last_kind k [] = k"
| "last_kind k (x # xs) = last_kind (case x of Begin op k' \<Rightarrow> k' | _ \<Rightarrow> k) xs"

fun legit_log :: "OpKind \<Rightarrow> i32 \<Rightarrow> fp_out list \<Rightarrow> bool" where
  "legit_log k u [] = True"
| "legit_log k u (x # xs) =
     (case x of Begin op k' \<Rightarrow> legit_log k' u xs | Dev d \<Rightarrow> legit k u d \<and> legit_log k u xs | _ \<Rightarrow> legit_log k u xs)"

lemma last_kind_append [simp]: "last_kind k (xs @ ys) = last_kind (last_kind k xs) ys"
  by (induction xs arbitrary: k) simp_all

lemma legit_log_append [simp]: "legit_log k u (xs @ ys) \<longleftrightarrow> legit_log k u xs \<and> legit_log (last_kind k xs) u ys"
  by (induction xs arbitrary: k) (auto split: fp_out.split)

definition legit_outs :: "session \<Rightarrow> bool" where
  "legit_outs s \<longleftrightarrow> last_kind kNone (outs s) = mOpKind s \<and> legit_log kNone (mUserId s) (outs s)"

lemma crit_legit: "legit_outs s \<Longrightarrow> legit_outs (run_crit A c s)"
proof (cases c)
  case (CritMessage now msg)
  then show "legit_outs s \<Longrightarrow> ?thesis"
    by (cases msg) (auto simp: legit_outs_def fp_defs Let_def split: prod.split)
next
  case (CritContext ctx now)
  then show "legit_outs s \<Longrightarrow> ?thesis"
    by (auto simp: legit_outs_def contextChangedLocked_def Let_def emit_def endOperationLocked_def)
qed (auto simp: legit_outs_def closeLocked_def emit_def)

lemma atom_legit: "atom A M s t \<Longrightarrow> legit_outs s \<Longrightarrow> legit_outs t"
proof (induction rule: atom.induct)
  case (atom_crit c s)
  then show ?case by (simp add: crit_legit)
qed (auto simp: legit_outs_def fp_defs Let_def)

interpretation legit: step_invariant "session_step A" legit_outs for A
proof unfold_locales
  fix s e assume "legit_outs s"
  show "legit_outs (session_step A s e)"
  proof (rule session_step_induct [of e UNIV A])
    show "legit_outs t" if "atom A UNIV s t" "legit_outs s" for s t
      using that by (rule atom_legit)
  qed (use \<open>legit_outs s\<close> in \<open>auto simp: legit_outs_def emit_def\<close>)
qed

text \<open>
  C6. What a session asks the module for, under every interleaving. A call that names a user (enroll, authenticate,
  remove) names the session's own; an enrolment has the fixed timeout; a removal never has the id 0, which the module
  would read as all templates; and enroll, remove, enumerate, detect interaction, reset lockout and invalidate the
  authenticator id are called only for an operation of that kind that the session began and no later one replaced. The
  calls without a user act on the module's active group, which the service sets, not the session.
\<close>

theorem module_calls_legit:
  "legit_log kNone u (outs (run (session_step A) (new_session u) es))"
proof -
  have "legit_outs (run (session_step A) (new_session u) es)"
    by (rule legit.run_inv) (simp add: legit_outs_def new_session_def)
  then show ?thesis by (simp add: legit_outs_def new_session_def)
qed

section \<open>The screen gate\<close>

text \<open>
  Touches that are not a match of the session's user: acquired messages, failed matches and
  matches of other users.
\<close>

fun touch_noise :: "i32 \<Rightarrow> critical \<Rightarrow> bool" where
  "touch_noise u (CritMessage now (MsgAcquired i)) = True"
| "touch_noise u (CritMessage now (MsgAuthenticated f g tok)) = (f = 0 \<or> g \<noteq> u)"
| "touch_noise u _ = False"

lemma noise_gated:
  assumes "screenGatedLocked s" "touch_noise (mUserId s) c"
  shows "run_crit A c s = s"
  using assms by (elim touch_noise.elims) (auto simp: fp_defs)

lemma noises_gated:
  "screenGatedLocked s \<Longrightarrow> list_all (touch_noise (mUserId s)) cs \<Longrightarrow> run_crits A cs s = s"
  unfolding run_crits_def by (induction cs) (auto simp: noise_gated)

lemma match_gated:
  assumes "screenGatedLocked s" "\<not> mDetached s" "fid \<noteq> 0"
  shows "run_crit A (CritMessage t0 (MsgAuthenticated fid (mUserId s) tok)) s =
    emit (Rearm (mOp s)) (s\<lparr>mHeldMatch := True, mHeldEnrollmentId := fid,
      mHeldHat := fromLegacy tok, mHeldAt := t0\<rparr>)"
  using assms by (auto simp: onMessage_def screenGatedLocked_def runningLocked_kind_def)

definition screen_off :: "OperationContext \<Rightarrow> bool" where
  "screen_off ctx = (displayState ctx = DS_NO_UI \<or> displayState ctx = DS_AOD)"

text \<open>
  C7. Press to authenticate. With the screen off, a match of the user and any number of other
  touches around it produce no callback at all; only the sensor is re-armed. When the display
  then turns on, the match is released with its token and ends the operation if at most one
  second passed, and is dropped, with the operation still running, otherwise.
\<close>

theorem press_to_auth:
  assumes "screenGatedLocked s" "\<not> mDetached s" "fid \<noteq> 0" "\<not> screen_off ctx"
    and "list_all (touch_noise (mUserId s)) before" "list_all (touch_noise (mUserId s)) after"
  shows "let t = run_crits A (before @ CritMessage t0 (MsgAuthenticated fid (mUserId s) tok) #
             after @ [CritContext ctx t1]) s
    in outs t = outs s @ [Rearm (mOp s)] @
         (if t1 - t0 \<le> kHeldMatchWindow
          then [Cb (onAuthenticationSucceeded fid (fromLegacy tok))] else [])
       \<and> mOpEnded t = (t1 - t0 \<le> kHeldMatchWindow) \<and> \<not> mHeldMatch t"
proof -
  define h where "h = emit (Rearm (mOp s)) (s\<lparr>mHeldMatch := True, mHeldEnrollmentId := fid,
      mHeldHat := fromLegacy tok, mHeldAt := t0\<rparr>)"
  have gated: "screenGatedLocked h" "mUserId h = mUserId s"
    using assms(1) by (simp_all add: h_def emit_def screenGatedLocked_def runningLocked_kind_def)
  have crits: "run_crits A (xs @ ys) r = run_crits A ys (run_crits A xs r)"
    "run_crits A (c # xs) r = run_crits A xs (run_crit A c r)" "run_crits A [] r = r" for xs ys c r
    by (simp_all add: run_crits_def)
  have "run_crits A (before @ CritMessage t0 (MsgAuthenticated fid (mUserId s) tok) #
      after @ [CritContext ctx t1]) s = snd (contextChangedLocked ctx t1 h)"
    using noises_gated [OF assms(1,5), of A] match_gated [OF assms(1-3), of A t0 tok]
      noises_gated [OF gated(1), of "after" A] assms(6) gated(2)
    by (simp add: crits h_def)
  moreover have "\<not> screenGatedLocked (updateContextLocked ctx h)"
    using assms(4) by (auto simp: screenGatedLocked_def screen_off_def)
  moreover have "\<not> mOpEnded s" using assms(1) by (simp add: screenGatedLocked_def runningLocked_kind_def)
  ultimately show ?thesis using assms(2)
    by (simp add: contextChangedLocked_def Let_def h_def emit_def endOperationLocked_def)
qed

definition gated_session :: session where
  "gated_session = run (session_step sample_abi) (new_session 10) (take 2 sample_history)"

theorem press_to_auth_witness:
  "screenGatedLocked gated_session \<and>
   outs (run_crits sample_abi ([] @ CritMessage 0 (MsgAuthenticated 9 (mUserId gated_session) sample_tok) #
      [CritMessage 2 (MsgAcquired 0)] @
      [CritContext \<lparr>displayState = DS_OTHER 1, authenticateReason = None\<rparr> 5]) gated_session)
   = outs gated_session @ [Rearm (mOp gated_session),
       Cb (onAuthenticationSucceeded 9 (fromLegacy sample_tok))]"
proof -
  have g: "screenGatedLocked gated_session" "\<not> mDetached gated_session"
    by (simp_all add: gated_session_def session_eval)
  have n: "(9::32 word) \<noteq> 0" "\<not> screen_off \<lparr>displayState = DS_OTHER 1, authenticateReason = None\<rparr>"
    "list_all (touch_noise (mUserId gated_session)) []"
    "list_all (touch_noise (mUserId gated_session)) [CritMessage 2 (MsgAcquired 0)]"
    by (simp_all add: screen_off_def)
  from g(1) press_to_auth [OF g n, of sample_abi 0 sample_tok 5] show ?thesis
    by (simp add: Let_def kHeldMatchWindow_def)
qed

section \<open>What a removal reports\<close>

text \<open>
  A module call during which the module reports the removal of the templates \<open>fs\<close>, and no other
  thread interferes.
\<close>

definition removing_call :: "int \<Rightarrow> u32 list \<Rightarrow> int \<Rightarrow> module_call" where
  "removing_call now fs r =
     \<lparr>gap = [], during = map (\<lambda>f. CritMessage now (MsgRemoved f 0 0)) fs, ret = r\<rparr>"

fun removal_calls :: "i32 \<Rightarrow> i32 list \<Rightarrow> fp_out list" where
  "removal_calls u [] = []"
| "removal_calls u (i # ids) = (if i = 0 then [] else [Dev (dev_remove u i)]) @ removal_calls u ids"

fun removal_report :: "(nat \<Rightarrow> u32 list) \<Rightarrow> i32 list \<Rightarrow> i32 list" where
  "removal_report rep [] = []"
| "removal_report rep (i # ids) =
     (if i = 0 then [] else filter (\<lambda>f. f \<noteq> 0) (rep 0)) @ removal_report (\<lambda>n. rep (Suc n)) ids"

lemma removed_messages:
  "runningLocked_kind kRemove s \<Longrightarrow> \<not> mDetached s \<Longrightarrow>
   run_crits A (map (\<lambda>f. CritMessage now (MsgRemoved f 0 0)) fs) s
   = s\<lparr>mRemoved := mRemoved s @ filter (\<lambda>f. f \<noteq> 0) fs\<rparr>"
proof (induction fs arbitrary: s)
  case (Cons f fs)
  let ?s = "s\<lparr>mRemoved := mRemoved s @ [f]\<rparr>"
  have "runningLocked_kind kRemove ?s" "\<not> mDetached ?s"
    using Cons.prems by (simp_all add: runningLocked_kind_def)
  from Cons.IH [OF Cons.prems] Cons.IH [OF this] Cons.prems show ?case
    by (simp add: run_crits_def onMessage_def)
qed (simp add: run_crits_def)

lemma removeLoop_report:
  assumes "runningLocked_kind kRemove s" "\<not> mDetached s"
  shows "removeLoop A (\<lambda>n. removing_call now (rep n) (r n)) ids s =
    s\<lparr>mRemoved := mRemoved s @ removal_report rep ids,
      outs := outs s @ removal_calls (mUserId s) ids\<rparr>"
  using assms
proof (induction ids arbitrary: s rep r)
  case (Cons i ids)
  let ?t = "s\<lparr>mRemoved := mRemoved s @ filter (\<lambda>f. f \<noteq> 0) (rep 0),
    outs := outs s @ [Dev (dev_remove (mUserId s) i)]\<rparr>"
  let ?d = "emit (Dev (dev_remove (mUserId s) i)) s"
  have "runningLocked_kind kRemove ?d" "\<not> mDetached ?d"
    using Cons.prems by (simp_all add: runningLocked_kind_def emit_def)
  from removed_messages [OF this, of A now "rep 0"]
  have call: "call_device A (removing_call now (rep 0) (r 0)) (dev_remove (mUserId s) i) s = ?t"
    by (simp add: call_device_def removing_call_def run_crits_def emit_def)
  have t: "runningLocked_kind kRemove ?t" "\<not> mDetached ?t"
    using Cons.prems by (simp_all add: runningLocked_kind_def)
  show ?case
    using Cons.IH [OF t, of "\<lambda>n. rep (Suc n)" "\<lambda>n. r (Suc n)"]
      Cons.IH [OF Cons.prems, of "\<lambda>n. rep (Suc n)" "\<lambda>n. r (Suc n)"]
    by (simp add: call)
qed simp

text \<open>
  A removal request asks the module for every id that is not 0, in order, whether or not
  single calls fail, and then reports, once and in order, exactly the templates the module said
  it removed.
\<close>

theorem removal_reports:
  assumes "\<not> mDetached s" "mNextOp s + 1 \<noteq> 0"
  shows "let op = mNextOp s + 1;
      t = snd (removeEnrollments A ids (\<lambda>n. removing_call now (rep n) (r n)) [] s)
    in outs t = outs s @ [Begin op kRemove] @ removal_calls (mUserId s) ids @
         [Cb (onEnrollmentsRemoved (removal_report rep ids))]
       \<and> mOpEnded t \<and> mRemoved t = []"
proof -
  have b: "runningLocked_kind kRemove (begun kRemove s)" "\<not> mDetached (begun kRemove s)"
    "mRemoved (begun kRemove s) = []" "mUserId (begun kRemove s) = mUserId s"
    using assms(1) by (simp_all add: begun_def fp_defs Let_def)
  from assms removeLoop_report [OF b(1,2), of A now rep r ids] b show ?thesis
    by (simp add: removeEnrollments_def begin_attached Let_def run_crits_def
        runningLocked_op_def runningLocked_kind_def endOperationLocked_def emit_def)
qed

theorem removal_reports_witness:
  "outs (snd (removeEnrollments sample_abi [4, 0, 5]
      (\<lambda>n. removing_call 0 (if n = 2 then [5, 0] else [4]) (if n = 0 then - 1 else 0)) []
      (new_session 10)))
   = [Begin 1 kRemove, Dev (dev_remove 10 4), Dev (dev_remove 10 5),
      Cb (onEnrollmentsRemoved [4, 5])]"
proof -
  have h: "\<not> mDetached (new_session 10)" "mNextOp (new_session 10) + 1 \<noteq> 0"
    by (simp_all add: new_session_def)
  from removal_reports [OF h, of sample_abi "[4, 0, 5]" 0 "\<lambda>n. if n = 2 then [5, 0] else [4]"
      "\<lambda>n. if n = 0 then - 1 else 0"]
  show ?thesis by (simp add: Let_def new_session_def)
qed

section \<open>Tokens and codes\<close>

text \<open>
  A token goes through the legacy layout and back unchanged, in both directions, when its
  MAC has the 32 bytes the layout has room for (and the legacy token the current version).
\<close>

theorem token_roundtrip:
  assumes "length (mac hat) = hmac_size"
    and "length (tok_hmac tok) = hmac_size" "tok_version tok = HW_AUTH_TOKEN_VERSION A"
  shows "fromLegacy (toLegacy A hat) = hat \<and> toLegacy A (fromLegacy tok) = tok"
  using assms by (simp add: toLegacy_def fromLegacy_def)

theorem token_roundtrip_witness:
  "fromLegacy (toLegacy sample_abi (empty_hat\<lparr>mac := replicate 32 7, milliSeconds := 1\<rparr>))
   = empty_hat\<lparr>mac := replicate 32 7, milliSeconds := 1\<rparr>"
proof -
  let ?h = "empty_hat\<lparr>mac := replicate 32 7, milliSeconds := 1\<rparr>"
  have h: "length (mac ?h) = hmac_size" "length (tok_hmac sample_tok) = hmac_size"
    "tok_version sample_tok = HW_AUTH_TOKEN_VERSION sample_abi"
    by (simp_all add: hmac_size_def sample_tok_def toLegacy_def empty_hat_def)
  from token_roundtrip [OF h] show ?thesis by blast
qed

lemma sint_minus_nonneg:
  fixes x y :: i32
  assumes "0 \<le> sint y" "sint y \<le> sint x"
  shows "sint (x - y) = sint x - sint y"
proof -
  have "sint x < 2 ^ 31" using sint_lt [of x] by simp
  with assms have "signed_take_bit 31 (sint x - sint y) = sint x - sint y"
    by (intro signed_take_bit_int_eq_self) auto
  then show ?thesis by (simp add: sint_word_ariths)
qed

text \<open>
  Module error codes: a standard code passes unchanged, a vendor code is split without
  overflow into the vendor error and its offset, and everything else becomes
  \<^verbatim>\<open>UNABLE_TO_PROCESS\<close>. Vendor offsets are never negative.
\<close>

theorem error_translation:
  assumes "0 \<le> sint (FINGERPRINT_ERROR_VENDOR_BASE A)"
    and "sint (FINGERPRINT_ERROR_UNABLE_TO_REMOVE A) < sint (FINGERPRINT_ERROR_VENDOR_BASE A)"
    and "toAidlError A err = (e, v)"
  shows "0 \<le> sint v \<and>
    (e = err \<and> v = 0
     \<or> e = Error_VENDOR A \<and> sint err = sint (FINGERPRINT_ERROR_VENDOR_BASE A) + sint v
     \<or> e = Error_UNABLE_TO_PROCESS A \<and> v = 0
       \<and> (sint err < sint (FINGERPRINT_ERROR_HW_UNAVAILABLE A)
          \<or> sint (FINGERPRINT_ERROR_UNABLE_TO_REMOVE A) < sint err
            \<and> sint err < sint (FINGERPRINT_ERROR_VENDOR_BASE A)))"
  using assms sint_minus_nonneg [of "FINGERPRINT_ERROR_VENDOR_BASE A" err]
  by (auto simp: toAidlError_def split: if_splits)

theorem error_translation_witness:
  "toAidlError sample_abi 1004 = (7, 4) \<and> 0 \<le> sint (4 :: 32 word)"
proof -
  have h: "0 \<le> sint (FINGERPRINT_ERROR_VENDOR_BASE sample_abi)"
    "sint (FINGERPRINT_ERROR_UNABLE_TO_REMOVE sample_abi) < sint (FINGERPRINT_ERROR_VENDOR_BASE sample_abi)"
    "toAidlError sample_abi 1004 = (7, 4)"
    by (simp_all add: sample_abi_def toAidlError_def)
  from h(3) error_translation [OF h] show ?thesis by simp
qed

section \<open>Callbacks around a close\<close>

text \<open>
  \<^verbatim>\<open>close\<close> tells the client and detaches in two critical sections, so two closes that overlap both
  tell it.
\<close>

lemma double_close:
  "outs (run (session_step A) (new_session u)
     [Crit CritClose, Crit CritClose, EvDetach False silent_call, EvDetach False silent_call])
   = [Cb onSessionClosed, Cb onSessionClosed, OnDetach]"
  by (simp add: session_eval detach_def)

text \<open>The callback of \<^verbatim>\<open>generateChallenge\<close> can come after the session was detached.\<close>

lemma callback_after_detach:
  "outs (run (session_step A) (new_session u)
     [EvPreEnroll silent_call, EvDetach True silent_call, Crit (CritChallengeGenerated c)])
   = [Dev dev_pre_enroll, OnDetach, Cb (onChallengeGenerated c)]"
  by (simp add: session_eval detach_def queryLocked_def)

end
