(* ===== verification/Fp_Service.thy ===== *)
theory Fp_Service
  imports Fp_Session_Ops
begin

text \<open>
  The fingerprint service around the sessions: \<^verbatim>\<open>fingerprint/Fingerprint.cpp\<close> (opening the
  module, creating sessions, routing module messages), \<^verbatim>\<open>fingerprint/PressToAuth.h\<close> (the
  parcelable of the "Touch to unlock anytime" setting) and
  \<^verbatim>\<open>fingerprint/ModuleFactoryService.cpp\<close> (the module's debug service is never registered).

  Session objects live in a list of slots; a pointer to a session is its index. The parts of
  \<^verbatim>\<open>createSession\<close> between which other threads may run are separate definitions. \<open>createSession\<close>
  composes them as the source does, and \<open>service_step\<close> interleaves them, with the routing of
  messages split where \<^verbatim>\<open>notify\<close> gives up its lock.
\<close>

section \<open>Data\<close>

text \<open>Codes of libbinder and of \<^verbatim>\<open>hardware.h\<close>.\<close>

record binder_abi =
  STATUS_OK :: int
  STATUS_INVALID_OPERATION :: int
  STATUS_BAD_VALUE :: int
  EX_NONE :: int

definition kSensorId :: i32 where
  "kSensorId = 5"

definition kMaxEnrollmentsPerUser :: i32 where
  "kMaxEnrollmentsPerUser = 5"

definition kSensorLocationX :: i32 where
  "kSensorLocationX = 1116"

definition kSensorLocationY :: i32 where
  "kSensorLocationY = 1100"

definition kSensorRadius :: i32 where
  "kSensorRadius = 100"

text \<open>\<^verbatim>\<open>HARDWARE_MODULE_API_VERSION(2, 1)\<close>: major and minor number in one byte each.\<close>

definition kModuleVersion :: u32 where
  "kModuleVersion = 0x0201"

text \<open>
  Where a session object is on its way through \<^verbatim>\<open>createSession\<close>: its client is watched, the
  module's group is set, it was made the service's session, or its creation failed.
\<close>

datatype stage = Watched | GroupSet | Installed | Refused

record slot =
  slot_stage :: stage
  slot_session :: session

datatype service_call =
    Mkdir string
  | SetActiveGroup i32 string int \<comment> \<open>user, path, returned code\<close>

text \<open>
  \<open>replaced\<close>, \<open>notices\<close> and \<open>inflight\<close> are what threads are about to do: detach a replaced
  session, run its detach notice, and deliver a message to the session \<^verbatim>\<open>notify\<close> read.
\<close>

record service =
  slots :: "slot list"
  mSession :: "nat option"
  replaced :: "nat list"
  notices :: "nat list"
  inflight :: "(nat \<times> int \<times> fingerprint_msg) list"
  service_calls :: "service_call list"

definition new_service :: service where
  "new_service = \<lparr>slots = [], mSession = None, replaced = [], notices = [], inflight = [],
     service_calls = []\<rparr>"

datatype service_status = SvOk | EX_ILLEGAL_ARGUMENT | BinderStatus int | ServiceSpecific int

section \<open>Opening the module\<close>

text \<open>
  What the platform answers: the code of \<^verbatim>\<open>hw_get_module\<close>, the device \<^verbatim>\<open>open\<close> gives (\<open>None\<close> when
  there is no \<^verbatim>\<open>open\<close>, it fails, or gives no device) with its version, and the code of
  \<^verbatim>\<open>set_notify\<close>. The second component is whether \<^verbatim>\<open>sInstance\<close> is set afterwards.
\<close>

definition create :: "int \<Rightarrow> u32 option \<Rightarrow> int \<Rightarrow> service option \<times> bool" where
  "create getModule opened setNotify =
     (if getModule \<noteq> 0 then (None, False)
      else case opened of
        None \<Rightarrow> (None, False)
      | Some version \<Rightarrow>
          if version \<noteq> kModuleVersion then (None, False)
          else if setNotify \<noteq> 0 then (None, False)
          else (Some new_service, True))"

record SensorProps =
  sensorId :: i32
  strong :: bool
  maxEnrollmentsPerUser :: i32
  powerButton :: bool
  sensorLocations :: "(i32 \<times> i32 \<times> i32) list"
  supportsNavigationGestures :: bool
  supportsDetectInteraction :: bool
  halHandlesDisplayTouches :: bool
  halControlsIllumination :: bool

definition getSensorProps :: "SensorProps list" where
  "getSensorProps = [\<lparr>sensorId = kSensorId, strong = True,
     maxEnrollmentsPerUser = kMaxEnrollmentsPerUser, powerButton = True,
     sensorLocations = [(kSensorLocationX, kSensorLocationY, kSensorRadius)],
     supportsNavigationGestures = False, supportsDetectInteraction = True,
     halHandlesDisplayTouches = False, halControlsIllumination = False\<rparr>]"

section \<open>Creating sessions\<close>

definition watchClient :: "binder_abi \<Rightarrow> int \<Rightarrow> int" where
  "watchClient B status = (if status = STATUS_INVALID_OPERATION B then STATUS_OK B else status)"

definition templatePath :: "i32 \<Rightarrow> string" where
  "templatePath user = ''/data/vendor_de/'' @ show_int (sint user) @ ''/fpdata''"

definition update_slot :: "nat \<Rightarrow> (slot \<Rightarrow> slot) \<Rightarrow> service \<Rightarrow> service" where
  "update_slot i f sv = sv\<lparr>slots := (slots sv)[i := f (slots sv ! i)]\<rparr>"

definition setStage :: "nat \<Rightarrow> stage \<Rightarrow> service \<Rightarrow> service" where
  "setStage i g = update_slot i (\<lambda>x. x\<lparr>slot_stage := g\<rparr>)"

text \<open>The new session object, its death link made, and the user's directory.\<close>

definition makeSession :: "i32 \<Rightarrow> service \<Rightarrow> nat \<times> service" where
  "makeSession user sv =
     (length (slots sv),
      sv\<lparr>slots := slots sv @ [\<lparr>slot_stage = Watched, slot_session = new_session user\<rparr>]\<rparr>)"

definition makeDirectory :: "i32 \<Rightarrow> service \<Rightarrow> service" where
  "makeDirectory user sv = sv\<lparr>service_calls := service_calls sv @ [Mkdir (templatePath user)]\<rparr>"

definition setActiveGroup :: "nat \<Rightarrow> int \<Rightarrow> service \<Rightarrow> service" where
  "setActiveGroup i err sv =
     (let user = mUserId (slot_session (slots sv ! i));
          sv = sv\<lparr>service_calls := service_calls sv @ [SetActiveGroup user (templatePath user) err]\<rparr>
      in if err \<noteq> 0 then setStage i Refused sv else setStage i GroupSet sv)"

definition exchangeSession :: "nat \<Rightarrow> service \<Rightarrow> service" where
  "exchangeSession i sv =
     (setStage i Installed sv)\<lparr>mSession := Some i,
        replaced := replaced sv @ (case mSession sv of None \<Rightarrow> [] | Some j \<Rightarrow> [j])\<rparr>"

text \<open>One handler of a session; if it detached the session, its notice is due.\<close>

definition sessionHandler :: "fp_abi \<Rightarrow> nat \<Rightarrow> event \<Rightarrow> service \<Rightarrow> service" where
  "sessionHandler A i e sv =
     (let s = slot_session (slots sv ! i); t = session_step A s e;
          sv = update_slot i (\<lambda>x. x\<lparr>slot_session := t\<rparr>) sv
      in if \<not> mDetached s \<and> mDetached t then sv\<lparr>notices := notices sv @ [i]\<rparr> else sv)"

definition detachPrevious :: "fp_abi \<Rightarrow> nat \<Rightarrow> module_call \<Rightarrow> service \<Rightarrow> service" where
  "detachPrevious A j m sv =
     (let sv = sessionHandler A j (EvDetach False m) sv in sv\<lparr>replaced := remove1 j (replaced sv)\<rparr>)"

text \<open>The lambda that \<^verbatim>\<open>createSession\<close> gives the session as its \<^verbatim>\<open>onDetach\<close>.\<close>

definition onDetach :: "nat \<Rightarrow> service \<Rightarrow> service" where
  "onDetach i sv =
     sv\<lparr>mSession := (if mSession sv = Some i then None else mSession sv),
       notices := remove1 i (notices sv)\<rparr>"

definition createSession ::
    "fp_abi \<Rightarrow> binder_abi \<Rightarrow> i32 \<Rightarrow> i32 \<Rightarrow> bool \<Rightarrow> int \<Rightarrow> int \<Rightarrow> module_call \<Rightarrow> service
     \<Rightarrow> service_status \<times> nat option \<times> service" where
  "createSession A B sensor user hasCb linkStatus groupErr m sv =
     (if sensor \<noteq> kSensorId \<or> \<not> hasCb then (EX_ILLEGAL_ARGUMENT, None, sv)
      else let (i, sv) = makeSession user sv; status = watchClient B linkStatus in
        if status \<noteq> STATUS_OK B then (BinderStatus status, None, setStage i Refused sv)
        else let sv = setActiveGroup i groupErr (makeDirectory user sv) in
          if groupErr \<noteq> 0 then (ServiceSpecific groupErr, None, sv)
          else let previous = mSession sv; sv = exchangeSession i sv in
            (SvOk, Some i,
             case previous of
               None \<Rightarrow> sv
             | Some j \<Rightarrow> (let sv' = detachPrevious A j m sv
                 in if notices sv' \<noteq> notices sv then onDetach j sv' else sv')))"

section \<open>Routing messages\<close>

definition fetchSession :: "int \<Rightarrow> fingerprint_msg \<Rightarrow> service \<Rightarrow> service" where
  "fetchSession now msg sv =
     (case mSession sv of
        None \<Rightarrow> sv
      | Some i \<Rightarrow> sv\<lparr>inflight := inflight sv @ [(i, now, msg)]\<rparr>)"

definition deliver :: "fp_abi \<Rightarrow> nat \<Rightarrow> service \<Rightarrow> service" where
  "deliver A k sv =
     (case inflight sv ! k of (i, now, msg) \<Rightarrow>
      sessionHandler A i (Crit (CritMessage now msg))
        (sv\<lparr>inflight := take k (inflight sv) @ drop (Suc k) (inflight sv)\<rparr>))"

text \<open>\<^verbatim>\<open>notify\<close> without interleaving; \<open>instance\<close> is whether \<^verbatim>\<open>sInstance\<close> is set.\<close>

definition notify :: "fp_abi \<Rightarrow> bool \<Rightarrow> int \<Rightarrow> fingerprint_msg option \<Rightarrow> service \<Rightarrow> service" where
  "notify A instance_set now msg sv =
     (case msg of
        None \<Rightarrow> sv
      | Some msg \<Rightarrow>
          if \<not> instance_set then sv
          else case mSession sv of
            None \<Rightarrow> sv
          | Some i \<Rightarrow> sessionHandler A i (Crit (CritMessage now msg)) sv)"

section \<open>Interleaved histories of the service\<close>

datatype service_event =
    SvCreate i32 i32 bool int \<comment> \<open>sensor, user, whether there is a callback, link status\<close>
  | SvSetGroup nat int
  | SvExchange nat
  | SvDetachPrevious nat module_call
  | SvOnDetach nat
  | SvHandler nat event
  | SvFetch int fingerprint_msg
  | SvDeliver nat

text \<open>
  A client has a session only once it was installed; its death can be noticed before that.
\<close>

fun reachable_handler :: "stage \<Rightarrow> event \<Rightarrow> bool" where
  "reachable_handler Installed e = True"
| "reachable_handler Refused e = False"
| "reachable_handler g (EvDetach died m) = died"
| "reachable_handler g e = False"

fun service_step :: "fp_abi \<Rightarrow> binder_abi \<Rightarrow> service \<Rightarrow> service_event \<Rightarrow> service" where
  "service_step A B sv (SvCreate sensor user hasCb linkStatus) =
     (if sensor \<noteq> kSensorId \<or> \<not> hasCb then sv
      else let (i, sv) = makeSession user sv in
        if watchClient B linkStatus \<noteq> STATUS_OK B then setStage i Refused sv
        else makeDirectory user sv)"
| "service_step A B sv (SvSetGroup i err) =
     (if i < length (slots sv) \<and> slot_stage (slots sv ! i) = Watched
      then setActiveGroup i err sv else sv)"
| "service_step A B sv (SvExchange i) =
     (if i < length (slots sv) \<and> slot_stage (slots sv ! i) = GroupSet
      then exchangeSession i sv else sv)"
| "service_step A B sv (SvDetachPrevious j m) =
     (if j \<in> set (replaced sv) then detachPrevious A j m sv else sv)"
| "service_step A B sv (SvOnDetach i) = (if i \<in> set (notices sv) then onDetach i sv else sv)"
| "service_step A B sv (SvHandler i e) =
     (if i < length (slots sv) \<and> reachable_handler (slot_stage (slots sv ! i)) e
      then sessionHandler A i e sv else sv)"
| "service_step A B sv (SvFetch now msg) = fetchSession now msg sv"
| "service_step A B sv (SvDeliver k) = (if k < length (inflight sv) then deliver A k sv else sv)"

section \<open>At most one live session\<close>

text \<open>A session that is installed, attached, and not about to be detached by its successor.\<close>

definition live :: "service \<Rightarrow> nat \<Rightarrow> bool" where
  "live sv i = (slot_stage (slots sv ! i) = Installed \<and>
     \<not> mDetached (slot_session (slots sv ! i)) \<and> i \<notin> set (replaced sv))"

definition live_sessions :: "service \<Rightarrow> nat list" where
  "live_sessions sv = filter (live sv) [0..<length (slots sv)]"

definition service_ok :: "service \<Rightarrow> bool" where
  "service_ok sv \<longleftrightarrow>
     (\<forall>i<length (slots sv). live sv i \<longrightarrow> mSession sv = Some i) \<and>
     (\<forall>i\<in>set (notices sv). i < length (slots sv) \<and> mDetached (slot_session (slots sv ! i))) \<and>
     (\<forall>i. mSession sv = Some i \<longrightarrow> i < length (slots sv)) \<and>
     (\<forall>i\<in>set (replaced sv). i < length (slots sv)) \<and>
     (\<forall>x\<in>set (inflight sv). fst x < length (slots sv))"

lemma service_okD:
  assumes "service_ok sv"
  shows "i < length (slots sv) \<Longrightarrow> live sv i \<Longrightarrow> mSession sv = Some i"
    "i \<in> set (notices sv) \<Longrightarrow> i < length (slots sv)"
    "i \<in> set (notices sv) \<Longrightarrow> mDetached (slot_session (slots sv ! i))"
    "mSession sv = Some i \<Longrightarrow> i < length (slots sv)"
    "i \<in> set (replaced sv) \<Longrightarrow> i < length (slots sv)"
    "x \<in> set (inflight sv) \<Longrightarrow> fst x < length (slots sv)"
  using assms unfolding service_ok_def by blast+

lemma service_okI:
  assumes "\<And>i. i < length (slots sv) \<Longrightarrow> live sv i \<Longrightarrow> mSession sv = Some i"
    "\<And>i. i \<in> set (notices sv) \<Longrightarrow>
       i < length (slots sv) \<and> mDetached (slot_session (slots sv ! i))"
    "\<And>i. mSession sv = Some i \<Longrightarrow> i < length (slots sv)"
    "\<And>i. i \<in> set (replaced sv) \<Longrightarrow> i < length (slots sv)"
    "\<And>x. x \<in> set (inflight sv) \<Longrightarrow> fst x < length (slots sv)"
  shows "service_ok sv"
  unfolding service_ok_def using assms by blast

lemmas service_ok_simps = service_okD(2-6)

lemma slots_sessionHandler:
  assumes "j < length (slots sv)"
  shows "slots (sessionHandler A i e sv) ! j =
    (if j = i then (slots sv ! i)\<lparr>slot_session := session_step A (slot_session (slots sv ! i)) e\<rparr>
     else slots sv ! j)"
  using assms by (simp add: sessionHandler_def update_slot_def Let_def)

lemma notices_sessionHandler:
  "notices (sessionHandler A i e sv) = notices sv @
    (if \<not> mDetached (slot_session (slots sv ! i)) \<and>
        mDetached (session_step A (slot_session (slots sv ! i)) e) then [i] else [])"
  by (simp add: sessionHandler_def update_slot_def Let_def)

lemma sessionHandler_simps [simp]:
  "replaced (sessionHandler A i e sv) = replaced sv"
  "mSession (sessionHandler A i e sv) = mSession sv"
  "inflight (sessionHandler A i e sv) = inflight sv"
  "length (slots (sessionHandler A i e sv)) = length (slots sv)"
  by (simp_all add: sessionHandler_def update_slot_def Let_def)

lemma sessionHandler_detached_mono:
  "j < length (slots sv) \<Longrightarrow> mDetached (slot_session (slots sv ! j)) \<Longrightarrow>
   mDetached (slot_session (slots (sessionHandler A i e sv) ! j))"
  by (auto simp: slots_sessionHandler intro: detached_stays)

lemma sessionHandler_stage:
  "j < length (slots sv) \<Longrightarrow>
   slot_stage (slots (sessionHandler A i e sv) ! j) = slot_stage (slots sv ! j)"
  by (simp add: slots_sessionHandler)

lemma sessionHandler_live:
  assumes "j < length (slots sv)" "live (sessionHandler A i e sv) j"
  shows "live sv j"
  using assms(2) sessionHandler_detached_mono [OF assms(1), of A i e]
  unfolding live_def sessionHandler_stage [OF assms(1)] sessionHandler_simps by blast

lemma sessionHandler_notices:
  assumes "service_ok sv" "i < length (slots sv)" "k \<in> set (notices (sessionHandler A i e sv))"
  shows "k < length (slots sv) \<and> mDetached (slot_session (slots (sessionHandler A i e sv) ! k))"
proof (cases "k \<in> set (notices sv)")
  case True
  with assms(1) have "k < length (slots sv)" "mDetached (slot_session (slots sv ! k))"
    unfolding service_ok_def by blast+
  with sessionHandler_detached_mono show ?thesis by blast
next
  case False
  with assms(3) have "k = i" "mDetached (session_step A (slot_session (slots sv ! i)) e)"
    unfolding notices_sessionHandler by (simp_all split: if_splits)
  with assms(2) show ?thesis by (simp add: slots_sessionHandler)
qed

lemma sessionHandler_ok:
  assumes "service_ok sv" "i < length (slots sv)"
  shows "service_ok (sessionHandler A i e sv)"
  using assms(1) sessionHandler_live [of _ sv A i e] sessionHandler_notices [OF assms, of _ A e]
  unfolding service_ok_def sessionHandler_simps by blast

lemma detach_detaches [simp]: "mDetached (detach A died m s)"
  by (simp add: detach_def Let_def emit_def)

lemma sessionHandler_detach:
  "i < length (slots sv) \<Longrightarrow>
   mDetached (slot_session (slots (sessionHandler A i (EvDetach died m) sv) ! i))"
  by (simp add: sessionHandler_def update_slot_def Let_def)

lemma forget_replaced_ok:
  assumes ok: "service_ok sv" and d: "mDetached (slot_session (slots sv ! j))"
  shows "service_ok (sv\<lparr>replaced := remove1 j (replaced sv)\<rparr>)"
proof -
  have "live sv i" if "live (sv\<lparr>replaced := remove1 j (replaced sv)\<rparr>) i" for i
    using that d by (cases "i = j") (simp_all add: live_def)
  then show ?thesis
    by (intro service_okI) (auto dest: service_okD [OF ok] set_remove1_subset [THEN subsetD])
qed

lemma detachPrevious_ok:
  assumes "service_ok sv" "j < length (slots sv)"
  shows "service_ok (detachPrevious A j m sv)"
  unfolding detachPrevious_def Let_def
  by (intro forget_replaced_ok sessionHandler_ok assms sessionHandler_detach)

lemma add_slot_ok:
  assumes ok: "service_ok sv" and g: "slot_stage x \<noteq> Installed"
  shows "service_ok (sv\<lparr>slots := slots sv @ [x]\<rparr>)"
proof -
  let ?t = "sv\<lparr>slots := slots sv @ [x]\<rparr>"
  have "i < length (slots sv) \<and> live sv i" if "i < length (slots ?t)" "live ?t i" for i
    using that g by (cases "i = length (slots sv)") (simp_all add: live_def nth_append)
  then show ?thesis
    by (intro service_okI) (auto dest: service_okD [OF ok] simp: nth_append)
qed

lemma log_ok:
  assumes ok: "service_ok sv"
  shows "service_ok (sv\<lparr>service_calls := cs\<rparr>)"
proof -
  have "live (sv\<lparr>service_calls := cs\<rparr>) = live sv" by (simp add: live_def fun_eq_iff)
  then show ?thesis by (intro service_okI) (auto dest: service_okD [OF ok])
qed

lemma create_ok:
  assumes ok: "service_ok sv"
  shows "service_ok (service_step A B sv (SvCreate sensor user hasCb linkStatus))"
proof -
  let ?x = "\<lambda>g. \<lparr>slot_stage = g, slot_session = new_session user\<rparr>"
  have "service_ok (sv\<lparr>slots := slots sv @ [?x g]\<rparr>)" if "g \<noteq> Installed" for g
    using that by (intro add_slot_ok [OF ok]) simp
  from this [of Refused] log_ok [OF this [of Watched]] ok show ?thesis
    by (simp add: makeSession_def makeDirectory_def setStage_def update_slot_def)
qed

lemma setStage_simps [simp]:
  "length (slots (setStage i g sv)) = length (slots sv)"
  "mSession (setStage i g sv) = mSession sv" "notices (setStage i g sv) = notices sv"
  "replaced (setStage i g sv) = replaced sv" "inflight (setStage i g sv) = inflight sv"
  by (simp_all add: setStage_def update_slot_def)

lemma setStage_session [simp]:
  "j < length (slots sv) \<Longrightarrow>
   slot_session (slots (setStage i g sv) ! j) = slot_session (slots sv ! j)"
  by (cases "i = j") (simp_all add: setStage_def update_slot_def)

lemma stage_ok:
  assumes ok: "service_ok sv" and g: "g \<noteq> Installed"
  shows "service_ok (setStage i g sv)"
proof -
  have "live sv j" if "j < length (slots sv)" "live (setStage i g sv) j" for j
    using that g by (cases "i = j") (simp_all add: live_def setStage_def update_slot_def)
  then show ?thesis
    by (intro service_okI) (auto simp: service_ok_simps [OF ok] dest: service_okD(1) [OF ok])
qed

lemma exchange_ok:
  assumes ok: "service_ok sv" and i: "i < length (slots sv)"
  shows "service_ok (exchangeSession i sv)"
proof -
  let ?t = "exchangeSession i sv"
  have live: "j = i" if "j < length (slots sv)" "live ?t j" for j
  proof (rule ccontr)
    assume "j \<noteq> i"
    with that have "live sv j" "j \<notin> set_option (mSession sv)"
      by (auto simp: live_def exchangeSession_def setStage_def update_slot_def split: option.splits)
    with service_okD(1) [OF ok that(1)] show False by simp
  qed
  have "mSession ?t = Some j" if "j < length (slots ?t)" "live ?t j" for j
    using that live [of j] by (simp add: exchangeSession_def)
  then show ?thesis using i
    by (intro service_okI)
      (auto simp: exchangeSession_def service_ok_simps [OF ok] split: option.splits)
qed

lemma notice_ok:
  assumes ok: "service_ok sv" and i: "i \<in> set (notices sv)"
  shows "service_ok (onDetach i sv)"
proof -
  have "live sv j \<and> j \<noteq> i" if "live (onDetach i sv) j" for j
    using that service_okD(3) [OF ok i] by (cases "j = i") (simp_all add: live_def onDetach_def)
  then show ?thesis
    by (intro service_okI) (auto simp: onDetach_def dest: service_okD [OF ok] set_remove1_subset [THEN subsetD] split: if_splits)
qed

lemma deliver_ok:
  assumes ok: "service_ok sv" and k: "k < length (inflight sv)"
  shows "service_ok (deliver A k sv)"
proof -
  let ?sv = "sv\<lparr>inflight := take k (inflight sv) @ drop (Suc k) (inflight sv)\<rparr>"
  have "live ?sv = live sv" by (simp add: live_def fun_eq_iff)
  then have "service_ok ?sv"
    by (intro service_okI) (auto dest: service_okD [OF ok] in_set_takeD in_set_dropD)
  moreover have "fst (inflight sv ! k) < length (slots ?sv)"
    using service_okD(6) [OF ok nth_mem [OF k]] by simp
  ultimately show ?thesis
    by (cases "inflight sv ! k") (simp add: deliver_def sessionHandler_ok)
qed

lemma fetch_ok:
  assumes ok: "service_ok sv"
  shows "service_ok (fetchSession now msg sv)"
proof (cases "mSession sv")
  case (Some i)
  have "live (fetchSession now msg sv) = live sv"
    by (simp add: live_def fun_eq_iff fetchSession_def Some)
  then show ?thesis
    by (intro service_okI) (auto simp: fetchSession_def Some service_ok_simps [OF ok]
        dest: service_okD(1,6) [OF ok])
qed (use ok in \<open>simp add: fetchSession_def\<close>)

interpretation svc: step_invariant "service_step A B" service_ok for A B
proof unfold_locales
  fix sv e assume ok: "service_ok sv"
  show "service_ok (service_step A B sv e)"
  proof (cases e)
    case (SvCreate sensor user hasCb linkStatus)
    then show ?thesis using create_ok [OF ok] by blast
  qed (use ok in \<open>simp_all add: setActiveGroup_def Let_def stage_ok log_ok exchange_ok
      detachPrevious_ok service_okD(5) notice_ok sessionHandler_ok deliver_ok fetch_ok\<close>)
qed

text \<open>
  C8. However clients, the module's callback thread and client deaths interleave with the
  creation of sessions, the only session that is installed, attached and not about to be detached
  by its successor is the service's current one, to which module messages go.
\<close>

theorem one_live_session:
  "set (live_sessions (run (service_step A B) new_service es)) \<subseteq>
   set_option (mSession (run (service_step A B) new_service es))"
proof -
  have "service_ok (run (service_step A B) new_service es)"
    by (rule svc.run_inv) (simp add: service_ok_def new_service_def)
  then show ?thesis by (auto simp: live_sessions_def dest: service_okD)
qed

text \<open>
  The group of the module and the current session are set in separate critical sections: two
  overlapping calls can leave the module with the group of one user and the service with the
  session of another.
\<close>

lemma group_race:
  "let sv = run (service_step A B) new_service
     [SvCreate kSensorId 1 True (STATUS_OK B), SvCreate kSensorId 2 True (STATUS_OK B),
      SvSetGroup 0 0, SvSetGroup 1 0, SvExchange 1, SvExchange 0]
   in last (service_calls sv) = SetActiveGroup 2 (templatePath 2) 0 \<and> mSession sv = Some 0 \<and>
      mUserId (slot_session (slots sv ! 0)) = 1"
  by (simp add: Let_def makeSession_def makeDirectory_def setActiveGroup_def exchangeSession_def
      setStage_def update_slot_def new_service_def watchClient_def new_session_def)

section \<open>One call at a time\<close>

text \<open>
  What the service relies on of a session: after \<open>detach\<close> it is not attached, and an unattached
  one ignores messages.
\<close>

locale detachable =
  fixes receive :: "'m \<Rightarrow> 's \<Rightarrow> 's"
    and detach' :: "'s \<Rightarrow> 's"
    and attached :: "'s \<Rightarrow> bool"
  assumes detached_after: "\<not> attached (detach' s)"
    and ignores: "\<not> attached s \<Longrightarrow> receive m s = s"
begin

lemma ignores_all: "\<not> attached s \<Longrightarrow> fold receive ms s = s"
  by (induction ms) (simp_all add: ignores)

lemma late_messages: "fold receive ms (detach' s) = detach' s"
  by (rule ignores_all [OF detached_after])

end

interpretation sessions: detachable
  "\<lambda>(now, msg). onMessage A now msg" "detach A died m" "\<lambda>s. \<not> mDetached s" for A died m
  by unfold_locales (auto simp: onMessage_def)

lemma setActiveGroup_simps [simp]:
  "length (slots (setActiveGroup i err sv)) = length (slots sv)"
  "mSession (setActiveGroup i err sv) = mSession sv" "notices (setActiveGroup i err sv) = notices sv"
  "replaced (setActiveGroup i err sv) = replaced sv"
  "service_calls (setActiveGroup i err sv) = service_calls sv @
     [SetActiveGroup (mUserId (slot_session (slots sv ! i)))
        (templatePath (mUserId (slot_session (slots sv ! i)))) err]"
  "j \<noteq> i \<Longrightarrow> slots (setActiveGroup i err sv) ! j = slots sv ! j"
  "i < length (slots sv) \<Longrightarrow>
     slot_session (slots (setActiveGroup i err sv) ! i) = slot_session (slots sv ! i)"
  by (simp_all add: setActiveGroup_def Let_def setStage_def update_slot_def)

lemma exchangeSession_simps [simp]:
  "length (slots (exchangeSession i sv)) = length (slots sv)"
  "mSession (exchangeSession i sv) = Some i" "notices (exchangeSession i sv) = notices sv"
  "service_calls (exchangeSession i sv) = service_calls sv"
  "j \<noteq> i \<Longrightarrow> slots (exchangeSession i sv) ! j = slots sv ! j"
  "i < length (slots sv) \<Longrightarrow>
     slot_session (slots (exchangeSession i sv) ! i) = slot_session (slots sv ! i)"
  by (simp_all add: exchangeSession_def setStage_def update_slot_def)

lemma detachPrevious_simps [simp]:
  "length (slots (detachPrevious A j m sv)) = length (slots sv)"
  "mSession (detachPrevious A j m sv) = mSession sv"
  "service_calls (detachPrevious A j m sv) = service_calls sv"
  "i \<noteq> j \<Longrightarrow> slots (detachPrevious A j m sv) ! i = slots sv ! i"
  "j < length (slots sv) \<Longrightarrow> slot_session (slots (detachPrevious A j m sv) ! j)
     = detach A False m (slot_session (slots sv ! j))"
  by (simp_all add: detachPrevious_def sessionHandler_def Let_def update_slot_def)

lemma onDetach_simps [simp]:
  "slots (onDetach j sv) = slots sv" "service_calls (onDetach j sv) = service_calls sv"
  "mSession sv = Some i \<Longrightarrow> i \<noteq> j \<Longrightarrow> mSession (onDetach j sv) = Some i"
  by (simp_all add: onDetach_def)

lemma makeSession_simps:
  assumes "makeSession user sv = (i, sv')"
  shows "i = length (slots sv)" "slots sv' = slots sv @ [\<lparr>slot_stage = Watched,
      slot_session = new_session user\<rparr>]" "mSession sv' = mSession sv"
    "service_calls sv' = service_calls sv"
  using assms by (auto simp: makeSession_def)

text \<open>A call that fails changes neither the current session nor any session there is.\<close>

definition refused :: "service \<Rightarrow> service_status \<times> nat option \<times> service \<Rightarrow> bool" where
  "refused sv = (\<lambda>(st, r, sv'). st \<noteq> SvOk \<and> r = None \<and> mSession sv' = mSession sv \<and>
     (\<forall>j<length (slots sv). slots sv' ! j = slots sv ! j) \<and>
     (st = EX_ILLEGAL_ARGUMENT \<or> (\<exists>code. st = BinderStatus code) \<longrightarrow>
        service_calls sv' = service_calls sv))"

text \<open>
  A call that succeeds makes a fresh session of the user current, with the module's group set to
  that user, and detaches the session it replaces without a call on the module.
\<close>

definition opened :: "fp_abi \<Rightarrow> module_call \<Rightarrow> i32 \<Rightarrow> service
    \<Rightarrow> service_status \<times> nat option \<times> service \<Rightarrow> bool" where
  "opened A m user sv = (\<lambda>(st, r, sv'). st = SvOk \<and> r = Some (length (slots sv)) \<and>
     mSession sv' = r \<and> slot_session (slots sv' ! length (slots sv)) = new_session user \<and>
     last (service_calls sv') = SetActiveGroup user (templatePath user) 0 \<and>
     (\<forall>j. mSession sv = Some j \<longrightarrow>
        slot_session (slots sv' ! j) = detach A False m (slot_session (slots sv ! j))))"

lemma createSession_refused:
  assumes "sensor \<noteq> kSensorId \<or> \<not> hasCb \<or> watchClient B linkStatus \<noteq> STATUS_OK B \<or> groupErr \<noteq> 0"
  shows "refused sv (createSession A B sensor user hasCb linkStatus groupErr m sv)"
  using assms
  by (auto simp: createSession_def refused_def makeSession_def Let_def makeDirectory_def
      setStage_def update_slot_def nth_append)

lemma createSession_opened:
  assumes "sensor = kSensorId" "hasCb" "watchClient B linkStatus = STATUS_OK B" "groupErr = 0"
    and wf: "\<And>j. mSession sv = Some j \<Longrightarrow> j < length (slots sv)"
  shows "opened A m user sv (createSession A B sensor user hasCb linkStatus groupErr m sv)"
proof -
  obtain i sv' where mk: "makeSession user sv = (i, sv')" by fastforce
  let ?g = "setActiveGroup i groupErr (makeDirectory user sv')"
  have g: "slot_session (slots ?g ! i) = new_session user" "mSession ?g = mSession sv"
    "length (slots ?g) = Suc (length (slots sv))"
    "last (service_calls ?g) = SetActiveGroup user (templatePath user) 0"
    "j < length (slots sv) \<Longrightarrow> slots ?g ! j = slots sv ! j" for j
    using makeSession_simps [OF mk] assms(4)
    by (simp_all add: makeDirectory_def nth_append new_session_def)
  show ?thesis
  proof (cases "mSession sv")
    case None
    with assms(1-4) mk g makeSession_simps(1) [OF mk] show ?thesis
      by (simp add: createSession_def opened_def Let_def)
  next
    case (Some j)
    with wf [OF Some] assms(1-4) mk g makeSession_simps(1) [OF mk] show ?thesis
      by (simp add: createSession_def opened_def Let_def)
  qed
qed

text \<open>
  C9. Creating a session is all or nothing. With a wrong sensor, no callback, a client that is
  already dead or a module that refuses the group, the call fails and leaves the current session
  and every existing one as they were, and in the first three cases the module and the file
  system are not touched. Otherwise a fresh session of the user is current, the module's group
  was last set to the same user, and the session it replaces is detached.
\<close>

theorem create_session_all_or_nothing:
  assumes "\<And>j. mSession sv = Some j \<Longrightarrow> j < length (slots sv)"
  shows "if sensor \<noteq> kSensorId \<or> \<not> hasCb \<or> watchClient B linkStatus \<noteq> STATUS_OK B \<or> groupErr \<noteq> 0
    then refused sv (createSession A B sensor user hasCb linkStatus groupErr m sv)
    else opened A m user sv (createSession A B sensor user hasCb linkStatus groupErr m sv)"
  using createSession_refused createSession_opened [OF _ _ _ _ assms] by simp

definition sample_binder :: binder_abi where
  "sample_binder = \<lparr>STATUS_OK = 0, STATUS_INVALID_OPERATION = - 38, STATUS_BAD_VALUE = - 22,
     EX_NONE = 0\<rparr>"

theorem create_session_all_or_nothing_witness:
  "opened sample_abi silent_call 10 new_service
     (createSession sample_abi sample_binder 5 10 True (- 38) 0 silent_call new_service)"
proof -
  have h: "mSession new_service = Some j \<Longrightarrow> j < length (slots new_service)" for j
    by (simp add: new_service_def)
  from create_session_all_or_nothing [OF h, of 5 True sample_binder "- 38" 0 sample_abi 10 silent_call]
  show ?thesis by (simp add: kSensorId_def watchClient_def sample_binder_def)
qed

section \<open>The press-to-auth parcelable\<close>

text \<open>
  Operations of a parcel: the data position, reads that return a status, the value and the
  parcel, and setting the position.
\<close>

record 'p parcel_ops =
  getDataPosition :: "'p \<Rightarrow> i32"
  readInt32 :: "'p \<Rightarrow> int \<times> i32 \<times> 'p"
  readBool :: "'p \<Rightarrow> int \<times> bool \<times> 'p"
  setDataPosition :: "'p \<Rightarrow> i32 \<Rightarrow> int \<times> 'p"

definition INT32_MAX :: int where
  "INT32_MAX = 2147483647"

text \<open>The status, the field \<^verbatim>\<open>pressToAuthEnabled\<close> and the parcel.\<close>

definition readFromParcel ::
    "binder_abi \<Rightarrow> 'p parcel_ops \<Rightarrow> 'p \<Rightarrow> bool \<Rightarrow> int \<times> bool \<times> 'p" where
  "readFromParcel B P parcel enabled =
     (let start = getDataPosition P parcel in
      case readInt32 P parcel of (status, len, parcel) \<Rightarrow>
      if status \<noteq> STATUS_OK B then (status, enabled, parcel)
      else if sint len < 4 then (STATUS_BAD_VALUE B, enabled, parcel)
      else if sint start > INT32_MAX - sint len then (STATUS_BAD_VALUE B, enabled, parcel)
      else if sint (getDataPosition P parcel) - sint start < sint len then
        (case readBool P parcel of (status, value, parcel) \<Rightarrow>
           if status \<noteq> STATUS_OK B then (status, value, parcel)
           else case setDataPosition P parcel (start + len) of (status, parcel) \<Rightarrow>
             (status, value, parcel))
      else case setDataPosition P parcel (start + len) of (status, parcel) \<Rightarrow>
        (status, enabled, parcel))"

text \<open>
  The documented behaviour the reader relies on: positions are not negative, a successful
  32-bit read advances by 4, and a successful \<^verbatim>\<open>AParcel_setDataPosition\<close> sets the position.
\<close>

definition parcel_laws :: "binder_abi \<Rightarrow> 'p parcel_ops \<Rightarrow> bool" where
  "parcel_laws B P \<longleftrightarrow>
     (\<forall>p. 0 \<le> sint (getDataPosition P p)) \<and>
     (\<forall>p st v q. readInt32 P p = (st, v, q) \<and> st = STATUS_OK B \<longrightarrow>
        sint (getDataPosition P q) = sint (getDataPosition P p) + 4) \<and>
     (\<forall>p pos st q. setDataPosition P p pos = (st, q) \<and> st = STATUS_OK B \<longrightarrow>
        getDataPosition P q = pos)"

lemma sint_plus_bounded:
  fixes x y :: i32
  assumes "0 \<le> sint x" "0 \<le> sint y" "sint x + sint y \<le> INT32_MAX"
  shows "sint (x + y) = sint x + sint y"
proof -
  have "signed_take_bit 31 (sint x + sint y) = sint x + sint y"
    using assms by (intro signed_take_bit_int_eq_self) (auto simp: INT32_MAX_def)
  then show ?thesis by (simp add: sint_word_ariths)
qed

text \<open>
  When the reader succeeds, the size header was at least 4, the parcel stands exactly that
  many bytes after the start, without overflow, so that what follows is read from the right
  place whatever version of the parcelable was written, and the setting keeps its default when
  the parcelable has no field.
\<close>

theorem press_to_auth_parcel:
  assumes laws: "parcel_laws B P"
    and int: "readInt32 P parcel = (st, len, parcel1)"
    and ok: "readFromParcel B P parcel enabled = (STATUS_OK B, enabled', parcel2)"
    and distinct: "STATUS_BAD_VALUE B \<noteq> STATUS_OK B"
  shows "4 \<le> sint len \<and>
    sint (getDataPosition P parcel2) = sint (getDataPosition P parcel) + sint len \<and>
    (sint len = 4 \<longrightarrow> enabled' = enabled)"
proof -
  let ?start = "getDataPosition P parcel"
  from int ok distinct have h: "st = STATUS_OK B" "4 \<le> sint len" "sint ?start + sint len \<le> INT32_MAX"
    by (auto simp: readFromParcel_def Let_def split: if_splits)
  have pos: "0 \<le> sint ?start" "sint (getDataPosition P parcel1) = sint ?start + 4"
    using laws int h(1) unfolding parcel_laws_def by blast+
  obtain p where "setDataPosition P p (?start + len) = (STATUS_OK B, parcel2)"
    using ok int h by (auto simp: readFromParcel_def Let_def split: if_splits prod.splits)
  with laws have "getDataPosition P parcel2 = ?start + len" unfolding parcel_laws_def by blast
  moreover have "sint (?start + len) = sint ?start + sint len"
    using pos h by (intro sint_plus_bounded) auto
  moreover have "enabled' = enabled" if "sint len = 4"
    using that ok int h pos(2) by (auto simp: readFromParcel_def Let_def split: if_splits prod.splits)
  ultimately show ?thesis using h(2) by simp
qed

text \<open>A parcel of 32-bit cells with its position, to exercise the reader.\<close>

definition cell_parcel :: "(i32 list \<times> nat) parcel_ops" where
  "cell_parcel = \<lparr>
     getDataPosition = (\<lambda>(cs, n). if n < 1000 then of_nat (4 * n) else 0),
     readInt32 = (\<lambda>(cs, n). if n < length cs \<and> n < 500 then (0, cs ! n, (cs, Suc n))
                            else (- 61, 0, (cs, n))),
     readBool = (\<lambda>(cs, n). if n < length cs \<and> n < 500 then (0, cs ! n \<noteq> 0, (cs, Suc n))
                           else (- 61, False, (cs, n))),
     setDataPosition = (\<lambda>(cs, n) pos. if unat pos < 2000 \<and> unat pos mod 4 = 0
                                      then (0, (cs, unat pos div 4)) else (- 22, (cs, n)))\<rparr>"

lemma cell_sint: "n < 1000 \<Longrightarrow> sint (of_nat (4 * n) :: i32) = 4 * int n"
proof -
  assume n: "n < 1000"
  have "signed_take_bit 31 (4 * int n) = 4 * int n"
    using n by (intro signed_take_bit_int_eq_self) auto
  then show ?thesis using signed_of_nat [of "4 * n", where 'b = 32 and 'a = int] by simp
qed

lemma cell_parcel_laws: "parcel_laws sample_binder cell_parcel"
proof -
  have "getDataPosition cell_parcel (cs, unat pos div 4) = pos"
    if "unat pos < 2000" "unat pos mod 4 = 0" for cs and pos :: i32
  proof -
    have "4 * (unat pos div 4) = unat pos" using that(2) by (metis mod_0_imp_dvd dvd_mult_div_cancel)
    moreover have "unat pos div 4 < 1000" using that(1) by simp
    ultimately show ?thesis by (simp add: cell_parcel_def del: of_nat_mult)
  qed
  then show ?thesis
    by (auto simp: parcel_laws_def cell_parcel_def sample_binder_def cell_sint simp del: of_nat_mult
        split: if_splits)
qed

theorem press_to_auth_parcel_witness:
  "readFromParcel sample_binder cell_parcel ([8, 1, 9], 0) False = (0, True, ([8, 1, 9], 2)) \<and>
   sint (getDataPosition cell_parcel ([8, 1, 9], 2)) = 0 + 8"
proof -
  have r: "readInt32 cell_parcel ([8, 1, 9], 0) = (0, 8, ([8, 1, 9], 1))"
    and k: "readFromParcel sample_binder cell_parcel ([8, 1, 9], 0) False =
        (STATUS_OK sample_binder, True, ([8, 1, 9], 2))"
    and d: "STATUS_BAD_VALUE sample_binder \<noteq> STATUS_OK sample_binder"
    and z: "getDataPosition cell_parcel ([8, 1, 9], 0) = 0"
    by (simp_all add: cell_parcel_def readFromParcel_def Let_def sample_binder_def INT32_MAX_def)
  from k z press_to_auth_parcel [OF cell_parcel_laws r k d] show ?thesis
    by (simp add: sample_binder_def)
qed

section \<open>Services the process registers\<close>

definition kModuleFactoryService :: string where
  "kModuleFactoryService = ''FocalFingerprintService''"

text \<open>
  \<open>addService\<close>: libbinder's registration, on the state of the service manager. The instance name
  is \<open>None\<close> for a null pointer.
\<close>

definition addServiceUnlessModuleFactory ::
    "binder_abi \<Rightarrow> ('b \<Rightarrow> string option \<Rightarrow> 'r \<Rightarrow> int \<times> 'r) \<Rightarrow> 'b \<Rightarrow> string option \<Rightarrow> 'r \<Rightarrow> int \<times> 'r"
  where
  "addServiceUnlessModuleFactory B addService binder inst r =
     (if inst = Some kModuleFactoryService then (EX_NONE B, r) else addService binder inst r)"

text \<open>
  \<^verbatim>\<open>AServiceManager_addService\<close> of \<^verbatim>\<open>main.cpp\<close>: what the module and the service itself call. \<open>next\<close>
  is libbinder's definition, absent when \<^verbatim>\<open>dlsym\<close> does not find it (the process aborts).
\<close>

definition AServiceManager_addService ::
    "binder_abi \<Rightarrow> ('b \<Rightarrow> string option \<Rightarrow> 'r \<Rightarrow> int \<times> 'r) option \<Rightarrow> 'b \<Rightarrow> string option \<Rightarrow> 'r
     \<Rightarrow> (int \<times> 'r) option" where
  "AServiceManager_addService B nxt binder inst r =
     (case nxt of
        None \<Rightarrow> None
      | Some addService \<Rightarrow> Some (addServiceUnlessModuleFactory B addService binder inst r))"

text \<open>Registration that records the names it is given.\<close>

definition recordService :: "int \<Rightarrow> 'b \<Rightarrow> string option \<Rightarrow> string option list \<Rightarrow> int \<times> string option list"
  where
  "recordService code binder inst r = (code, r @ [inst])"

text \<open>
  Whatever sequence of registrations the process makes, the service manager is asked for
  exactly those whose name is not that of the module's factory service, in order.
\<close>

theorem factory_service_never_registered:
  "fold (\<lambda>(b, inst) r. snd (the (AServiceManager_addService B (Some (recordService code)) b inst r)))
     requests []
   = filter (\<lambda>inst. inst \<noteq> Some kModuleFactoryService) (map snd requests)"
proof -
  have "fold (\<lambda>(b, inst) r. snd (the (AServiceManager_addService B (Some (recordService code)) b inst r)))
      requests acc = acc @ filter (\<lambda>inst. inst \<noteq> Some kModuleFactoryService) (map snd requests)" for acc
    by (induction requests arbitrary: acc)
      (auto simp: AServiceManager_addService_def addServiceUnlessModuleFactory_def recordService_def)
  then show ?thesis by simp
qed

end
