(* ===== verification/Timekeep_Record.thy ===== *)
theory Timekeep_Record
  imports FP6_Prelude
begin

text \<open>
  The saved clock record of \<^verbatim>\<open>timekeep/Record.cpp\<close>: its text form, when a record is plausible, the
  time a record restores at boot, and when a measurement replaces it. Times are \<^verbatim>\<open>int64_t\<close>
  milliseconds: integers, with \<open>s64\<close> around every operation.

  \<^verbatim>\<open>android::base::Split\<close>, \<^verbatim>\<open>ParseInt\<close> and \<^verbatim>\<open>Trim\<close> are the fields of the parameter \<open>base_ops\<close>; what
  the code relies on of them is the locale \<open>base_lib\<close>.
\<close>

section \<open>The record and its text\<close>

record clock_record =
  offsetMs :: int
  rtcSec :: int

record base_ops =
  base_split :: "string \<Rightarrow> string \<Rightarrow> string list" \<comment> \<open>text, delimiters\<close>
  base_parse :: "int \<Rightarrow> int \<Rightarrow> string \<Rightarrow> int option" \<comment> \<open>least and greatest value, text\<close>
  base_trim :: "string \<Rightarrow> string"

definition wallMs :: "clock_record \<Rightarrow> int" where
  "wallMs r = s64 (s64 (rtcSec r * 1000) + offsetMs r)"

definition kSaveThresholdMs :: int where
  "kSaveThresholdMs = 1000"

definition kRefreshMs :: int where
  "kRefreshMs = 60 * 60 * 1000"

definition kUnsetClockMarginMs :: int where
  "kUnsetClockMarginMs = 60 * 1000"

definition kVersion :: int where
  "kVersion = 1"

definition kMaxRtcSec :: int where
  "kMaxRtcSec = 4294967295"

definition kMinWallMs :: int where
  "kMinWallMs = 1767225600000"

definition kMaxWallMs :: int where
  "kMaxWallMs = 4102444800000"

definition valid :: "clock_record \<Rightarrow> bool" where
  "valid r = (rtcSec r \<ge> 0 \<and> rtcSec r \<le> kMaxRtcSec \<and>
     offsetMs r \<ge> s64 (- kMaxRtcSec * 1000) \<and> offsetMs r < kMaxWallMs \<and>
     wallMs r \<ge> kMinWallMs \<and> wallMs r < kMaxWallMs)"

definition newline :: char where
  "newline = CHR 0x0A"

definition int32_min :: int where "int32_min = - 2147483648"
definition int32_max :: int where "int32_max = 2147483647"
definition int64_min :: int where "int64_min = - 9223372036854775808"
definition int64_max :: int where "int64_max = 9223372036854775807"

definition parseRecord :: "base_ops \<Rightarrow> string \<Rightarrow> clock_record option" where
  "parseRecord B text =
     (if text = [] \<or> last text \<noteq> newline then None
      else case base_split B (butlast text) '' '' of
        [v, off, rtc] \<Rightarrow>
          (case base_parse B int32_min int32_max v of
             None \<Rightarrow> None
           | Some version \<Rightarrow>
               if version \<noteq> kVersion then None
               else case base_parse B int64_min int64_max off of
                 None \<Rightarrow> None
               | Some off \<Rightarrow>
                   (case base_parse B int64_min int64_max rtc of
                      None \<Rightarrow> None
                    | Some rtc \<Rightarrow>
                        let r = \<lparr>offsetMs = off, rtcSec = rtc\<rparr> in if valid r then Some r else None))
      | _ \<Rightarrow> None)"

definition formatRecord :: "clock_record \<Rightarrow> string" where
  "formatRecord r =
     show_int kVersion @ '' '' @ show_int (offsetMs r) @ '' '' @ show_int (rtcSec r) @ [newline]"

section \<open>Restoring and saving\<close>

definition restoreTargetMs :: "clock_record \<Rightarrow> int \<Rightarrow> int \<Rightarrow> int option" where
  "restoreTargetMs saved rtc nowMs =
     (if \<bar>s64 (nowMs - s64 (rtc * 1000))\<bar> \<ge> kUnsetClockMarginMs then None
      else let savedWallMs = wallMs saved in
        if nowMs \<ge> savedWallMs then None
        else if rtc < rtcSec saved then Some savedWallMs
        else let targetMs = s64 (s64 (rtc * 1000) + offsetMs saved) in
          if targetMs \<ge> kMaxWallMs then None else Some targetMs)"

definition needsSave :: "clock_record option \<Rightarrow> clock_record \<Rightarrow> bool" where
  "needsSave saved current =
     (if \<not> valid current \<or> \<bar>offsetMs current\<bar> < kUnsetClockMarginMs then False
      else case saved of
        None \<Rightarrow> True
      | Some r \<Rightarrow>
          rtcSec current < rtcSec r \<or>
          \<bar>s64 (offsetMs current - offsetMs r)\<bar> \<ge> kSaveThresholdMs \<or>
          s64 (wallMs current - wallMs r) \<ge> kRefreshMs)"

section \<open>Arithmetic of valid records\<close>

lemmas clock_consts =
  kSaveThresholdMs_def kRefreshMs_def kUnsetClockMarginMs_def kVersion_def kMaxRtcSec_def
  kMinWallMs_def kMaxWallMs_def int32_min_def int32_max_def int64_min_def int64_max_def

text \<open>
  The order of the tests in \<^verbatim>\<open>valid\<close> keeps the sum in range: a record it accepts has its exact wall
  time, and a counter value alone stays far below the limit.
\<close>

lemma rtc_ms: "0 \<le> rtc \<Longrightarrow> rtc \<le> kMaxRtcSec \<Longrightarrow> s64 (rtc * 1000) = rtc * 1000"
  by (simp add: clock_consts)

lemma valid_bounds:
  assumes "valid r"
  shows "0 \<le> rtcSec r" "rtcSec r \<le> kMaxRtcSec" "- 4294967295000 \<le> offsetMs r"
    "offsetMs r < kMaxWallMs"
  using assms by (simp_all add: valid_def clock_consts)

lemma valid_wall:
  assumes "valid r"
  shows "wallMs r = rtcSec r * 1000 + offsetMs r" "kMinWallMs \<le> wallMs r" "wallMs r < kMaxWallMs"
proof -
  show "wallMs r = rtcSec r * 1000 + offsetMs r"
    using valid_bounds [OF assms] by (simp add: wallMs_def clock_consts)
  show "kMinWallMs \<le> wallMs r" "wallMs r < kMaxWallMs" using assms by (simp_all add: valid_def)
qed

section \<open>The text form\<close>

text \<open>
  What the code relies on of libbase: splitting words joined by single spaces gives the words,
  and \<^verbatim>\<open>ParseInt\<close> reads back what \<^verbatim>\<open>std::to_string\<close> prints, and only values in the given range.
\<close>

definition is_word :: "string \<Rightarrow> bool" where
  "is_word w \<longleftrightarrow> w \<noteq> [] \<and> CHR '' '' \<notin> set w"

locale base_lib =
  fixes B :: base_ops
  assumes split_words: "is_word a \<Longrightarrow> is_word b \<Longrightarrow> is_word c \<Longrightarrow>
      base_split B (a @ '' '' @ b @ '' '' @ c) '' '' = [a, b, c]"
    and parse_shown: "lo \<le> i \<Longrightarrow> i \<le> hi \<Longrightarrow> base_parse B lo hi (show_int i) = Some i"
    and parse_range: "base_parse B lo hi t = Some i \<Longrightarrow> lo \<le> i \<and> i \<le> hi"

text \<open>What the daemon relies on of the text form: saved records can be read back.\<close>

locale clock_text =
  fixes parse :: "string \<Rightarrow> 'r option"
    and print :: "'r \<Rightarrow> string"
    and good :: "'r \<Rightarrow> bool"
  assumes parse_print: "good r \<Longrightarrow> parse (print r) = Some r"
    and parse_good: "parse t = Some r \<Longrightarrow> good r"
begin

lemma print_inj: "good r \<Longrightarrow> good s \<Longrightarrow> print r = print s \<Longrightarrow> r = s"
  by (metis parse_print option.inject)

lemma parse_iff_good: "(\<exists>t. parse t = Some r) \<longleftrightarrow> good r"
  by (metis parse_print parse_good)

end

lemma is_word_show_int [simp]: "is_word (show_int i)"
proof -
  have "CHR '' '' \<notin> set (show_int i)"
    using show_int_chars [of "CHR '' ''" i] by (auto simp: is_digit_def)
  then show ?thesis by (simp add: is_word_def show_int_def)
qed

lemma parse_format:
  assumes "base_lib B" "valid r"
  shows "parseRecord B (formatRecord r) = Some r"
proof -
  have "base_split B (show_int kVersion @ '' '' @ show_int (offsetMs r) @ '' '' @ show_int (rtcSec r)) '' ''
      = [show_int kVersion, show_int (offsetMs r), show_int (rtcSec r)]"
    by (rule base_lib.split_words [OF assms(1)]) simp_all
  moreover have "butlast (formatRecord r) =
      show_int kVersion @ '' '' @ show_int (offsetMs r) @ '' '' @ show_int (rtcSec r)"
    by (simp add: formatRecord_def butlast_append)
  moreover have "base_parse B int64_min int64_max (show_int (offsetMs r)) = Some (offsetMs r)"
    "base_parse B int64_min int64_max (show_int (rtcSec r)) = Some (rtcSec r)"
    "base_parse B int32_min int32_max (show_int kVersion) = Some kVersion"
    using valid_bounds [OF assms(2)]
    by (simp_all add: base_lib.parse_shown [OF assms(1)] clock_consts)
  ultimately show ?thesis using assms(2)
    by (cases r) (simp add: parseRecord_def formatRecord_def Let_def)
qed

lemma parse_valid: "parseRecord B t = Some r \<Longrightarrow> valid r"
  by (auto simp: parseRecord_def Let_def split: if_splits list.splits option.splits)

sublocale base_lib \<subseteq> clock_text "parseRecord B" formatRecord valid
  by unfold_locales (auto intro: parse_format [OF base_lib_axioms] parse_valid)

lemma format_length:
  assumes "valid r"
  shows "length (formatRecord r) < 64"
proof -
  have "length (show_int (offsetMs r)) \<le> Suc 13" "length (show_int (rtcSec r)) \<le> Suc 10"
    using valid_bounds [OF assms] by (intro show_int_length; simp add: clock_consts)+
  moreover have "length (show_int kVersion) = 1"
    by (simp add: kVersion_def show_int_def show_nat.simps)
  ultimately show ?thesis by (simp add: formatRecord_def)
qed

section \<open>An implementation of the library functions\<close>

fun split_chars :: "string \<Rightarrow> string \<Rightarrow> string list" where
  "split_chars [] ds = [[]]"
| "split_chars (c # cs) ds =
     (if c \<in> set ds then [] # split_chars cs ds
      else case split_chars cs ds of [] \<Rightarrow> [[c]] | w # ws \<Rightarrow> (c # w) # ws)"

definition parse_decimal :: "int \<Rightarrow> int \<Rightarrow> string \<Rightarrow> int option" where
  "parse_decimal lo hi t =
     (let neg = (take 1 t = ''-''); ds = (if neg then drop 1 t else t);
          i = (if neg then - int (nat_value ds) else int (nat_value ds))
      in if ds \<noteq> [] \<and> list_all is_digit ds \<and> lo \<le> i \<and> i \<le> hi then Some i else None)"

definition trim_blanks :: "string \<Rightarrow> string" where
  "trim_blanks t = (let blank = (\<lambda>c. c = CHR '' '' \<or> c = newline)
     in rev (dropWhile blank (rev (dropWhile blank t))))"

definition sample_base :: base_ops where
  "sample_base = \<lparr>base_split = split_chars, base_parse = parse_decimal, base_trim = trim_blanks\<rparr>"

lemma split_word:
  "CHR '' '' \<notin> set a \<Longrightarrow> split_chars a '' '' = [a]"
  "CHR '' '' \<notin> set a \<Longrightarrow> split_chars (a @ CHR '' '' # t) '' '' = a # split_chars t '' ''"
  by (induction a) auto

lemma parse_decimal_shown:
  assumes "lo \<le> i" "i \<le> hi"
  shows "parse_decimal lo hi (show_int i) = Some i"
proof (cases "i < 0")
  case True
  with assms show_nat_digits [of "nat (- i)"] show ?thesis
    by (simp add: parse_decimal_def show_int_def Let_def)
next
  case False
  have "take 1 (show_nat (nat i)) \<noteq> ''-''"
    using show_nat_no_minus [of "nat i"] by (cases "show_nat (nat i)") auto
  with False assms show_nat_digits [of "nat i"] show ?thesis
    by (simp add: parse_decimal_def show_int_def Let_def del: One_nat_def)
qed

interpretation sample: base_lib sample_base
proof unfold_locales
  show "base_split sample_base (a @ '' '' @ b @ '' '' @ c) '' '' = [a, b, c]"
    if "is_word a" "is_word b" "is_word c" for a b c
    using that by (simp add: sample_base_def is_word_def split_word)
  show "base_parse sample_base lo hi (show_int i) = Some i" if "lo \<le> i" "i \<le> hi" for lo i hi
    using that by (simp add: sample_base_def parse_decimal_shown)
  show "lo \<le> i \<and> i \<le> hi" if "base_parse sample_base lo hi t = Some i" for lo hi t i
    using that by (auto simp: sample_base_def parse_decimal_def Let_def split: if_splits)
qed

definition sample_record :: clock_record where
  "sample_record = \<lparr>offsetMs = 1790000000000, rtcSec = 5000\<rparr>"

lemma sample_record_valid: "valid sample_record"
  by (simp add: sample_record_def valid_def wallMs_def clock_consts)

section \<open>Properties\<close>

text \<open>
  C10. A plausible record survives being written and read back, its text fits the buffer the
  daemon reads into with room to spare, and whatever text is accepted gives a plausible record.
\<close>

theorem record_roundtrip:
  assumes "base_lib B" "valid r"
  shows "parseRecord B (formatRecord r) = Some r \<and> length (formatRecord r) < 64 \<and>
    (\<forall>t s. parseRecord B t = Some s \<longrightarrow> valid s)"
  using parse_format [OF assms] format_length [OF assms(2)] parse_valid by blast

theorem record_roundtrip_witness:
  "parseRecord sample_base (formatRecord sample_record) = Some sample_record"
  using record_roundtrip [OF sample.base_lib_axioms sample_record_valid] by blast

lemma restoreTarget_exact:
  assumes "valid saved" "0 \<le> rtc" "rtc \<le> kMaxRtcSec" "\<bar>nowMs\<bar> < 2 ^ 62"
  shows "restoreTargetMs saved rtc nowMs =
    (if \<bar>nowMs - rtc * 1000\<bar> \<ge> kUnsetClockMarginMs \<or> nowMs \<ge> rtcSec saved * 1000 + offsetMs saved
     then None
     else if rtc < rtcSec saved then Some (rtcSec saved * 1000 + offsetMs saved)
     else if rtc * 1000 + offsetMs saved \<ge> kMaxWallMs then None
     else Some (rtc * 1000 + offsetMs saved))"
proof -
  have "s64 (nowMs - s64 (rtc * 1000)) = nowMs - rtc * 1000"
    using assms(2-4) by (simp add: clock_consts abs_less_iff)
  moreover have "s64 (s64 (rtc * 1000) + offsetMs saved) = rtc * 1000 + offsetMs saved"
    using assms(2,3) valid_bounds [OF assms(1)] by (simp add: clock_consts)
  ultimately show ?thesis
    using valid_wall(1) [OF assms(1)] by (simp add: restoreTargetMs_def Let_def)
qed

text \<open>
  C11. Restoring never does harm: for a record that was accepted and any counter value, a clock
  that is changed was not set since boot, is moved forward only, never to before the last saved
  time, and stays between 2026 and 2100.
\<close>

theorem restore_safe:
  assumes "valid saved" "0 \<le> rtc" "rtc \<le> kMaxRtcSec" "\<bar>nowMs\<bar> < 2 ^ 62"
    and "restoreTargetMs saved rtc nowMs = Some target"
  shows "\<bar>nowMs - rtc * 1000\<bar> < kUnsetClockMarginMs \<and> nowMs < target \<and> wallMs saved \<le> target \<and>
    kMinWallMs \<le> target \<and> target < kMaxWallMs"
  using assms(5) valid_wall [OF assms(1)] restoreTarget_exact [OF assms(1-4)]
  by (auto split: if_splits)

theorem restore_safe_witness:
  "restoreTargetMs sample_record 6000 6000500 = Some 1790006000000 \<and> 6000500 < (1790006000000 :: int)"
proof -
  have r: "restoreTargetMs sample_record 6000 6000500 = Some 1790006000000"
    by (simp add: restoreTargetMs_def sample_record_def wallMs_def clock_consts)
  have h: "0 \<le> (6000 :: int)" "6000 \<le> kMaxRtcSec" "\<bar>6000500 :: int\<bar> < 2 ^ 62"
    by (simp_all add: clock_consts)
  from r restore_safe [OF sample_record_valid h r] show ?thesis by blast
qed

text \<open>
  Restoring is exact: when the counter kept running since the record was saved and nobody
  set the clock, the restored time is the saved wall time plus the seconds that passed on the
  counter, as long as it lies before 2100. When the counter went back (power loss) it is the
  saved time.
\<close>

theorem restore_exact:
  assumes "valid saved" "0 \<le> rtc" "rtc \<le> kMaxRtcSec" "\<bar>nowMs - rtc * 1000\<bar> < kUnsetClockMarginMs"
    and "nowMs < wallMs saved"
  shows "restoreTargetMs saved rtc nowMs =
    (let passed = rtc - rtcSec saved; target = wallMs saved + max 0 passed * 1000
     in if target < kMaxWallMs then Some target else None)"
proof -
  have "\<bar>nowMs\<bar> < 2 ^ 62" using assms(2-4) by (simp add: clock_consts)
  from restoreTarget_exact [OF assms(1-3) this] valid_wall [OF assms(1)] assms(4,5) show ?thesis
    by (simp add: Let_def max_def algebra_simps)
qed

theorem restore_exact_witness:
  "restoreTargetMs sample_record 6000 6000500 = Some (wallMs sample_record + 1000 * 1000)"
proof -
  have h: "0 \<le> (6000 :: int)" "6000 \<le> kMaxRtcSec" "\<bar>6000500 - 6000 * 1000 :: int\<bar> < kUnsetClockMarginMs"
    "6000500 < wallMs sample_record"
    by (simp_all add: clock_consts sample_record_def wallMs_def)
  from restore_exact [OF sample_record_valid h] show ?thesis
    by (simp add: sample_record_def wallMs_def clock_consts)
qed

text \<open>
  What is worth saving: a measurement is saved only if it is plausible and the clock was set;
  and a plausible measurement of a set clock that is not saved differs from the saved record by
  less than a second in the offset and less than an hour in the wall time, on a counter that has
  not gone back.
\<close>

theorem needs_save_exact:
  assumes "\<And>r. saved = Some r \<Longrightarrow> valid r"
  shows "(needsSave saved current \<longrightarrow> valid current \<and> kUnsetClockMarginMs \<le> \<bar>offsetMs current\<bar>) \<and>
    (\<not> needsSave saved current \<and> valid current \<and> kUnsetClockMarginMs \<le> \<bar>offsetMs current\<bar> \<longrightarrow>
       (\<exists>r. saved = Some r \<and> rtcSec r \<le> rtcSec current \<and>
          \<bar>offsetMs current - offsetMs r\<bar> < 1000 \<and>
          (rtcSec current * 1000 + offsetMs current) - (rtcSec r * 1000 + offsetMs r) < 3600000))"
proof (cases saved)
  case (Some r)
  have r: "valid r" by (rule assms [OF Some])
  have "s64 (offsetMs current - offsetMs r) = offsetMs current - offsetMs r"
    "s64 (wallMs current - wallMs r) = wallMs current - wallMs r" if "valid current"
    using valid_bounds [OF r] valid_bounds [OF that] valid_wall [OF r] valid_wall [OF that]
    by (simp_all add: clock_consts)
  with Some valid_wall(1) [OF r] valid_wall(1) [of current] show ?thesis
    by (auto simp: needsSave_def clock_consts)
qed (auto simp: needsSave_def)

theorem needs_save_exact_witness:
  "needsSave (Some sample_record) (sample_record\<lparr>rtcSec := 8600\<rparr>) \<and>
   \<not> needsSave (Some sample_record) (sample_record\<lparr>rtcSec := 8599\<rparr>) \<and>
   valid (sample_record\<lparr>rtcSec := 8600\<rparr>)"
proof -
  have h: "Some sample_record = Some r \<Longrightarrow> valid r" for r using sample_record_valid by simp
  have "needsSave (Some sample_record) (sample_record\<lparr>rtcSec := 8600\<rparr>)"
    "\<not> needsSave (Some sample_record) (sample_record\<lparr>rtcSec := 8599\<rparr>)"
    by (simp_all add: needsSave_def sample_record_def valid_def wallMs_def clock_consts)
  with needs_save_exact [where current = "sample_record\<lparr>rtcSec := 8600\<rparr>", OF h] show ?thesis by blast
qed

end
