(* ===== verification/Timekeep_Daemon.thy ===== *)
theory Timekeep_Daemon
  imports Timekeep_Record
begin

text \<open>
  The daemon of \<^verbatim>\<open>timekeep/main.cpp\<close>: reading the counter and the record file, replacing the file,
  the restore at boot and the measuring loop. Log lines (and the flags that only limit them) are
  left out.

  Storage is modelled down to what survives a power loss. A file is a number; a directory maps
  the two paths the daemon uses to files. The medium holds the content of a file only if it was
  synced after the last write, and any of the directory versions since the last directory sync.
  A save stopped in the middle leaves what a save leaves whose next step fails, so the outcomes
  of the steps cover every point at which the power can go.
\<close>

section \<open>Storage\<close>

datatype tk_path = kRecordPath | kTempPath

record disk =
  contents :: "nat \<Rightarrow> string"
  onMedium :: "nat \<Rightarrow> string option"
  dirs :: "(tk_path \<Rightarrow> nat option) list" \<comment> \<open>newest first, the last one is on the medium\<close>
  nextFile :: nat

definition empty_disk :: disk where
  "empty_disk = \<lparr>contents = \<lambda>k. [], onMedium = \<lambda>k. Some [], dirs = [\<lambda>p. None], nextFile = 0\<rparr>"

definition readFile :: "tk_path \<Rightarrow> disk \<Rightarrow> string option" where
  "readFile p d = map_option (contents d) (hd (dirs d) p)"

text \<open>
  Power is lost: the n-th directory version is found after the boot, and \<open>junk\<close> in the files whose
  content did not reach the medium.
\<close>

definition powerLoss :: "nat \<Rightarrow> (nat \<Rightarrow> string) \<Rightarrow> disk \<Rightarrow> disk" where
  "powerLoss n junk d =
     (let c = (\<lambda>k. case onMedium d k of Some t \<Rightarrow> t | None \<Rightarrow> junk k)
      in d\<lparr>contents := c, onMedium := \<lambda>k. Some (c k), dirs := [dirs d ! (n mod length (dirs d))]\<rparr>)"

text \<open>How the system calls of one save go.\<close>

record save_outcome =
  open_ok :: bool
  wrote :: nat \<comment> \<open>characters written when the write fails\<close>
  write_ok :: bool
  fsync_ok :: bool
  rename_ok :: bool
  syncdir_ok :: bool

text \<open>\<^verbatim>\<open>open\<close> with \<^verbatim>\<open>O_CREAT | O_TRUNC\<close>: the file and the disk.\<close>

definition openTemp :: "disk \<Rightarrow> nat \<times> disk" where
  "openTemp d =
     (case hd (dirs d) kTempPath of
        Some k \<Rightarrow> (k, d\<lparr>contents := (contents d)(k := []), onMedium := (onMedium d)(k := None)\<rparr>)
      | None \<Rightarrow>
          let k = nextFile d in
          (k, d\<lparr>contents := (contents d)(k := []), onMedium := (onMedium d)(k := None),
             dirs := (hd (dirs d))(kTempPath := Some k) # dirs d, nextFile := Suc k\<rparr>))"

definition writeFile :: "nat \<Rightarrow> string \<Rightarrow> disk \<Rightarrow> disk" where
  "writeFile k t d = d\<lparr>contents := (contents d)(k := t), onMedium := (onMedium d)(k := None)\<rparr>"

definition fsyncFile :: "nat \<Rightarrow> disk \<Rightarrow> disk" where
  "fsyncFile k d = d\<lparr>onMedium := (onMedium d)(k := Some (contents d k))\<rparr>"

definition renameTemp :: "disk \<Rightarrow> disk" where
  "renameTemp d =
     (let v = hd (dirs d)
      in d\<lparr>dirs := v(kRecordPath := v kTempPath, kTempPath := None) # dirs d\<rparr>)"

definition syncDir :: "bool \<Rightarrow> disk \<Rightarrow> bool \<times> disk" where
  "syncDir ok d = (ok, if ok then d\<lparr>dirs := [hd (dirs d)]\<rparr> else d)"

definition saveRecord :: "save_outcome \<Rightarrow> clock_record \<Rightarrow> disk \<Rightarrow> bool \<times> disk" where
  "saveRecord out r d =
     (if \<not> open_ok out then (False, d)
      else case openTemp d of (k, d) \<Rightarrow>
        if \<not> write_ok out then (False, writeFile k (take (wrote out) (formatRecord r)) d)
        else let d = writeFile k (formatRecord r) d in
          if \<not> fsync_ok out then (False, d)
          else let d = fsyncFile k d in
            if \<not> rename_ok out then (False, d)
            else syncDir (syncdir_ok out) (renameTemp d))"

section \<open>Reading\<close>

text \<open>\<open>None\<close> when the file cannot be opened or read.\<close>

definition readSmallFile :: "string option \<Rightarrow> string option" where
  "readSmallFile file =
     (case file of
        None \<Rightarrow> None
      | Some t \<Rightarrow> let buf = take 64 t in if length buf = 64 then None else Some buf)"

definition readRtcSec :: "base_ops \<Rightarrow> string option \<Rightarrow> int option" where
  "readRtcSec B file =
     (case readSmallFile file of
        None \<Rightarrow> None
      | Some t \<Rightarrow> base_parse B 0 kMaxRtcSec (base_trim B t))"

record timespec =
  tv_sec :: int
  tv_nsec :: int

definition realtimeMs :: "timespec \<Rightarrow> int" where
  "realtimeMs ts = s64 (s64 (tv_sec ts * 1000) + tdiv (tv_nsec ts) 1000000)"

text \<open>\<open>io\<close>: whether the file can be read at all.\<close>

definition loadRecord :: "base_ops \<Rightarrow> bool \<Rightarrow> disk \<Rightarrow> clock_record option" where
  "loadRecord B io d =
     (case readSmallFile (if io then readFile kRecordPath d else None) of
        None \<Rightarrow> None
      | Some t \<Rightarrow> parseRecord B t)"

section \<open>Restoring, measuring and the loop\<close>

text \<open>The time \<^verbatim>\<open>clock_settime\<close> is called with, if it is.\<close>

definition restore :: "base_ops \<Rightarrow> bool \<Rightarrow> string option \<Rightarrow> timespec \<Rightarrow> disk \<Rightarrow> timespec option" where
  "restore B io rtcFile now d =
     (case loadRecord B io d of
        None \<Rightarrow> None
      | Some saved \<Rightarrow>
          (case readRtcSec B rtcFile of
             None \<Rightarrow> None
           | Some rtc \<Rightarrow>
               (case restoreTargetMs saved rtc (realtimeMs now) of
                  None \<Rightarrow> None
                | Some target \<Rightarrow>
                    Some \<lparr>tv_sec = tdiv target 1000, tv_nsec = tmod target 1000 * 1000000\<rparr>)))"

definition measure_clock ::
    "base_ops \<Rightarrow> string option \<Rightarrow> timespec \<Rightarrow> save_outcome \<Rightarrow> clock_record option \<Rightarrow> disk
     \<Rightarrow> clock_record option \<times> disk" where
  "measure_clock B rtcFile now out saved d =
     (case readRtcSec B rtcFile of
        None \<Rightarrow> (saved, d)
      | Some rtc \<Rightarrow>
          let current = \<lparr>offsetMs = s64 (realtimeMs now - s64 (rtc * 1000)), rtcSec = rtc\<rparr> in
          if \<not> needsSave saved current then (saved, d)
          else case saveRecord out current d of (ok, d) \<Rightarrow>
            if \<not> ok then (saved, d) else (Some current, d))"

definition kRecheckSec :: int where
  "kRecheckSec = tdiv kRefreshMs 1000"

text \<open>The absolute time the timer is armed for.\<close>

definition arm :: "timespec \<Rightarrow> int" where
  "arm now = s64 (tdiv (realtimeMs now) 1000 + kRecheckSec)"

text \<open>
  The state of \<^verbatim>\<open>main\<close>: its variable \<^verbatim>\<open>saved\<close>, the timer, and the disk. \<open>Wake\<close> is one round of the
  loop; the first argument of \<open>Start\<close> is whether the record file can be read.
\<close>

record daemon =
  saved :: "clock_record option"
  timer :: int
  store :: disk

datatype tk_event =
    Start bool timespec
  | Wake "string option" timespec save_outcome timespec
  | PowerLoss nat "nat \<Rightarrow> string"

fun daemon_step :: "base_ops \<Rightarrow> daemon \<Rightarrow> tk_event \<Rightarrow> daemon" where
  "daemon_step B s (Start io now) =
     s\<lparr>timer := arm now, saved := loadRecord B io (store s)\<rparr>"
| "daemon_step B s (Wake rtcFile now out later) =
     (case measure_clock B rtcFile now out (saved s) (store s) of (r, d) \<Rightarrow>
      s\<lparr>saved := r, store := d, timer := arm later\<rparr>)"
| "daemon_step B s (PowerLoss n junk) = s\<lparr>saved := None, store := powerLoss n junk (store s)\<rparr>"

definition new_daemon :: daemon where
  "new_daemon = \<lparr>saved = None, timer = 0, store = empty_disk\<rparr>"

section \<open>A save is atomic\<close>

text \<open>
  Every directory version names, under the record's path, nothing or a file that is on the medium
  with the text of a plausible record; the temporary file is never one of those.
\<close>

definition good_file :: "disk \<Rightarrow> nat \<Rightarrow> bool" where
  "good_file d k \<longleftrightarrow> k < nextFile d \<and>
     (\<exists>r. valid r \<and> contents d k = formatRecord r \<and> onMedium d k = Some (formatRecord r))"

definition disk_ok :: "disk \<Rightarrow> bool" where
  "disk_ok d \<longleftrightarrow> dirs d \<noteq> [] \<and>
     (\<forall>v\<in>set (dirs d). (\<forall>k. v kRecordPath = Some k \<longrightarrow> good_file d k) \<and>
        (\<forall>k. v kTempPath = Some k \<longrightarrow> k < nextFile d \<and> v kRecordPath \<noteq> Some k)) \<and>
     (\<forall>k. hd (dirs d) kTempPath = Some k \<longrightarrow> (\<forall>v\<in>set (dirs d). v kRecordPath \<noteq> Some k))"

lemma disk_okD:
  assumes "disk_ok d"
  shows "dirs d \<noteq> []" "v \<in> set (dirs d) \<Longrightarrow> v kRecordPath = Some k \<Longrightarrow> good_file d k"
    "v \<in> set (dirs d) \<Longrightarrow> v kTempPath = Some k \<Longrightarrow> k < nextFile d"
    "v \<in> set (dirs d) \<Longrightarrow> v kTempPath = Some k \<Longrightarrow> v kRecordPath \<noteq> Some k"
    "hd (dirs d) kTempPath = Some k \<Longrightarrow> v \<in> set (dirs d) \<Longrightarrow> v kRecordPath \<noteq> Some k"
  using assms unfolding disk_ok_def by blast+

lemma hd_dirs: "disk_ok d \<Longrightarrow> hd (dirs d) \<in> set (dirs d)"
  by (simp add: disk_okD(1))

text \<open>Changing a file that no directory version calls the record keeps the disk in order.\<close>

definition free_file :: "nat \<Rightarrow> disk \<Rightarrow> bool" where
  "free_file k d \<longleftrightarrow> k < nextFile d \<and> hd (dirs d) kTempPath = Some k \<and>
     (\<forall>v\<in>set (dirs d). v kRecordPath \<noteq> Some k)"

lemma touch_ok:
  assumes "disk_ok d" "free_file k d"
  shows "disk_ok (d\<lparr>contents := (contents d)(k := t), onMedium := (onMedium d)(k := m)\<rparr>)"
proof -
  have "good_file (d\<lparr>contents := (contents d)(k := t), onMedium := (onMedium d)(k := m)\<rparr>) j"
    if "v \<in> set (dirs d)" "v kRecordPath = Some j" for v j
    using that disk_okD(2) [OF assms(1) that] assms(2)
    by (auto simp: good_file_def free_file_def)
  with assms(1) show ?thesis by (simp add: disk_ok_def)
qed

lemma free_touch [simp]:
  "free_file k (d\<lparr>contents := c, onMedium := m\<rparr>) = free_file k d"
  by (simp add: free_file_def)

lemma openTemp_ok:
  assumes ok: "disk_ok d" and o: "openTemp d = (k, d')"
  shows "disk_ok d' \<and> free_file k d'"
proof (cases "hd (dirs d) kTempPath")
  case None
  let ?v = "(hd (dirs d))(kTempPath := Some (nextFile d))"
  have d': "k = nextFile d" "dirs d' = ?v # dirs d" "nextFile d' = Suc (nextFile d)"
    "contents d' = (contents d)(k := [])" "onMedium d' = (onMedium d)(k := None)"
    using o None by (auto simp: openTemp_def Let_def)
  have fresh: "v kRecordPath \<noteq> Some (nextFile d)" if "v \<in> set (dirs d)" for v
    using disk_okD(2) [OF ok that] by (auto simp: good_file_def)
  have good: "good_file d' j" if "v \<in> set (dirs d)" "v kRecordPath = Some j" for v j
    using disk_okD(2) [OF ok that] by (auto simp: good_file_def d')
  from ok fresh good good [OF hd_dirs [OF ok]] show ?thesis
    by (auto simp: disk_ok_def free_file_def d' less_Suc_eq)
next
  case (Some j)
  then have "free_file j d"
    using disk_okD(3,5) [OF ok] hd_dirs [OF ok] by (auto simp: free_file_def)
  with o Some touch_ok [OF ok this] show ?thesis by (auto simp: openTemp_def)
qed

lemma rename_ok:
  assumes ok: "disk_ok d" and k: "free_file k d" "good_file d k"
  shows "disk_ok (renameTemp d)"
proof -
  have g: "good_file (renameTemp d) j = good_file d j" for j
    by (simp add: good_file_def renameTemp_def Let_def)
  from ok k hd_dirs [OF ok] show ?thesis
    unfolding disk_ok_def g
    by (auto simp: renameTemp_def Let_def free_file_def)
qed

lemma syncDir_ok: "disk_ok d \<Longrightarrow> disk_ok (snd (syncDir b d))"
  by (cases "dirs d") (auto simp: disk_ok_def syncDir_def good_file_def)

lemma powerLoss_ok:
  assumes ok: "disk_ok d"
  shows "disk_ok (powerLoss n junk d)"
proof -
  let ?v = "dirs d ! (n mod length (dirs d))"
  have v: "?v \<in> set (dirs d)" using disk_okD(1) [OF ok] by simp
  have "good_file (powerLoss n junk d) j" if "?v kRecordPath = Some j" for j
    using disk_okD(2) [OF ok v that] by (auto simp: good_file_def powerLoss_def Let_def)
  then show ?thesis
    using disk_okD(3,4) [OF ok v] by (simp add: disk_ok_def powerLoss_def Let_def)
qed

lemma write_ok_disk:
  "disk_ok d \<Longrightarrow> free_file k d \<Longrightarrow> disk_ok (writeFile k t d) \<and> free_file k (writeFile k t d)"
  unfolding writeFile_def using touch_ok by simp

lemma fsync_ok_disk:
  assumes "disk_ok d" "free_file k d"
  shows "disk_ok (fsyncFile k d) \<and> free_file k (fsyncFile k d)"
proof -
  have "fsyncFile k d = d\<lparr>contents := (contents d)(k := contents d k),
      onMedium := (onMedium d)(k := Some (contents d k))\<rparr>"
    by (simp add: fsyncFile_def)
  with touch_ok [OF assms, where t = "contents d k" and m = "Some (contents d k)"] assms(2) show ?thesis
    by (simp add: free_file_def)
qed

text \<open>The disk just before the rename of a save whose steps all worked.\<close>

definition written :: "nat \<Rightarrow> clock_record \<Rightarrow> disk \<Rightarrow> disk" where
  "written k r d = fsyncFile k (writeFile k (formatRecord r) d)"

lemma written_ok:
  assumes "disk_ok d" "free_file k d" "valid r"
  shows "disk_ok (written k r d)" "free_file k (written k r d)" "good_file (written k r d) k"
proof -
  show "disk_ok (written k r d)" "free_file k (written k r d)"
    unfolding written_def
    using fsync_ok_disk [of "writeFile k (formatRecord r) d" k] write_ok_disk [OF assms(1,2)] by auto
  show "good_file (written k r d) k"
    using assms(2,3) by (auto simp: good_file_def written_def fsyncFile_def writeFile_def free_file_def)
qed

lemma saveRecord_ok:
  assumes "disk_ok d" "valid r"
  shows "disk_ok (snd (saveRecord out r d))"
proof -
  obtain k d' where o: "openTemp d = (k, d')" by fastforce
  from openTemp_ok [OF assms(1) o] have d': "disk_ok d'" "free_file k d'" by auto
  have f: "fsyncFile k (writeFile k (formatRecord r) d') = written k r d'" by (simp add: written_def)
  show ?thesis
    using assms(1) write_ok_disk [OF d'] written_ok [OF d' assms(2)] rename_ok syncDir_ok
    by (simp add: saveRecord_def o Let_def f)
qed

lemma needsSave_valid: "needsSave sv r \<Longrightarrow> valid r"
  by (simp add: needsSave_def split: if_splits)

lemma measure_ok:
  assumes "disk_ok d"
  shows "disk_ok (snd (measure_clock B rtcFile now out sv d))"
proof (cases "readRtcSec B rtcFile")
  case (Some rtc)
  let ?r = "\<lparr>offsetMs = s64 (realtimeMs now - s64 (rtc * 1000)), rtcSec = rtc\<rparr>"
  have "disk_ok (snd (saveRecord out ?r d))" if "needsSave sv ?r"
    using assms that by (intro saveRecord_ok needsSave_valid)
  with assms Some show ?thesis
    by (cases "saveRecord out ?r d") (simp add: measure_clock_def Let_def)
qed (use assms in \<open>simp add: measure_clock_def\<close>)

interpretation tk: step_invariant "daemon_step B" "\<lambda>s. disk_ok (store s)" for B
proof unfold_locales
  fix s :: daemon and e assume ok: "disk_ok (store s)"
  show "disk_ok (store (daemon_step B s e))"
  proof (cases e)
    case (Wake rtcFile now out later)
    from measure_ok [OF ok, of B rtcFile now out "saved s"] Wake show ?thesis
      by (cases "measure_clock B rtcFile now out (saved s) (store s)") simp
  qed (use ok powerLoss_ok in \<open>simp_all add: \<close>)
qed

lemma empty_disk_ok: "disk_ok empty_disk"
  by (simp add: disk_ok_def empty_disk_def)

lemma disk_ok_record:
  assumes "disk_ok d"
  shows "readFile kRecordPath d = None \<or> (\<exists>r. valid r \<and> readFile kRecordPath d = Some (formatRecord r))"
  using disk_okD(2) [OF assms hd_dirs [OF assms]]
  by (cases "hd (dirs d) kRecordPath") (auto simp: readFile_def good_file_def)

lemma load_formatted:
  assumes "base_lib B" "valid r" "readFile kRecordPath d = Some (formatRecord r)"
  shows "loadRecord B True d = Some r"
  using parse_format [OF assms(1,2)] format_length [OF assms(2)] assms(3)
  by (simp add: loadRecord_def readSmallFile_def)

text \<open>
  C12. In every history of the daemon, with any system call failing and the power lost at any
  point and any number of times, the record file is absent or holds exactly the text of a
  plausible record, which the next boot reads back.
\<close>

theorem record_file_always_good:
  assumes "base_lib B"
  shows "let d = powerLoss n junk (store (run (daemon_step B) new_daemon es)) in
    readFile kRecordPath d = None \<or>
    (\<exists>r. valid r \<and> readFile kRecordPath d = Some (formatRecord r) \<and> loadRecord B True d = Some r)"
proof -
  let ?d = "powerLoss n junk (store (run (daemon_step B) new_daemon es))"
  have "disk_ok (store (run (daemon_step B) new_daemon es))"
    by (rule tk.run_inv) (simp add: new_daemon_def empty_disk_ok)
  then have "disk_ok ?d" by (rule powerLoss_ok)
  from disk_ok_record [OF this] show ?thesis
    using load_formatted [OF assms] unfolding Let_def by blast
qed

definition all_ok :: save_outcome where
  "all_ok = \<lparr>open_ok = True, wrote = 0, write_ok = True, fsync_ok = True, rename_ok = True,
     syncdir_ok = True\<rparr>"

definition sample_rtc_file :: string where
  "sample_rtc_file = ''5000'' @ [newline]"

definition sample_wake :: tk_event where
  "sample_wake = Wake (Some sample_rtc_file) \<lparr>tv_sec = 1790005000, tv_nsec = 0\<rparr> all_ok
     \<lparr>tv_sec = 1790005000, tv_nsec = 0\<rparr>"

lemma sample_rtc: "readRtcSec sample_base (Some sample_rtc_file) = Some 5000"
  by (simp add: readRtcSec_def readSmallFile_def sample_base_def trim_blanks_def newline_def
      sample_rtc_file_def parse_decimal_def is_digit_def nat_value_def digit_value_def
      kMaxRtcSec_def Let_def)

lemma sample_measured:
  "\<lparr>offsetMs = s64 (realtimeMs \<lparr>tv_sec = 1790005000, tv_nsec = 0\<rparr> - s64 (5000 * 1000)), rtcSec = 5000\<rparr>
   = sample_record"
  by (simp add: realtimeMs_def sample_record_def)

lemma sample_needs_save: "needsSave None sample_record"
  using sample_record_valid by (simp add: needsSave_def sample_record_def clock_consts)

lemma sample_store:
  "store (run (daemon_step sample_base) new_daemon [sample_wake]) = snd (saveRecord all_ok sample_record empty_disk)"
  unfolding sample_wake_def run.simps daemon_step.simps measure_clock_def sample_rtc option.simps Let_def
    sample_measured
  by (simp add: new_daemon_def sample_needs_save split: prod.split)

lemma sample_saved:
  "readFile kRecordPath (powerLoss n junk (store (run (daemon_step sample_base) new_daemon [sample_wake])))
   = Some (formatRecord sample_record)"
  unfolding sample_store
  by (simp add: empty_disk_def saveRecord_def all_ok_def openTemp_def writeFile_def fsyncFile_def
      renameTemp_def syncDir_def readFile_def powerLoss_def Let_def)

theorem record_file_always_good_witness:
  "loadRecord sample_base True (powerLoss 3 (\<lambda>k. ''x'')
     (store (run (daemon_step sample_base) new_daemon [sample_wake]))) = Some sample_record"
proof -
  from record_file_always_good [OF sample.base_lib_axioms, of 3 "\<lambda>k. ''x''" "[sample_wake]"]
  obtain r where "valid r" "formatRecord sample_record = formatRecord r"
    "loadRecord sample_base True (powerLoss 3 (\<lambda>k. ''x'')
       (store (run (daemon_step sample_base) new_daemon [sample_wake]))) = Some r"
    unfolding Let_def sample_saved by blast
  with sample.print_inj [OF sample_record_valid] show ?thesis by blast
qed

section \<open>Old or new\<close>

lemma written_dirs [simp]:
  "dirs (written k r d) = dirs d" "dirs (writeFile k t d) = dirs d" "dirs (fsyncFile k d) = dirs d"
  by (simp_all add: written_def writeFile_def fsyncFile_def)

text \<open>What power loss leaves of the record, by the directory version that is found.\<close>

lemma powerLoss_record:
  assumes "disk_ok d"
  shows "\<exists>v\<in>set (dirs d). readFile kRecordPath (powerLoss n junk d) = map_option (contents d) (v kRecordPath)"
proof -
  let ?v = "dirs d ! (n mod length (dirs d))"
  have v: "?v \<in> set (dirs d)" using disk_okD(1) [OF assms] by simp
  have "onMedium d j = Some (contents d j)" if "?v kRecordPath = Some j" for j
    using disk_okD(2) [OF assms v that] by (auto simp: good_file_def)
  then have "readFile kRecordPath (powerLoss n junk d) = map_option (contents d) (?v kRecordPath)"
    by (cases "?v kRecordPath") (auto simp: readFile_def powerLoss_def Let_def)
  with v show ?thesis by blast
qed

text \<open>
  A disk reached from \<open>d\<close> by work on the file \<open>k\<close>, which no version of \<open>d\<close> calls the record: its
  versions name the record of a version of \<open>d\<close>.
\<close>

definition derived :: "nat \<Rightarrow> disk \<Rightarrow> disk \<Rightarrow> bool" where
  "derived k d d' \<longleftrightarrow> (\<forall>j. j \<noteq> k \<longrightarrow> contents d' j = contents d j) \<and>
     (\<forall>u\<in>set (dirs d). u kRecordPath \<noteq> Some k) \<and> hd (dirs d') kTempPath = Some k \<and> dirs d' \<noteq> [] \<and>
     (\<forall>v\<in>set (dirs d'). \<exists>u\<in>set (dirs d). v kRecordPath = u kRecordPath)"

lemma openTemp_derived:
  assumes "disk_ok d" "openTemp d = (k, d')"
  shows "derived k d d'"
proof -
  have "\<forall>u\<in>set (dirs d). u kRecordPath \<noteq> Some (nextFile d)"
    using disk_okD(2) [OF assms(1)] by (auto simp: good_file_def)
  with assms hd_dirs [OF assms(1)] disk_okD(1,5) [OF assms(1)] show ?thesis
    by (fastforce simp: openTemp_def derived_def Let_def split: option.splits)
qed

lemma derived_touch:
  "derived k d d' \<Longrightarrow> derived k d (writeFile k u d')"
  "derived k d d' \<Longrightarrow> derived k d (fsyncFile k d')"
  by (simp_all add: derived_def writeFile_def fsyncFile_def)

text \<open>The record a version of \<open>d'\<close> names: one that \<open>d\<close> could have been left with, or \<open>t\<close>.\<close>

definition old_or_new :: "disk \<Rightarrow> string \<Rightarrow> disk \<Rightarrow> bool" where
  "old_or_new d t d' \<longleftrightarrow> (\<forall>v\<in>set (dirs d').
     map_option (contents d') (v kRecordPath) = Some t \<or>
     (\<exists>u\<in>set (dirs d). map_option (contents d') (v kRecordPath) = map_option (contents d) (u kRecordPath)))"

lemma derived_old_or_new:
  assumes "derived k d d'"
  shows "old_or_new d t d'"
  unfolding old_or_new_def
proof (intro ballI disjI2)
  fix v assume "v \<in> set (dirs d')"
  with assms obtain u where u: "u \<in> set (dirs d)" "v kRecordPath = u kRecordPath"
    by (auto simp: derived_def)
  moreover have "map_option (contents d') (u kRecordPath) = map_option (contents d) (u kRecordPath)"
    using assms u(1) by (cases "u kRecordPath") (auto simp: derived_def)
  ultimately show "\<exists>u\<in>set (dirs d). map_option (contents d') (v kRecordPath)
      = map_option (contents d) (u kRecordPath)" by auto
qed

lemma rename_old_or_new:
  assumes "derived k d d'" "contents d' k = t"
  shows "old_or_new d t (renameTemp d')"
  using assms derived_old_or_new [OF assms(1), of t]
  by (auto simp: old_or_new_def renameTemp_def Let_def derived_def)

lemma syncDir_old_or_new: "dirs d' \<noteq> [] \<Longrightarrow> old_or_new d t d' \<Longrightarrow> old_or_new d t (snd (syncDir b d'))"
  by (auto simp: old_or_new_def syncDir_def)

lemma saveRecord_old_or_new:
  assumes "disk_ok d"
  shows "old_or_new d (formatRecord r) (snd (saveRecord out r d))"
proof -
  obtain k d' where o: "openTemp d = (k, d')" by fastforce
  note der = openTemp_derived [OF assms o]
  have refl: "old_or_new d (formatRecord r) d" by (auto simp: old_or_new_def)
  have w: "contents (fsyncFile k (writeFile k (formatRecord r) d')) k = formatRecord r"
    "dirs (renameTemp e) \<noteq> []" for e
    by (simp_all add: fsyncFile_def writeFile_def renameTemp_def Let_def)
  have d: "derived k d (writeFile k t d')" "derived k d (fsyncFile k (writeFile k t d'))" for t
    using der by (simp_all add: derived_touch)
  show ?thesis
    using refl
    by (simp add: saveRecord_def o Let_def derived_old_or_new [OF d(1)] derived_old_or_new [OF d(2)]
        syncDir_old_or_new [OF w(2) rename_old_or_new [OF d(2) w(1)]])
qed

lemma saveRecord_success:
  assumes "disk_ok d" "fst (saveRecord out r d)"
  shows "\<exists>k v. dirs (snd (saveRecord out r d)) = [v] \<and> v kRecordPath = Some k \<and>
    contents (snd (saveRecord out r d)) k = formatRecord r"
proof -
  obtain k d' where o: "openTemp d = (k, d')" by fastforce
  from openTemp_derived [OF assms(1) o] have "hd (dirs d') kTempPath = Some k"
    by (simp add: derived_def)
  with assms(2) show ?thesis
    by (auto simp: saveRecord_def o Let_def syncDir_def renameTemp_def fsyncFile_def writeFile_def
        split: if_splits)
qed

lemma saveRecord_found:
  assumes "disk_ok d" "valid r" "fst (saveRecord out r d)"
  shows "readFile kRecordPath (powerLoss n junk (snd (saveRecord out r d))) = Some (formatRecord r)"
  using powerLoss_record [OF saveRecord_ok [OF assms(1,2)], where n = n and junk = junk and out1 = out]
    saveRecord_success [OF assms(1,3)] by auto

text \<open>
  C13. Replacing the record is atomic and durable. Whatever system call of a save fails, and
  wherever the power is lost, the record found afterwards is the new one or one that a power loss
  before the save could have left; and after a save that reported success it is the new one.
\<close>

theorem save_atomic_durable:
  assumes "disk_ok d" "valid r"
  shows "let (ok, d') = saveRecord out r d; found = readFile kRecordPath (powerLoss n junk d')
    in (found = Some (formatRecord r) \<or> (\<exists>m. found = readFile kRecordPath (powerLoss m junk d))) \<and>
       (ok \<longrightarrow> found = Some (formatRecord r))"
proof -
  let ?d = "snd (saveRecord out r d)"
  have ok': "disk_ok ?d" by (rule saveRecord_ok [OF assms])
  from powerLoss_record [OF ok', of n junk] obtain v where v: "v \<in> set (dirs ?d)"
    and f: "readFile kRecordPath (powerLoss n junk ?d) = map_option (contents ?d) (v kRecordPath)" by blast
  have old: "\<exists>m. map_option (contents d) (u kRecordPath) = readFile kRecordPath (powerLoss m junk d)"
    if u: "u \<in> set (dirs d)" for u
  proof -
    from u obtain m where m: "m < length (dirs d)" "dirs d ! m = u" by (auto simp: in_set_conv_nth)
    have "onMedium d j = Some (contents d j)" if "u kRecordPath = Some j" for j
      using disk_okD(2) [OF assms(1) u that] by (auto simp: good_file_def)
    with m have "map_option (contents d) (u kRecordPath) = readFile kRecordPath (powerLoss m junk d)"
      by (cases "u kRecordPath") (simp_all add: readFile_def powerLoss_def Let_def)
    then show ?thesis by blast
  qed
  have "readFile kRecordPath (powerLoss n junk ?d) = Some (formatRecord r) \<or>
      (\<exists>m. readFile kRecordPath (powerLoss n junk ?d) = readFile kRecordPath (powerLoss m junk d))"
    using saveRecord_old_or_new [OF assms(1), of r out] v f old unfolding old_or_new_def by metis
  moreover have "readFile kRecordPath (powerLoss n junk ?d) = Some (formatRecord r)"
    if "fst (saveRecord out r d)"
    using saveRecord_found [OF assms that] .
  ultimately show ?thesis by (simp add: Let_def split: prod.split) (metis fst_conv snd_conv)
qed

theorem save_atomic_durable_witness:
  "readFile kRecordPath (powerLoss 0 (\<lambda>k. ''?'')
     (snd (saveRecord (all_ok\<lparr>write_ok := False, wrote := 3\<rparr>) sample_record empty_disk))) = None"
proof -
  let ?o = "all_ok\<lparr>write_ok := False, wrote := 3\<rparr>"
  have "readFile kRecordPath (powerLoss m junk empty_disk) = None" for m junk
    by (simp add: readFile_def powerLoss_def empty_disk_def Let_def)
  moreover have "readFile kRecordPath (powerLoss 0 (\<lambda>k. ''?'')
      (snd (saveRecord ?o sample_record empty_disk))) \<noteq> Some (formatRecord sample_record)"
    by (simp add: empty_disk_def saveRecord_def all_ok_def openTemp_def writeFile_def readFile_def
        powerLoss_def Let_def)
  ultimately show ?thesis
    using save_atomic_durable [OF empty_disk_ok sample_record_valid, of ?o 0 "\<lambda>k. ''?''"]
    by (auto simp: Let_def split: prod.splits)
qed

section \<open>From one boot to the next\<close>

lemma measured_wall:
  assumes "\<bar>now\<bar> < 2 ^ 62" "r = \<lparr>offsetMs = s64 (now - s64 (rtc * 1000)), rtcSec = rtc\<rparr>" "valid r"
  shows "wallMs r = now" "rtcSec r = rtc"
proof -
  have rtc: "0 \<le> rtc" "rtc \<le> kMaxRtcSec" using valid_bounds [OF assms(3)] assms(2) by simp_all
  then have "s64 (now - s64 (rtc * 1000)) = now - rtc * 1000"
    using assms(1) by (simp add: clock_consts abs_less_iff)
  with valid_wall(1) [OF assms(3)] assms(2) show "wallMs r = now" "rtcSec r = rtc" by simp_all
qed

lemma restore_loaded:
  assumes "loadRecord B True d = Some r" "valid r" "readRtcSec B rtcFile = Some rtc"
    "0 \<le> rtc" "rtc \<le> kMaxRtcSec" "\<bar>realtimeMs now - rtc * 1000\<bar> < kUnsetClockMarginMs"
    "realtimeMs now < wallMs r" "rtcSec r \<le> rtc"
    "wallMs r + (rtc - rtcSec r) * 1000 < kMaxWallMs"
  shows "restore B True rtcFile now d =
    (let t = wallMs r + (rtc - rtcSec r) * 1000
     in Some \<lparr>tv_sec = t div 1000, tv_nsec = t mod 1000 * 1000000\<rparr>)"
proof -
  have n: "\<bar>realtimeMs now\<bar> < 2 ^ 62" using assms(4-6) by (simp add: clock_consts)
  have w: "0 \<le> wallMs r" "wallMs r = rtcSec r * 1000 + offsetMs r"
    using valid_wall [OF assms(2)] by (simp_all add: clock_consts)
  have "restoreTargetMs r rtc (realtimeMs now) = Some (wallMs r + (rtc - rtcSec r) * 1000)"
    using restoreTarget_exact [OF assms(2,4,5) n] assms(6-9) w(2)
    by (simp add: algebra_simps)
  with assms(1,3,8) w(1) show ?thesis by (simp add: restore_def Let_def)
qed

lemma readRtcSec_range:
  assumes "base_lib B" "readRtcSec B f = Some rtc"
  shows "0 \<le> rtc" "rtc \<le> kMaxRtcSec"
  using assms(2) base_lib.parse_range [OF assms(1)]
  by (auto simp: readRtcSec_def split: option.splits)

text \<open>
  C14. The clock survives a reboot. When a measurement was saved, the power is lost at any later
  time, and the next boot finds a counter that kept running and a clock that only has the
  counter's value, \<^verbatim>\<open>--restore\<close> sets the clock to the time of the measurement plus the seconds
  the counter advanced, to the millisecond.
\<close>

theorem clock_survives_reboot:
  assumes lib: "base_lib B" and disk: "disk_ok d"
    and rtc: "readRtcSec B rtcFile0 = Some rtc0" "readRtcSec B rtcFile1 = Some rtc1" "rtc0 \<le> rtc1"
    and clock0: "\<bar>realtimeMs now0\<bar> < 2 ^ 62"
    and measured: "current = \<lparr>offsetMs = s64 (realtimeMs now0 - s64 (rtc0 * 1000)), rtcSec = rtc0\<rparr>"
    and due: "needsSave sv current" and saved: "fst (saveRecord out current d)"
    and unset: "\<bar>realtimeMs now1 - rtc1 * 1000\<bar> < kUnsetClockMarginMs" "realtimeMs now1 < realtimeMs now0"
    and plausible: "realtimeMs now0 + (rtc1 - rtc0) * 1000 < kMaxWallMs"
  shows "let (sv', d') = measure_clock B rtcFile0 now0 out sv d;
      t = realtimeMs now0 + (rtc1 - rtc0) * 1000
    in sv' = Some current \<and>
       restore B True rtcFile1 now1 (powerLoss n junk d') =
         Some \<lparr>tv_sec = t div 1000, tv_nsec = t mod 1000 * 1000000\<rparr>"
proof -
  have v: "valid current" by (rule needsSave_valid [OF due])
  obtain d' where d': "saveRecord out current d = (True, d')" using saved by (cases "saveRecord out current d") auto
  have m: "measure_clock B rtcFile0 now0 out sv d = (Some current, d')"
    using rtc(1) due d' measured by (simp add: measure_clock_def Let_def)
  have load: "loadRecord B True (powerLoss n junk d') = Some current"
    using saveRecord_found [OF disk v saved, of n junk] d' by (intro load_formatted [OF lib v]) simp
  note w = measured_wall [OF clock0 measured v]
  from m restore_loaded [OF load v rtc(2) readRtcSec_range [OF lib rtc(2)] unset(1)]
    unset(2) rtc(3) plausible show ?thesis
    by (simp add: w Let_def)
qed

definition sample_rtc_file1 :: string where
  "sample_rtc_file1 = ''6000'' @ [newline]"

lemma sample_rtc1: "readRtcSec sample_base (Some sample_rtc_file1) = Some 6000"
  by (simp add: readRtcSec_def readSmallFile_def sample_base_def trim_blanks_def newline_def
      sample_rtc_file1_def parse_decimal_def is_digit_def nat_value_def digit_value_def
      kMaxRtcSec_def Let_def)

theorem clock_survives_reboot_witness:
  "restore sample_base True (Some sample_rtc_file1) \<lparr>tv_sec = 6000, tv_nsec = 0\<rparr>
     (powerLoss 0 (\<lambda>k. []) (snd (measure_clock sample_base (Some sample_rtc_file)
        \<lparr>tv_sec = 1790005000, tv_nsec = 0\<rparr> all_ok None empty_disk)))
   = Some \<lparr>tv_sec = 1790006000, tv_nsec = 0\<rparr>"
proof -
  let ?n = "\<lparr>tv_sec = 1790005000, tv_nsec = 0\<rparr>"
  have t: "realtimeMs ?n = 1790005000000" "realtimeMs \<lparr>tv_sec = 6000, tv_nsec = 0\<rparr> = 6000000"
    by (simp_all add: realtimeMs_def)
  have s: "fst (saveRecord all_ok sample_record empty_disk)"
    by (simp add: saveRecord_def all_ok_def syncDir_def Let_def split: prod.split)
  have "let (sv', d') = measure_clock sample_base (Some sample_rtc_file) ?n all_ok None empty_disk;
      t = realtimeMs ?n + (6000 - 5000) * 1000
    in sv' = Some sample_record \<and>
       restore sample_base True (Some sample_rtc_file1) \<lparr>tv_sec = 6000, tv_nsec = 0\<rparr>
         (powerLoss 0 (\<lambda>k. []) d') = Some \<lparr>tv_sec = t div 1000, tv_nsec = t mod 1000 * 1000000\<rparr>"
    by (rule clock_survives_reboot [OF sample.base_lib_axioms empty_disk_ok sample_rtc sample_rtc1 _ _
          sample_measured [symmetric] sample_needs_save s])
      (simp_all add: t clock_consts)
  then show ?thesis by (simp add: t Let_def split: prod.splits)
qed

end
