(* ===== verification/Fw_Release.thy ===== *)
theory Fw_Release
  imports FP6_Prelude
begin

text \<open>
  The firmware release table of \<^verbatim>\<open>firmware/FirmwareRelease.cpp\<close>: its parser, the digests of the
  prefixes of a partition, the releases a partition matches, and the release a slot runs.

  A \<^verbatim>\<open>std::set\<close> is a sorted list without duplicates and a \<^verbatim>\<open>std::map\<close> an association list sorted
  by key; strings compare as \<^verbatim>\<open>std::string\<close> does, by unsigned characters. The streaming SHA-256 of
  OpenSSL is the parameter \<open>hash_ops\<close>. A file descriptor is the list of what its reads return.
\<close>

section \<open>Data\<close>

type_synonym Digest = "u8 list"

record Image =
  release :: string
  bytes :: nat
  sha256 :: Digest

record Table =
  partitions :: "(string \<times> Image list) list"
  releases :: "string list"

definition empty_table :: Table where
  "empty_table = \<lparr>partitions = [], releases = []\<rparr>"

definition kMaxTableBytes :: nat where
  "kMaxTableBytes = 256 * 1024"

definition kMaxImageBytes :: nat where
  "kMaxImageBytes = 512 * 1024 * 1024"

definition kMaxPartitions :: nat where
  "kMaxPartitions = 64"

definition kMaxReleases :: nat where
  "kMaxReleases = 64"

definition kMixed :: string where
  "kMixed = ''mixed''"

definition kUnknown :: string where
  "kUnknown = ''unknown''"

text \<open>Standard containers: \<^verbatim>\<open>std::set::insert\<close>, and \<^verbatim>\<open>m[key]\<close> followed by a change of the value.\<close>

definition set_insert :: "'a::linorder \<Rightarrow> 'a list \<Rightarrow> 'a list" where
  "set_insert x xs = (if x \<in> set xs then xs else insort x xs)"

fun map_assign :: "'k::linorder \<Rightarrow> 'v \<Rightarrow> ('k \<times> 'v) list \<Rightarrow> ('k \<times> 'v) list" where
  "map_assign k v [] = [(k, v)]"
| "map_assign k v ((k', v') # m) =
     (if k < k' then (k, v) # (k', v') # m
      else if k = k' then (k, v) # m
      else (k', v') # map_assign k v m)"

section \<open>Parsing\<close>

function split :: "string \<Rightarrow> char \<Rightarrow> string list" where
  "split text separator =
     (let part = takeWhile (\<lambda>c. c \<noteq> separator) text
      in if length part = length text then [part]
         else part # split (drop (Suc (length part)) text) separator)"
  by auto
termination
proof (relation "measure (\<lambda>(text, separator). length text)")
  fix t :: string and separator part
  assume p: "part = takeWhile (\<lambda>c. c \<noteq> separator) t" and n: "length part \<noteq> length t"
  have "length part \<le> length t" unfolding p by (rule length_takeWhile_le)
  with n show "((drop (Suc (length part)) t, separator), (t, separator))
      \<in> measure (\<lambda>(text, separator). length text)" by simp
qed simp

declare split.simps [simp del]

definition isDigit :: "char \<Rightarrow> bool" where
  "isDigit c = (CHR ''0'' \<le> c \<and> c \<le> CHR ''9'')"

definition validName :: "string \<Rightarrow> bool" where
  "validName name = (name \<noteq> [] \<and> length name \<le> 32 \<and>
     list_all (\<lambda>c. CHR ''a'' \<le> c \<and> c \<le> CHR ''z'' \<or> isDigit c \<or> c = CHR ''_'' \<or> c = CHR ''-'') name)"

definition number_ok :: "string \<Rightarrow> bool" where
  "number_ok part = (part \<noteq> [] \<and> length part \<le> 5 \<and> list_all isDigit part)"

definition parseRelease :: "string \<Rightarrow> (nat \<times> nat \<times> nat) option" where
  "parseRelease rel =
     (case split rel (CHR ''.'') of
        [a, b, c] \<Rightarrow> if number_ok a \<and> number_ok b \<and> number_ok c
                     then Some (nat_value a, nat_value b, nat_value c) else None
      | _ \<Rightarrow> None)"

definition parseBytes :: "string \<Rightarrow> nat option" where
  "parseBytes text =
     (if text = [] \<or> length text > 10 \<or> hd text = CHR ''0'' \<or> \<not> list_all isDigit text then None
      else if nat_value text > kMaxImageBytes then None
      else Some (nat_value text))"

definition hexValue :: "char \<Rightarrow> u8 option" where
  "hexValue c =
     (if isDigit c then Some (of_nat (of_char c - of_char CHR ''0''))
      else if CHR ''a'' \<le> c \<and> c \<le> CHR ''f'' then Some (of_nat (of_char c - of_char CHR ''a'' + 10))
      else None)"

text \<open>The loop over the digits: two at a time, each shifted into the byte.\<close>

fun parseHex :: "string \<Rightarrow> Digest option" where
  "parseHex [] = Some []"
| "parseHex [c] = None"
| "parseHex (c # c' # cs) =
     (case hexValue c of
        None \<Rightarrow> None
      | Some h \<Rightarrow>
          (case hexValue c' of
             None \<Rightarrow> None
           | Some l \<Rightarrow>
               (case parseHex cs of
                  None \<Rightarrow> None
                | Some bs \<Rightarrow> Some ((push_bit 4 (push_bit 4 (0 :: u8) OR h) OR l) # bs))))"

definition parseDigest :: "string \<Rightarrow> Digest option" where
  "parseDigest text = (if length text \<noteq> 64 then None else parseHex text)"

text \<open>One line of the table.\<close>

definition addLine :: "string \<Rightarrow> Table \<Rightarrow> Table option" where
  "addLine line table =
     (case split line (CHR '' '') of
        [tag, name, rel, size_text, digest_text] \<Rightarrow>
          if tag \<noteq> ''image'' \<or> \<not> validName name \<or> parseRelease rel = None then None
          else (case (parseBytes size_text, parseDigest digest_text) of
             (Some n, Some digest) \<Rightarrow>
               (let images = (case map_of (partitions table) name of None \<Rightarrow> [] | Some xs \<Rightarrow> xs)
                in if list_ex (\<lambda>image. release image = rel) images then None
                   else Some (table\<lparr>
                     partitions := map_assign name
                       (images @ [\<lparr>release = rel, bytes = n, sha256 = digest\<rparr>]) (partitions table),
                     releases := set_insert rel (releases table)\<rparr>))
           | _ \<Rightarrow> None)
      | _ \<Rightarrow> None)"

fun addLines :: "string list \<Rightarrow> Table \<Rightarrow> Table option" where
  "addLines [] table = Some table"
| "addLines (line # lines) table =
     (case addLine line table of None \<Rightarrow> None | Some table \<Rightarrow> addLines lines table)"

definition nl :: char where
  "nl = CHR 0x0A"

definition parseTable :: "string \<Rightarrow> Table option" where
  "parseTable text =
     (if text = [] \<or> length text > kMaxTableBytes \<or> last text \<noteq> nl then None
      else case addLines (split (butlast text) nl) empty_table of
        None \<Rightarrow> None
      | Some table \<Rightarrow>
          if length (partitions table) > kMaxPartitions \<or> length (releases table) > kMaxReleases
          then None
          else if list_ex (\<lambda>(name, images). length images \<noteq> length (releases table)) (partitions table)
          then None
          else Some table)"

text \<open>\<^verbatim>\<open>std::optional\<close> compares with \<^verbatim>\<open>nullopt\<close> least, tuples compare lexicographically.\<close>

fun release_less :: "(nat \<times> nat \<times> nat) option \<Rightarrow> (nat \<times> nat \<times> nat) option \<Rightarrow> bool" where
  "release_less _ None = False"
| "release_less None (Some b) = True"
| "release_less (Some (a1, a2, a3)) (Some (b1, b2, b3)) =
     (a1 < b1 \<or> a1 = b1 \<and> (a2 < b2 \<or> a2 = b2 \<and> a3 < b3))"

definition newerRelease :: "string \<Rightarrow> string \<Rightarrow> bool" where
  "newerRelease a b = release_less (parseRelease b) (parseRelease a)"

section \<open>Digests of prefixes\<close>

record 'c hash_ops =
  SHA256_Init :: 'c
  SHA256_Update :: "'c \<Rightarrow> u8 list \<Rightarrow> 'c"
  SHA256_Final :: "'c \<Rightarrow> Digest"

datatype 'a read_result = Data "'a list" | Interrupted | Failed

text \<open>
  The inner loop, for the lengths the read reaches: the context, the bytes of the read not yet
  used, the count of bytes hashed, the lengths left and the digests.
\<close>

fun finishLengths ::
    "'c hash_ops \<Rightarrow> nat \<Rightarrow> 'c \<Rightarrow> u8 list \<Rightarrow> nat \<Rightarrow> nat list \<Rightarrow> (nat \<times> Digest) list
     \<Rightarrow> 'c \<times> u8 list \<times> nat \<times> nat list \<times> (nat \<times> Digest) list" where
  "finishLengths H stop ctx buffer hashed [] digests = (ctx, buffer, hashed, [], digests)"
| "finishLengths H stop ctx buffer hashed (n # lengths) digests =
     (if n \<le> stop then
        let k = n - hashed;
            ctx = SHA256_Update H ctx (take k buffer)
        in finishLengths H stop ctx (drop k buffer) n lengths
             (map_assign n (SHA256_Final H ctx) digests)
      else (ctx, buffer, hashed, n # lengths, digests))"

text \<open>The outer loop. Reads past the list return 0, the end of the data.\<close>

fun hashReads ::
    "'c hash_ops \<Rightarrow> 'c \<Rightarrow> nat \<Rightarrow> nat list \<Rightarrow> (nat \<times> Digest) list \<Rightarrow> u8 read_result list
     \<Rightarrow> (nat \<times> Digest) list option" where
  "hashReads H ctx hashed lengths digests [] = Some digests"
| "hashReads H ctx hashed lengths digests (r # reads) =
     (if lengths = [] then Some digests
      else case r of
        Interrupted \<Rightarrow> hashReads H ctx hashed lengths digests reads
      | Failed \<Rightarrow> None
      | Data buffer \<Rightarrow>
          if buffer = [] then Some digests
          else let stop = hashed + length buffer in
            (case finishLengths H stop ctx buffer hashed lengths digests of
               (ctx, rest, hashed, lengths, digests) \<Rightarrow>
                 if lengths = [] then Some digests
                 else hashReads H (SHA256_Update H ctx rest) stop lengths digests reads))"

definition prefixDigests ::
    "'c hash_ops \<Rightarrow> nat list \<Rightarrow> u8 read_result list \<Rightarrow> (nat \<times> Digest) list option" where
  "prefixDigests H lengths reads = hashReads H (SHA256_Init H) 0 lengths [] reads"

section \<open>Comparing with the table\<close>

definition matchingReleases :: "Image list \<Rightarrow> (nat \<times> Digest) list \<Rightarrow> string list" where
  "matchingReleases images digests =
     fold (\<lambda>image found. if map_of digests (bytes image) = Some (sha256 image)
                         then set_insert (release image) found else found) images []"

text \<open>\<^verbatim>\<open>std::set_intersection\<close> of two sorted ranges without duplicates.\<close>

fun set_intersection :: "'a::linorder list \<Rightarrow> 'a list \<Rightarrow> 'a list" where
  "set_intersection [] ys = []"
| "set_intersection xs [] = []"
| "set_intersection (x # xs) (y # ys) =
     (if x < y then set_intersection xs (y # ys)
      else if y < x then set_intersection (x # xs) ys
      else x # set_intersection xs ys)"

text \<open>\<^verbatim>\<open>std::max_element\<close>: the first of the greatest elements.\<close>

definition max_element :: "('a \<Rightarrow> 'a \<Rightarrow> bool) \<Rightarrow> 'a list \<Rightarrow> 'a" where
  "max_element lt xs = foldl (\<lambda>largest x. if lt largest x then x else largest) (hd xs) (tl xs)"

text \<open>The loop over the partitions: \<open>None\<close> for the early return, the common releases otherwise.\<close>

fun commonReleases ::
    "(string \<times> string list) list \<Rightarrow> (string \<times> Image list) list \<Rightarrow> string list option
     \<Rightarrow> string list option option" where
  "commonReleases matches [] common = Some common"
| "commonReleases matches ((name, images) # ps) common =
     (case map_of matches name of
        None \<Rightarrow> None
      | Some match \<Rightarrow>
          if match = [] then None
          else commonReleases matches ps (Some (case common of
              None \<Rightarrow> match
            | Some c \<Rightarrow> set_intersection c match)))"

definition result :: "Table \<Rightarrow> (string \<times> string list) list \<Rightarrow> string" where
  "result table matches =
     (case commonReleases matches (partitions table) None of
        None \<Rightarrow> kUnknown
      | Some None \<Rightarrow> kUnknown
      | Some (Some common) \<Rightarrow>
          if common = [] then kMixed
          else max_element (\<lambda>a b. newerRelease b a) common)"

section \<open>The containers\<close>

lemma set_insert_simps [simp]:
  "set (set_insert x xs) = insert x (set xs)"
  "sorted xs \<Longrightarrow> sorted (set_insert x xs)"
  "distinct xs \<Longrightarrow> distinct (set_insert x xs)"
  by (auto simp: set_insert_def set_insort_key sorted_insort distinct_insort)

lemma map_assign_map_of [simp]: "map_of (map_assign k v m) = (map_of m)(k \<mapsto> v)"
  by (induction k v m rule: map_assign.induct) (auto simp: fun_eq_iff)

lemma map_assign_keys: "fst ` set (map_assign k v m) = insert k (fst ` set m)"
  by (induction k v m rule: map_assign.induct) auto

lemma map_assign_sorted:
  "sorted_wrt (<) (map fst m) \<Longrightarrow> sorted_wrt (<) (map fst (map_assign k v m))"
proof (induction k v m rule: map_assign.induct)
  case (2 k v k' v' m)
  have "fst ` set (map_assign k v m) = insert k (fst ` set m)" by (rule map_assign_keys)
  with 2 show ?case by (auto 4 3 simp: image_iff)
qed simp

lemma map_assign_entries:
  "sorted_wrt (<) (map fst m) \<Longrightarrow> (k', w) \<in> set (map_assign k v m) \<Longrightarrow>
   k' = k \<and> w = v \<or> k' \<noteq> k \<and> (k', w) \<in> set m"
  by (induction k v m rule: map_assign.induct) (auto split: if_splits)

lemma sorted_map_of:
  assumes "sorted_wrt (<) (map fst (m :: ('k::linorder \<times> 'v) list))"
  shows "map_of m k = Some v \<longleftrightarrow> (k, v) \<in> set m"
  using assms strict_sorted_iff [of "map fst m"] by (simp add: strict_sorted_iff map_of_eq_Some_iff)

section \<open>What a parsed table satisfies\<close>

definition image_ok :: "Image \<Rightarrow> bool" where
  "image_ok im \<longleftrightarrow> parseRelease (release im) \<noteq> None \<and> 0 < bytes im \<and> bytes im \<le> kMaxImageBytes \<and>
     length (sha256 im) = 32"

text \<open>While lines are added, and for the table returned.\<close>

definition table_wf :: "Table \<Rightarrow> bool" where
  "table_wf t \<longleftrightarrow> sorted_wrt (<) (map fst (partitions t)) \<and> sorted (releases t) \<and> distinct (releases t) \<and>
     (\<forall>name images. (name, images) \<in> set (partitions t) \<longrightarrow> validName name \<and> distinct (map release images) \<and>
        list_all image_ok images \<and> set (map release images) \<subseteq> set (releases t) \<and> images \<noteq> []) \<and>
     (\<forall>r\<in>set (releases t). parseRelease r \<noteq> None)"

definition table_complete :: "Table \<Rightarrow> bool" where
  "table_complete t \<longleftrightarrow> table_wf t \<and> partitions t \<noteq> [] \<and>
     length (partitions t) \<le> kMaxPartitions \<and> length (releases t) \<le> kMaxReleases \<and>
     (\<forall>name images. (name, images) \<in> set (partitions t) \<longrightarrow>
        set (map release images) = set (releases t))"

lemma table_wfD:
  assumes "table_wf t" "(name, images) \<in> set (partitions t)"
  shows "validName name" "distinct (map release images)" "list_all image_ok images"
    "set (map release images) \<subseteq> set (releases t)" "images \<noteq> []"
  using assms unfolding table_wf_def by blast+

lemma parseHex_length: "parseHex cs = Some bs \<Longrightarrow> length cs = 2 * length bs"
  by (induction cs arbitrary: bs rule: parseHex.induct) (auto split: option.splits)

lemma nat_value_pos:
  assumes "list_all isDigit cs" "cs \<noteq> []" "hd cs \<noteq> CHR ''0''"
  shows "0 < nat_value cs"
proof -
  have mono: "a \<le> foldl (\<lambda>a c. 10 * a + digit_value c) a ds" for a ds
  proof (induction ds arbitrary: a)
    case (Cons d ds)
    have "a \<le> 10 * a + digit_value d" by simp
    also have "\<dots> \<le> foldl (\<lambda>a c. 10 * a + digit_value c) (10 * a + digit_value d) ds" by (rule Cons.IH)
    finally show ?case by simp
  qed simp
  obtain c ds where cs: "cs = c # ds" using assms(2) by (cases cs) auto
  have "CHR ''0'' < c" using assms cs by (auto simp: isDigit_def order.strict_iff_order)
  then have "0 < digit_value c" by (simp add: less_char_def digit_value_def)
  also have "digit_value c \<le> nat_value cs" using mono [of "digit_value c" ds] by (simp add: nat_value_def cs)
  finally show ?thesis .
qed

lemma parsed_image_ok:
  assumes "parseRelease rel \<noteq> None" "parseBytes s = Some n" "parseDigest h = Some d"
  shows "image_ok \<lparr>release = rel, bytes = n, sha256 = d\<rparr>"
  using assms parseHex_length [of h d] nat_value_pos [of s]
  by (auto simp: image_ok_def parseBytes_def parseDigest_def split: if_splits)

lemma addLine_wf:
  assumes wf: "table_wf t" and a: "addLine line t = Some t'"
  shows "table_wf t' \<and> partitions t' \<noteq> []"
proof -
  obtain name rel st dt n d where f: "split line (CHR '' '') = [''image'', name, rel, st, dt]"
    "validName name" "parseRelease rel \<noteq> None" "parseBytes st = Some n" "parseDigest dt = Some d"
    using a by (auto simp: addLine_def split: list.splits if_splits option.splits)
  define images where "images = (case map_of (partitions t) name of None \<Rightarrow> [] | Some xs \<Rightarrow> xs)"
  let ?im = "\<lparr>release = rel, bytes = n, sha256 = d\<rparr>"
  have new: "\<not> list_ex (\<lambda>image. release image = rel) images"
    and t': "t' = t\<lparr>partitions := map_assign name (images @ [?im]) (partitions t),
        releases := set_insert rel (releases t)\<rparr>"
    using a f by (auto simp: addLine_def images_def Let_def split: if_splits)
  have old: "distinct (map release images) \<and> list_all image_ok images \<and>
      set (map release images) \<subseteq> set (releases t)"
  proof (cases "map_of (partitions t) name")
    case (Some xs)
    then have "(name, xs) \<in> set (partitions t)" by (rule map_of_SomeD)
    with table_wfD(2-4) [OF wf this] Some show ?thesis by (simp add: images_def)
  qed (simp add: images_def)
  have "fst ` set (partitions t') \<noteq> {}" by (simp add: t' map_assign_keys)
  then have "partitions t' \<noteq> []" by auto
  moreover have "table_wf t'"
    unfolding table_wf_def
  proof (intro conjI)
    show "\<forall>nm ims. (nm, ims) \<in> set (partitions t') \<longrightarrow> validName nm \<and> distinct (map release ims) \<and>
        list_all image_ok ims \<and> set (map release ims) \<subseteq> set (releases t') \<and> ims \<noteq> []"
    proof clarify
      fix nm ims assume "(nm, ims) \<in> set (partitions t')"
      then consider "nm = name" "ims = images @ [?im]" | "(nm, ims) \<in> set (partitions t)"
        using wf map_assign_entries [of "partitions t"] by (auto simp: t' table_wf_def)
      then show "validName nm \<and> distinct (map release ims) \<and> list_all image_ok ims \<and>
          set (map release ims) \<subseteq> set (releases t') \<and> ims \<noteq> []"
      proof cases
        case 1
        then show ?thesis using f old new parsed_image_ok [OF f(3-5)] by (auto simp: t' list_ex_iff)
      next
        case 2
        then show ?thesis using table_wfD [OF wf 2] by (auto simp: t')
      qed
    qed
  qed (use wf f in \<open>auto simp: t' table_wf_def map_assign_sorted\<close>)
  ultimately show ?thesis by blast
qed

lemma addLines_wf:
  "table_wf t \<Longrightarrow> addLines ls t = Some t' \<Longrightarrow> table_wf t' \<and> (ls \<noteq> [] \<or> partitions t \<noteq> [] \<longrightarrow> partitions t' \<noteq> [])"
proof (induction ls arbitrary: t)
  case (Cons l ls)
  from Cons.prems obtain u where "addLine l t = Some u" "addLines ls u = Some t'"
    by (auto split: option.splits)
  with Cons.IH [of u] addLine_wf [OF Cons.prems(1)] show ?case by auto
qed simp

lemma split_nonempty: "split cs sep \<noteq> []"
  by (subst split.simps) (simp add: Let_def)

lemma parseTable_complete:
  assumes "parseTable cs = Some t"
  shows "table_complete t"
proof -
  have add: "addLines (split (butlast cs) nl) empty_table = Some t"
    and len: "length (partitions t) \<le> kMaxPartitions" "length (releases t) \<le> kMaxReleases"
      "\<forall>(name, images)\<in>set (partitions t). length images = length (releases t)"
    using assms by (auto simp: parseTable_def list_ex_iff not_less split: if_splits option.splits)
  have "table_wf empty_table" by (simp add: table_wf_def empty_table_def)
  from addLines_wf [OF this add] have wf: "table_wf t" "partitions t \<noteq> []"
    using split_nonempty by auto
  have "set (map release images) = set (releases t)" if "(name, images) \<in> set (partitions t)" for name images
  proof (rule card_subset_eq)
    show "set (map release images) \<subseteq> set (releases t)" by (rule table_wfD(4) [OF wf(1) that])
    have "card (set (map release images)) = length images"
      using table_wfD(2) [OF wf(1) that] by (metis distinct_card length_map)
    moreover have "card (set (releases t)) = length (releases t)"
      using wf(1) by (simp add: table_wf_def distinct_card)
    ultimately show "card (set (map release images)) = card (set (releases t))"
      using len(3) that by fastforce
  qed simp
  with wf len(1,2) show ?thesis unfolding table_complete_def by blast
qed

text \<open>
  C15. A table that is accepted is complete and safe to use: its partitions are sorted, their
  names cannot leave the directory of block devices, sizes and digests are in range, and every
  partition has exactly one image of every release of the table, so that no release can match
  because a partition is not compared.
\<close>

theorem parsed_table_complete:
  assumes "parseTable cs = Some t" "(name, images) \<in> set (partitions t)"
  shows "set (map release images) = set (releases t) \<and> distinct (map release images) \<and>
    list_all image_ok images \<and> sorted_wrt (<) (map fst (partitions t)) \<and>
    validName name \<and> CHR ''/'' \<notin> set name \<and> length name \<le> 32 \<and>
    length (partitions t) \<le> kMaxPartitions \<and> length (releases t) \<le> kMaxReleases"
proof -
  have c: "table_complete t" by (rule parseTable_complete [OF assms(1)])
  then have wf: "table_wf t" by (simp add: table_complete_def)
  have "CHR ''/'' \<notin> set name"
  proof
    assume "CHR ''/'' \<in> set name"
    with table_wfD(1) [OF wf assms(2)] show False
      by (auto simp: validName_def list_all_iff isDigit_def less_eq_char_def dest!: bspec)
  qed
  with c table_wfD [OF wf assms(2)] assms(2) wf show ?thesis
    unfolding table_complete_def table_wf_def validName_def by blast
qed

definition sample_line :: string where
  "sample_line = ''image abl 16.1.0 5 '' @ replicate 64 CHR ''0''"

lemma split_take:
  assumes "takeWhile (\<lambda>c. c \<noteq> sep) cs = cs"
  shows "split cs sep = [cs]"
  by (subst split.simps) (simp only: Let_def assms if_True refl)

lemma split_cons:
  "sep \<notin> set a \<Longrightarrow> split (a @ sep # b) sep = a # split b sep"
  by (subst split.simps) (auto simp: Let_def takeWhile_append)

lemma split_last: "sep \<notin> set a \<Longrightarrow> split a sep = [a]"
  by (rule split_take) (auto simp: takeWhile_eq_all_conv)

definition sample_image :: Image where
  "sample_image = \<lparr>release = ''16.1.0'', bytes = 5, sha256 = replicate 32 0\<rparr>"

definition sample_table :: Table where
  "sample_table = \<lparr>partitions = [(''abl'', [sample_image])], releases = [''16.1.0'']\<rparr>"

lemma split_five:
  assumes "sep \<notin> set a" "sep \<notin> set b" "sep \<notin> set c" "sep \<notin> set d" "sep \<notin> set e"
  shows "split (a @ sep # b @ sep # c @ sep # d @ sep # e) sep = [a, b, c, d, e]"
  using assms by (simp add: split_cons split_last)

lemma sample_split:
  "split sample_line (CHR '' '') = [''image'', ''abl'', ''16.1.0'', ''5'', replicate 64 CHR ''0'']"
proof -
  have eq: "sample_line = ''image'' @ CHR '' '' # ''abl'' @ CHR '' '' # ''16.1.0'' @ CHR '' '' # ''5'' @ CHR '' '' #
      replicate 64 CHR ''0''" by (simp add: sample_line_def)
  show ?thesis unfolding eq by (rule split_five) simp_all
qed

lemma sample_release: "parseRelease ''16.1.0'' = Some (16, 1, 0)"
proof -
  have "split ''16.1.0'' (CHR ''.'') = [''16'', ''1'', ''0'']"
    using split_cons [of "CHR ''.''" "''16''" "''1.0''"] split_cons [of "CHR ''.''" "''1''" "''0''"]
      split_last [of "CHR ''.''" "''0''"] by simp
  then show ?thesis
    by (simp add: parseRelease_def number_ok_def isDigit_def less_eq_char_def nat_value_def digit_value_def)
qed

lemma sample_digest: "parseDigest (replicate 64 CHR ''0'') = Some (replicate 32 0)"
proof -
  have "parseHex (replicate (2 * n) CHR ''0'') = Some (replicate n 0)" for n
    by (induction n) (simp_all add: hexValue_def isDigit_def)
  from this [of 32] show ?thesis by (simp add: parseDigest_def)
qed

lemma sample_parsed: "parseTable (sample_line @ [nl]) = Some sample_table"
proof -
  have "nl \<notin> set sample_line" by (simp add: nl_def sample_line_def)
  then have "split sample_line nl = [sample_line]" by (rule split_last)
  moreover have "addLine sample_line empty_table = Some sample_table"
    by (simp add: addLine_def sample_split sample_release sample_digest empty_table_def
        sample_table_def sample_image_def validName_def parseBytes_def isDigit_def less_eq_char_def
        nat_value_def digit_value_def kMaxImageBytes_def set_insert_def)
  moreover have "length sample_line \<le> 100" by (simp add: sample_line_def)
  ultimately show ?thesis
    by (simp add: parseTable_def kMaxTableBytes_def kMaxPartitions_def kMaxReleases_def sample_table_def)
qed

theorem parsed_table_complete_witness:
  "parseTable (sample_line @ [nl]) = Some sample_table \<and> CHR ''/'' \<notin> set ''abl'' \<and>
   set (map release [sample_image]) = set (releases sample_table)"
proof -
  have "(''abl'', [sample_image]) \<in> set (partitions sample_table)" by (simp add: sample_table_def)
  from sample_parsed parsed_table_complete [OF sample_parsed this] show ?thesis by blast
qed

section \<open>Digests do not depend on how the data is read\<close>

text \<open>
  What OpenSSL documents of the streaming interface: updates in pieces are one update with the
  pieces together.
\<close>

definition streaming :: "'c hash_ops \<Rightarrow> bool" where
  "streaming H \<longleftrightarrow> (\<forall>c a b. SHA256_Update H (SHA256_Update H c a) b = SHA256_Update H c (a @ b))"

definition sha :: "'c hash_ops \<Rightarrow> u8 list \<Rightarrow> Digest" where
  "sha H xs = SHA256_Final H (SHA256_Update H (SHA256_Init H) xs)"

text \<open>The context after the bytes \<open>p\<close>: before the first update nothing was hashed.\<close>

definition context_of :: "'c hash_ops \<Rightarrow> u8 list \<Rightarrow> 'c \<Rightarrow> bool" where
  "context_of H p ctx \<longleftrightarrow>
     (\<forall>xs. SHA256_Update H ctx xs = SHA256_Update H (SHA256_Init H) (p @ xs))"

lemma context_update:
  "streaming H \<Longrightarrow> context_of H p ctx \<Longrightarrow> context_of H (p @ xs) (SHA256_Update H ctx xs)"
  by (simp add: context_of_def streaming_def)

lemma finishLengths_spec:
  assumes "streaming H" "context_of H p ctx" "sorted_wrt (<) ns" "\<forall>n\<in>set ns. length p \<le> n"
    and "finishLengths H (length p + length buf) ctx buf (length p) ns ds = (ctx', rest, hashed, ns', ds')"
  shows "(\<exists>q. context_of H q ctx' \<and> q @ rest = p @ buf \<and> hashed = length q) \<and>
    ns' = filter (\<lambda>n. length p + length buf < n) ns \<and>
    (\<forall>n. map_of ds' n = (if n \<in> set ns \<and> n \<le> length p + length buf
                         then Some (sha H (take n (p @ buf))) else map_of ds n))"
  using assms(2-)
proof (induction ns arbitrary: p ctx buf ds)
  case Nil
  then show ?case by (auto intro: exI [of _ p])
next
  case (Cons n ns)
  show ?case
  proof (cases "n \<le> length p + length buf")
    case False
    then have "length p + length buf < n" by simp
    moreover have "\<forall>m\<in>set ns. n < m" using Cons.prems(2) by simp
    ultimately have big: "\<forall>m\<in>set (n # ns). length p + length buf < m" by (auto intro: less_trans)
    then have "filter (\<lambda>n. length p + length buf < n) (n # ns) = n # ns" by (simp add: filter_id_conv)
    moreover have "(ctx', rest, hashed, ns', ds') = (ctx, buf, length p, n # ns, ds)"
      using Cons.prems(4) False by simp
    ultimately show ?thesis using Cons.prems(1) big by (auto intro!: exI [of _ p])
  next
    case True
    let ?k = "n - length p"
    let ?p = "p @ take ?k buf" and ?buf = "drop ?k buf"
    let ?c = "SHA256_Update H ctx (take ?k buf)"
    have n: "length p \<le> n" using Cons.prems by simp
    have len: "length ?p = n" "length ?p + length ?buf = length p + length buf" "?p @ ?buf = p @ buf"
      using True n by auto
    have "sha H (take n (p @ buf)) = SHA256_Final H ?c"
      using Cons.prems(1) True n by (simp add: sha_def context_of_def)
    moreover have "finishLengths H (length ?p + length ?buf) ?c ?buf (length ?p) ns
        (map_assign n (SHA256_Final H ?c) ds) = (ctx', rest, hashed, ns', ds')"
      unfolding len(2) unfolding len(1) using Cons.prems(4) True by (simp add: Let_def)
    moreover have "context_of H ?p ?c" by (rule context_update [OF assms(1) Cons.prems(1)])
    moreover have "sorted_wrt (<) ns" "\<forall>m\<in>set ns. length ?p \<le> m" "n \<notin> set ns"
      using Cons.prems len(1) by auto
    ultimately show ?thesis using Cons.IH [of ?p ?c ?buf] True len
      by (auto simp del: length_append length_drop append_take_drop_id append_assoc)
  qed
qed

text \<open>The data a list of reads delivers, and whether no read fails before its end.\<close>

fun read_data :: "'a read_result list \<Rightarrow> 'a list" where
  "read_data [] = []"
| "read_data (Interrupted # rs) = read_data rs"
| "read_data (Failed # rs) = []"
| "read_data (Data b # rs) = (if b = [] then [] else b @ read_data rs)"

fun reads_ok :: "'a read_result list \<Rightarrow> bool" where
  "reads_ok [] = True"
| "reads_ok (Interrupted # rs) = reads_ok rs"
| "reads_ok (Failed # rs) = False"
| "reads_ok (Data b # rs) = (b = [] \<or> reads_ok rs)"

lemma hashReads_spec:
  assumes "streaming H" "context_of H p ctx" "sorted_wrt (<) ns" "\<forall>n\<in>set ns. length p < n" "reads_ok rs"
  shows "\<exists>ds'. hashReads H ctx (length p) ns ds rs = Some ds' \<and>
    (\<forall>n. map_of ds' n = (if n \<in> set ns \<and> n \<le> length (p @ read_data rs)
                         then Some (sha H (take n (p @ read_data rs))) else map_of ds n))"
  using assms(2-)
proof (induction rs arbitrary: p ctx ns ds rule: reads_ok.induct)
  case 1
  then show ?case by (auto intro!: exI [of _ ds])
next
  case (2 rs)
  show ?case
  proof (cases "ns = []")
    case False
    then have "hashReads H ctx (length p) ns ds (Interrupted # rs) = hashReads H ctx (length p) ns ds rs"
      "read_data (Interrupted # rs) = read_data rs" "reads_ok rs" using "2.prems"(4) by simp_all
    with "2.IH" [OF "2.prems"(1-3), of ds] show ?thesis by (simp only:)
  qed simp
next
  case (3 rs)
  then show ?case by simp
next
  case (4 b rs)
  show ?case
  proof (cases "ns = [] \<or> b = []")
    case True
    with "4.prems" show ?thesis by auto
  next
    case False
    obtain c r h ms es where f: "finishLengths H (length p + length b) ctx b (length p) ns ds = (c, r, h, ms, es)"
      by (metis prod_cases5)
    have "\<forall>n\<in>set ns. length p \<le> n" using "4.prems"(3) by auto
    from finishLengths_spec [OF assms(1) "4.prems"(1,2) this f] obtain q
      where q: "context_of H q c" "q @ r = p @ b" and ms: "ms = filter (\<lambda>n. length p + length b < n) ns"
        and es: "\<And>n. map_of es n = (if n \<in> set ns \<and> n \<le> length p + length b
             then Some (sha H (take n (p @ b))) else map_of ds n)" by blast
    have ctx: "context_of H (p @ b) (SHA256_Update H c r)"
      using context_update [OF assms(1) q(1), of r] q(2) by simp
    have sorted: "sorted_wrt (<) ms" "\<forall>n\<in>set ms. length (p @ b) < n"
      using "4.prems"(2) by (simp_all add: ms sorted_wrt_filter)
    have ok: "reads_ok rs" using "4.prems"(4) False by simp
    from "4.IH" [OF ctx sorted ok, of es] obtain ds' where
      IH: "hashReads H (SHA256_Update H c r) (length p + length b) ms es rs = Some ds'"
        "\<And>n. map_of ds' n = (if n \<in> set ms \<and> n \<le> length ((p @ b) @ read_data rs)
           then Some (sha H (take n ((p @ b) @ read_data rs))) else map_of es n)" by auto
    show ?thesis
    proof (cases "ms = []")
      case True
      have "hashReads H ctx (length p) ns ds (Data b # rs) = Some es" using False f True by (simp add: Let_def)
      moreover have "n \<le> length p + length b" if "n \<in> set ns" for n
        using True that by (auto simp: ms filter_empty_conv not_less)
      ultimately show ?thesis using False es by (auto intro!: exI [of _ es])
    next
      case False': False
      have "hashReads H ctx (length p) ns ds (Data b # rs) = Some ds'"
        using False False' f IH(1) by (simp add: Let_def)
      moreover have "map_of ds' n = (if n \<in> set ns \<and> n \<le> length (p @ read_data (Data b # rs))
          then Some (sha H (take n (p @ read_data (Data b # rs)))) else map_of ds n)" for n
        using IH(2) [of n] es [of n] False by (auto simp: ms)
      ultimately show ?thesis by blast
    qed
  qed
qed

lemma prefixDigests_spec:
  assumes "streaming H" "sorted_wrt (<) lengths" "0 \<notin> set lengths" "reads_ok reads"
  shows "\<exists>digests. prefixDigests H lengths reads = Some digests \<and>
    (\<forall>n. map_of digests n = (if n \<in> set lengths \<and> n \<le> length (read_data reads)
                             then Some (sha H (take n (read_data reads))) else None))"
proof -
  have "context_of H [] (SHA256_Init H)" by (simp add: context_of_def)
  moreover have "\<forall>n\<in>set lengths. length [] < n" using assms(3) by (metis gr0I list.size(3))
  ultimately obtain ds' where "hashReads H (SHA256_Init H) 0 lengths [] reads = Some ds'"
    "\<And>n. map_of ds' n = (if n \<in> set lengths \<and> n \<le> length (read_data reads)
        then Some (sha H (take n (read_data reads))) else map_of [] n)"
    using hashReads_spec [OF assms(1) _ assms(2) _ assms(4), of "[]" "SHA256_Init H" "[]"] by auto
  then show ?thesis by (auto simp: prefixDigests_def intro!: exI [of _ ds'])
qed

text \<open>
  C16. However the data of a partition arrives, in reads of any sizes and with interrupted reads
  in between, the digests computed in one pass are those of the prefixes: every requested length
  within the data has the SHA-256 of that prefix, a length past the end has none, and the result
  exists whenever no read fails.
\<close>

theorem prefix_digests_correct:
  assumes "streaming H" "sorted_wrt (<) lengths" "0 \<notin> set lengths" "reads_ok reads"
  shows "\<exists>digests. prefixDigests H lengths reads = Some digests \<and>
    (\<forall>n. map_of digests n = (if n \<in> set lengths \<and> n \<le> length (read_data reads)
                             then Some (sha H (take n (read_data reads))) else None))"
  using assms by (rule prefixDigests_spec)

text \<open>A simple streaming hash for examples: the context is the data, the digest its last 32 bytes.\<close>

definition tail_hash :: "u8 list hash_ops" where
  "tail_hash = \<lparr>SHA256_Init = [], SHA256_Update = (\<lambda>c xs. c @ xs),
     SHA256_Final = (\<lambda>c. rev (take 32 (rev c @ replicate 32 0)))\<rparr>"

lemma tail_hash_streaming: "streaming tail_hash"
  by (simp add: streaming_def tail_hash_def)

theorem prefix_digests_correct_witness:
  "map_option (\<lambda>ds. map_of ds 3) (prefixDigests tail_hash [3, 9] [Data [1, 2], Interrupted, Data [3, 4]])
   = Some (Some (sha tail_hash [1, 2, 3]))"
proof -
  have h: "sorted_wrt (<) [3, 9 :: nat]" "0 \<notin> set [3, 9 :: nat]"
    "reads_ok [Data [1, 2], Interrupted, Data [3, 4 :: u8]]" by simp_all
  from prefix_digests_correct [OF tail_hash_streaming h] show ?thesis by auto
qed

section \<open>Matching and the result\<close>

text \<open>A partition with the content \<open>d\<close> holds an image.\<close>

definition holds :: "'c hash_ops \<Rightarrow> u8 list \<Rightarrow> Image \<Rightarrow> bool" where
  "holds H d im \<longleftrightarrow> bytes im \<le> length d \<and> sha H (take (bytes im) d) = sha256 im"

lemma matchingReleases_spec:
  "sorted (matchingReleases images ds)" "distinct (matchingReleases images ds)"
  "set (matchingReleases images ds) = {release im | im. im \<in> set images \<and> map_of ds (bytes im) = Some (sha256 im)}"
proof -
  define f where "f = (\<lambda>(image :: Image) found. if map_of ds (bytes image) = Some (sha256 image)
      then set_insert (release image) found else found)"
  have "sorted (fold f xs acc) \<and> distinct (fold f xs acc) \<and>
      set (fold f xs acc) = set acc \<union> {release im | im. im \<in> set xs \<and> map_of ds (bytes im) = Some (sha256 im)}"
    if "sorted acc" "distinct acc" for xs acc
    using that by (induction xs arbitrary: acc) (auto simp: f_def)
  from this [of "[]" images]
  show "sorted (matchingReleases images ds)" "distinct (matchingReleases images ds)"
    "set (matchingReleases images ds) = {release im | im. im \<in> set images \<and> map_of ds (bytes im) = Some (sha256 im)}"
    by (simp_all add: matchingReleases_def f_def)
qed

lemma set_intersection_sorted:
  "sorted xs \<Longrightarrow> distinct xs \<Longrightarrow> sorted ys \<Longrightarrow> distinct ys \<Longrightarrow>
   set (set_intersection xs ys) = set xs \<inter> set ys \<and> sorted (set_intersection xs ys) \<and>
   distinct (set_intersection xs ys)"
  by (induction xs ys rule: set_intersection.induct) (auto simp: leD)

text \<open>An element with no greater one, for a transitive and irreflexive comparison.\<close>

lemma max_element_spec:
  assumes trans: "\<And>a b c. lt a b \<Longrightarrow> lt b c \<Longrightarrow> lt a c" and irrefl: "\<And>a. \<not> lt a a" and "xs \<noteq> []"
  shows "max_element lt xs \<in> set xs \<and> (\<forall>x\<in>set xs. \<not> lt (max_element lt xs) x)"
proof -
  have "foldl (\<lambda>l x. if lt l x then x else l) m ys \<in> insert m (set ys) \<and>
      (\<forall>x\<in>insert m (set ys). \<not> lt (foldl (\<lambda>l x. if lt l x then x else l) m ys) x) \<and>
      (\<forall>z. \<not> lt m z \<longrightarrow> \<not> lt (foldl (\<lambda>l x. if lt l x then x else l) m ys) z)" for m ys
  proof (induction ys arbitrary: m)
    case (Cons y ys)
    from Cons.IH [of "if lt m y then y else m"] show ?case
      by (cases "lt m y") (auto intro: trans irrefl)
  qed (simp add: irrefl)
  from this [of "hd xs" "tl xs"] \<open>xs \<noteq> []\<close> show ?thesis
    by (cases xs) (auto simp: max_element_def)
qed

lemma release_less_trans: "release_less a b \<Longrightarrow> release_less b c \<Longrightarrow> release_less a c"
  by (elim release_less.elims) auto

lemma release_less_irrefl: "\<not> release_less a a"
  by (cases a) auto

text \<open>The common releases of the partitions, in terms of sets.\<close>

definition good_match :: "string list option \<Rightarrow> bool" where
  "good_match m \<longleftrightarrow> (\<exists>xs. m = Some xs \<and> xs \<noteq> [])"

lemma commonReleases_bad:
  "p \<in> set ps \<Longrightarrow> \<not> good_match (map_of matches (fst p)) \<Longrightarrow> commonReleases matches ps common = None"
proof (induction ps arbitrary: common)
  case (Cons q ps)
  obtain name images where q: "q = (name, images)" by fastforce
  show ?case
  proof (cases "good_match (map_of matches name)")
    case True
    then obtain xs where "map_of matches name = Some xs" "xs \<noteq> []" by (auto simp: good_match_def)
    moreover have "p \<in> set ps" using Cons.prems True by (auto simp: q)
    ultimately show ?thesis using Cons.IH [OF _ Cons.prems(2)] by (simp add: q)
  next
    case False
    then show ?thesis by (auto simp: q good_match_def split: option.split)
  qed
qed simp

definition matches_sorted :: "(string \<times> string list) list \<Rightarrow> bool" where
  "matches_sorted matches \<longleftrightarrow>
     (\<forall>name xs. map_of matches name = Some xs \<longrightarrow> sorted xs \<and> distinct xs)"

lemma matches_sortedD:
  "matches_sorted matches \<Longrightarrow> map_of matches name = Some xs \<Longrightarrow> sorted xs"
  "matches_sorted matches \<Longrightarrow> map_of matches name = Some xs \<Longrightarrow> distinct xs"
  unfolding matches_sorted_def by blast+

lemma good_matchE:
  assumes "good_match m"
  obtains xs where "m = Some xs" "xs \<noteq> []"
  using assms by (auto simp: good_match_def)

lemma commonReleases_some:
  assumes "matches_sorted matches"
  shows "\<forall>p\<in>set ps. good_match (map_of matches (fst p)) \<Longrightarrow> sorted c \<Longrightarrow> distinct c \<Longrightarrow>
    \<exists>d. commonReleases matches ps (Some c) = Some (Some d) \<and>
      set d = set c \<inter> (\<Inter>p\<in>set ps. set (the (map_of matches (fst p))))"
proof (induction ps arbitrary: c)
  case (Cons p ps)
  obtain name images where p: "p = (name, images)" by fastforce
  have "good_match (map_of matches name)" using Cons.prems(1) by (simp add: p)
  then obtain xs where xs: "map_of matches name = Some xs" "xs \<noteq> []" by (rule good_matchE)
  note i = set_intersection_sorted [OF Cons.prems(2,3) matches_sortedD [OF assms xs(1)]]
  have "\<forall>p\<in>set ps. good_match (map_of matches (fst p))" using Cons.prems(1) by simp
  from Cons.IH [OF this conjunct1 [OF conjunct2 [OF i]] conjunct2 [OF conjunct2 [OF i]]] obtain d where
    "commonReleases matches ps (Some (set_intersection c xs)) = Some (Some d)"
    "set d = set (set_intersection c xs) \<inter> (\<Inter>p\<in>set ps. set (the (map_of matches (fst p))))" by blast
  with xs i show ?case by (intro exI [of _ d]) (simp add: p Int_assoc)
qed simp

lemma commonReleases_good:
  assumes "matches_sorted matches"
    and "\<forall>p\<in>set ps. good_match (map_of matches (fst p))" "ps \<noteq> []"
  shows "\<exists>d. commonReleases matches ps None = Some (Some d) \<and>
    set d = (\<Inter>p\<in>set ps. set (the (map_of matches (fst p))))"
proof -
  obtain name images qs where ps: "ps = (name, images) # qs" using assms(3) by (metis list.exhaust surj_pair)
  have "good_match (map_of matches name)" using assms(2) by (simp add: ps)
  then obtain xs where xs: "map_of matches name = Some xs" "xs \<noteq> []" by (rule good_matchE)
  have "\<forall>p\<in>set qs. good_match (map_of matches (fst p))" using assms(2) by (simp add: ps)
  from commonReleases_some [OF assms(1) this matches_sortedD [OF assms(1) xs(1)]] obtain d where
    "commonReleases matches qs (Some xs) = Some (Some d)"
    "set d = set xs \<inter> (\<Inter>p\<in>set qs. set (the (map_of matches (fst p))))" by blast
  with xs show ?thesis by (intro exI [of _ d]) (simp add: ps)
qed

text \<open>
  The reported value: \<^verbatim>\<open>unknown\<close> exactly when there is no partition or one without a matching
  release, otherwise \<^verbatim>\<open>mixed\<close> when no release matches all partitions, and otherwise a release that
  matches them all and than which no other such release is newer.
\<close>

lemma result_spec:
  assumes "matches_sorted matches"
  shows "let common = (\<Inter>p\<in>set (partitions t). set (the (map_of matches (fst p)))) in
    if partitions t = [] \<or> \<not> (\<forall>p\<in>set (partitions t). good_match (map_of matches (fst p)))
    then result t matches = kUnknown
    else if common = {} then result t matches = kMixed
    else result t matches \<in> common \<and> (\<forall>r\<in>common. \<not> newerRelease r (result t matches))"
proof -
  let ?common = "\<Inter>p\<in>set (partitions t). set (the (map_of matches (fst p)))"
  consider "partitions t = []" | "\<exists>p\<in>set (partitions t). \<not> good_match (map_of matches (fst p))"
    | "partitions t \<noteq> []" "\<forall>p\<in>set (partitions t). good_match (map_of matches (fst p))" by blast
  then show ?thesis
  proof cases
    case 3
    obtain c where c: "commonReleases matches (partitions t) None = Some (Some c)" "set c = ?common"
      using commonReleases_good [of matches "partitions t"] 3 assms by blast
    have "max_element (\<lambda>a b. newerRelease b a) c \<in> set c \<and>
        (\<forall>x\<in>set c. \<not> newerRelease x (max_element (\<lambda>a b. newerRelease b a) c))" if "c \<noteq> []"
      using that release_less_trans release_less_irrefl
      by (intro max_element_spec) (auto simp: newerRelease_def)
    moreover have "c = [] \<longleftrightarrow> ?common = {}" using c(2) by (metis set_empty)
    ultimately show ?thesis using 3 c by (simp add: result_def Let_def)
  next
    case 2
    then obtain p where "p \<in> set (partitions t)" "\<not> good_match (map_of matches (fst p))" by blast
    with commonReleases_bad [of p "partitions t" matches None] 2 show ?thesis
      by (simp add: result_def Let_def)
  qed (simp add: result_def)
qed

definition sample_matches :: "(string \<times> string list) list" where
  "sample_matches = [(''abl'', [''16.1.0''])]"

lemma sample_result:
  "result sample_table sample_matches = ''16.1.0''"
proof -
  have "matches_sorted sample_matches" by (simp add: matches_sorted_def sample_matches_def)
  from result_spec [OF this, of sample_table] show ?thesis
    by (simp add: Let_def sample_table_def sample_matches_def good_match_def)
qed

end
