(* ===== verification/Fw_Main.thy ===== *)
theory Fw_Main
  imports Fw_Release
begin

text \<open>
  The program of \<^verbatim>\<open>firmware/main.cpp\<close>: it reads the table, hashes every partition of the booted
  slot and sets the property. What the platform answers are arguments: the reads of the table
  file, the reads of each block device (\<open>None\<close> when it cannot be opened), and whether the property
  can be set. Log lines, and the text \<open>detail\<close> that only they show, are left out.
\<close>

definition kPartitionDir :: string where
  "kPartitionDir = ''/dev/block/by-name/''"

section \<open>The program\<close>

fun readLoop :: "string \<Rightarrow> char read_result list \<Rightarrow> string option" where
  "readLoop text [] = Some text"
| "readLoop text (Interrupted # rs) = readLoop text rs"
| "readLoop text (Failed # rs) = None"
| "readLoop text (Data chunk # rs) =
     (if chunk = [] then Some text
      else let text = text @ chunk
        in if length text > kMaxTableBytes then None else readLoop text rs)"

definition readTable :: "char read_result list option \<Rightarrow> string option" where
  "readTable file = (case file of None \<Rightarrow> None | Some reads \<Rightarrow> readLoop [] reads)"

text \<open>The exit code, and the value the property is set to.\<close>

definition report :: "bool \<Rightarrow> string \<Rightarrow> int \<times> string option" where
  "report settable value = (if \<not> settable then (1, None) else (0, Some value))"

definition imageLengths :: "Image list \<Rightarrow> nat list" where
  "imageLengths images = fold (\<lambda>image lengths. set_insert (bytes image) lengths) images []"

text \<open>The loop over the partitions: \<open>None\<close> when it reports \<^verbatim>\<open>unknown\<close> and returns.\<close>

fun matchPartitions ::
    "'c hash_ops \<Rightarrow> (string \<Rightarrow> u8 read_result list option) \<Rightarrow> string \<Rightarrow> (string \<times> Image list) list
     \<Rightarrow> (string \<times> string list) list \<Rightarrow> (string \<times> string list) list option" where
  "matchPartitions H dev slot [] matches = Some matches"
| "matchPartitions H dev slot ((name, images) # ps) matches =
     (let partition = name @ slot; lengths = imageLengths images in
      case dev (kPartitionDir @ partition) of
        None \<Rightarrow> None
      | Some reads \<Rightarrow>
          (case prefixDigests H lengths reads of
             None \<Rightarrow> None
           | Some digests \<Rightarrow>
               let found = matchingReleases images digests in
               if found = [] then None
               else matchPartitions H dev slot ps (map_assign name found matches)))"

definition fw_main ::
    "'c hash_ops \<Rightarrow> string list \<Rightarrow> char read_result list option
     \<Rightarrow> (string \<Rightarrow> u8 read_result list option) \<Rightarrow> bool \<Rightarrow> int \<times> string option" where
  "fw_main H argv file dev settable =
     (if length argv \<noteq> 2 \<or> (argv ! 1 \<noteq> ''_a'' \<and> argv ! 1 \<noteq> ''_b'') then report settable kUnknown
      else let slot = argv ! 1 in
        case (case readTable file of None \<Rightarrow> None | Some text \<Rightarrow> parseTable text) of
          None \<Rightarrow> report settable kUnknown
        | Some table \<Rightarrow>
            (case matchPartitions H dev slot (partitions table) [] of
               None \<Rightarrow> report settable kUnknown
             | Some matches \<Rightarrow> report settable (result table matches)))"

section \<open>The pieces\<close>

lemma readLoop_spec:
  "reads_ok rs \<Longrightarrow> readLoop t rs = Some u \<Longrightarrow> u = t @ read_data rs"
  by (induction t rs rule: readLoop.induct) (auto simp: Let_def split: if_splits)

lemma imageLengths_spec:
  "sorted_wrt (<) (imageLengths images)" "set (imageLengths images) = bytes ` set images"
proof -
  have "sorted (fold (\<lambda>image lengths. set_insert (bytes image) lengths) images acc) \<and>
      distinct (fold (\<lambda>image lengths. set_insert (bytes image) lengths) images acc) \<and>
      set (fold (\<lambda>image lengths. set_insert (bytes image) lengths) images acc) = set acc \<union> bytes ` set images"
    if "sorted acc" "distinct acc" for acc
    using that by (induction images arbitrary: acc) auto
  from this [of "[]"] show "sorted_wrt (<) (imageLengths images)"
    "set (imageLengths images) = bytes ` set images"
    by (simp_all add: imageLengths_def strict_sorted_iff)
qed

text \<open>The releases of one partition, by its content.\<close>

lemma partition_matches:
  assumes "streaming H" "list_all image_ok images" "reads_ok reads"
  shows "\<exists>digests. prefixDigests H (imageLengths images) reads = Some digests \<and>
    set (matchingReleases images digests) = {release im | im. im \<in> set images \<and> holds H (read_data reads) im}"
proof -
  have pos: "0 < bytes im" if "im \<in> set images" for im
    using assms(2) that by (auto simp: list_all_iff image_ok_def)
  then have "0 \<notin> set (imageLengths images)" by (auto simp: imageLengths_spec dest: pos)
  from prefixDigests_spec [OF assms(1) imageLengths_spec(1) this assms(3)] obtain ds where
    ds: "prefixDigests H (imageLengths images) reads = Some ds"
      "\<And>n. map_of ds n = (if n \<in> set (imageLengths images) \<and> n \<le> length (read_data reads)
         then Some (sha H (take n (read_data reads))) else None)" by blast
  have "map_of ds (bytes im) = Some (sha256 im) \<longleftrightarrow> holds H (read_data reads) im" if "im \<in> set images" for im
    using that by (auto simp: ds(2) holds_def imageLengths_spec(2))
  with ds(1) matchingReleases_spec(3) [of images ds] show ?thesis by (intro exI [of _ ds]) auto
qed

text \<open>What is on the block device of a partition.\<close>

definition device_ok :: "(string \<Rightarrow> u8 read_result list option) \<Rightarrow> string \<Rightarrow> string \<Rightarrow> bool" where
  "device_ok dev slot name \<longleftrightarrow>
     (\<exists>reads. dev (kPartitionDir @ name @ slot) = Some reads \<and> reads_ok reads)"

definition device_data :: "(string \<Rightarrow> u8 read_result list option) \<Rightarrow> string \<Rightarrow> string \<Rightarrow> u8 list" where
  "device_data dev slot name = read_data (the (dev (kPartitionDir @ name @ slot)))"

definition held :: "'c hash_ops \<Rightarrow> (string \<Rightarrow> u8 read_result list option) \<Rightarrow> string \<Rightarrow> string \<times> Image list
    \<Rightarrow> string set" where
  "held H dev slot p = {release im | im. im \<in> set (snd p) \<and> holds H (device_data dev slot (fst p)) im}"

text \<open>A table of matches that has, for each partition of \<open>ps\<close>, the releases it holds.\<close>

definition records ::
    "'c hash_ops \<Rightarrow> (string \<Rightarrow> u8 read_result list option) \<Rightarrow> string \<Rightarrow> (string \<times> Image list) list
     \<Rightarrow> (string \<times> string list) list \<Rightarrow> bool" where
  "records H dev slot ps matches \<longleftrightarrow> matches_sorted matches \<and>
     (\<forall>p\<in>set ps. \<exists>xs. map_of matches (fst p) = Some xs \<and> xs \<noteq> [] \<and> set xs = held H dev slot p)"

lemma matches_sorted_assign:
  assumes "matches_sorted ms"
  shows "matches_sorted (map_assign name (matchingReleases images ds) ms)"
  unfolding matches_sorted_def
proof (intro allI impI)
  fix n xs assume "map_of (map_assign name (matchingReleases images ds) ms) n = Some xs"
  then consider "xs = matchingReleases images ds" | "map_of ms n = Some xs" by (cases "n = name") simp_all
  then show "sorted xs \<and> distinct xs"
    using matchingReleases_spec(1,2) matches_sortedD [OF assms] by cases blast+
qed

lemma matchPartitions_step:
  assumes "streaming H" "list_all image_ok images" "device_ok dev slot name"
  shows "\<exists>found ds. prefixDigests H (imageLengths images) (the (dev (kPartitionDir @ name @ slot))) = Some ds \<and>
    found = matchingReleases images ds \<and> set found = held H dev slot (name, images)"
proof -
  obtain reads where r: "dev (kPartitionDir @ name @ slot) = Some reads" "reads_ok reads"
    using assms(3) by (auto simp: device_ok_def)
  from partition_matches [OF assms(1,2) r(2)] r(1) show ?thesis
    by (auto simp: held_def device_data_def)
qed

lemma matchPartitions_spec:
  assumes "streaming H"
  shows "distinct (map fst ps) \<Longrightarrow> \<forall>p\<in>set ps. list_all image_ok (snd p) \<and> device_ok dev slot (fst p) \<Longrightarrow>
    matches_sorted ms \<Longrightarrow>
    (if \<forall>p\<in>set ps. held H dev slot p \<noteq> {}
     then \<exists>ms'. matchPartitions H dev slot ps ms = Some ms' \<and> records H dev slot ps ms' \<and>
       (\<forall>n. n \<notin> fst ` set ps \<longrightarrow> map_of ms' n = map_of ms n)
     else matchPartitions H dev slot ps ms = None)"
proof (induction ps arbitrary: ms)
  case Nil
  then show ?case by (simp add: records_def)
next
  case (Cons p ps)
  obtain name images where p: "p = (name, images)" by fastforce
  obtain reads where r: "dev (kPartitionDir @ name @ slot) = Some reads"
    using Cons.prems(2) by (auto simp: p device_ok_def)
  have "list_all image_ok images" "device_ok dev slot name" using Cons.prems(2) by (simp_all add: p)
  from matchPartitions_step [OF assms this] obtain ds where ds:
    "prefixDigests H (imageLengths images) reads = Some ds"
    "set (matchingReleases images ds) = held H dev slot p" by (auto simp: r p)
  let ?found = "matchingReleases images ds"
  show ?case
  proof (cases "?found = []")
    case True
    with ds(2) have "held H dev slot p = {}" by simp
    then show ?thesis using True ds(1) by (simp add: p r Let_def)
  next
    case False
    let ?ms = "map_assign name ?found ms"
    have e: "matchPartitions H dev slot (p # ps) ms = matchPartitions H dev slot ps ?ms"
      using False ds(1) by (simp add: p r Let_def)
    have h: "held H dev slot p \<noteq> {}" using False ds(2) by (metis set_empty)
    have d: "distinct (map fst ps)" "name \<notin> fst ` set ps" using Cons.prems(1) by (simp_all add: p)
    have a: "\<forall>p\<in>set ps. list_all image_ok (snd p) \<and> device_ok dev slot (fst p)" using Cons.prems(2) by simp
    note IH = Cons.IH [OF d(1) a matches_sorted_assign [OF Cons.prems(3)], of name images ds]
    show ?thesis
    proof (cases "\<forall>p\<in>set ps. held H dev slot p \<noteq> {}")
      case True
      with IH obtain ms' where ms': "matchPartitions H dev slot ps ?ms = Some ms'"
        "records H dev slot ps ms'" "\<And>n. n \<notin> fst ` set ps \<Longrightarrow> map_of ms' n = map_of ?ms n" by auto
      have "map_of ms' name = Some ?found" using ms'(3) [OF d(2)] by simp
      then have "records H dev slot (p # ps) ms'"
        using ms'(2) ds(2) False unfolding records_def by (simp add: p)
      moreover have "map_of ms' n = map_of ms n" if "n \<notin> fst ` set (p # ps)" for n
        using ms'(3) [of n] that by (simp add: p)
      ultimately show ?thesis using True h ms'(1) e by auto
    next
      case no: False
      with IH show ?thesis using e by auto
    qed
  qed
qed

section \<open>What is reported\<close>

lemma complete_table:
  assumes "parseTable txt = Some t"
  shows "partitions t \<noteq> []" "distinct (map fst (partitions t))"
    "p \<in> set (partitions t) \<Longrightarrow> list_all image_ok (snd p)"
proof -
  have c: "table_complete t" by (rule parseTable_complete [OF assms])
  then have wf: "table_wf t" by (simp add: table_complete_def)
  show "partitions t \<noteq> []" using c by (simp add: table_complete_def)
  show "distinct (map fst (partitions t))" using wf by (simp add: table_wf_def strict_sorted_iff)
  show "list_all image_ok (snd p)" if "p \<in> set (partitions t)"
    using table_wfD(3) [OF wf, of "fst p" "snd p"] that by simp
qed

lemma records_result:
  assumes "records H dev slot (partitions t) ms" "partitions t \<noteq> []"
  shows "let common = (\<Inter>p\<in>set (partitions t). held H dev slot p) in
    if common = {} then result t ms = kMixed
    else result t ms \<in> common \<and> (\<forall>r\<in>common. \<not> newerRelease r (result t ms))"
proof -
  have eq: "set (the (map_of ms (fst p))) = held H dev slot p" "good_match (map_of ms (fst p))"
    if "p \<in> set (partitions t)" for p
    using assms(1) that unfolding records_def good_match_def by force+
  then have "(\<Inter>p\<in>set (partitions t). set (the (map_of ms (fst p)))) = (\<Inter>p\<in>set (partitions t). held H dev slot p)"
    by simp
  with result_spec [of ms t] assms eq(2) show ?thesis unfolding records_def by (simp add: Let_def)
qed

text \<open>
  C17. The program as a whole. With a valid table and readable partitions, the property is set to
  \<^verbatim>\<open>unknown\<close> exactly if some partition of the slot holds no image of the table, to \<^verbatim>\<open>mixed\<close> if each
  holds one but no release is held by all, and otherwise to the newest release that every
  partition of the slot holds: its bytes, up to the length of the image, have the digest of the
  table.
\<close>

theorem firmware_release_correct:
  assumes hash: "streaming H" and slot: "slot = ''_a'' \<or> slot = ''_b''"
    and tbl: "readTable file = Some txt" "parseTable txt = Some t"
    and dev: "\<forall>p\<in>set (partitions t). device_ok dev slot (fst p)"
  shows "\<exists>v. fw_main H [prog, slot] file dev True = (0, Some v) \<and>
    (let common = (\<Inter>p\<in>set (partitions t). held H dev slot p) in
     if \<exists>p\<in>set (partitions t). held H dev slot p = {} then v = kUnknown
     else if common = {} then v = kMixed
     else v \<in> common \<and> (\<forall>r\<in>common. \<not> newerRelease r v))"
proof -
  have ok: "\<forall>p\<in>set (partitions t). list_all image_ok (snd p) \<and> device_ok dev slot (fst p)"
    using complete_table(3) [OF tbl(2)] dev by blast
  have "matches_sorted []" by (simp add: matches_sorted_def)
  note spec = matchPartitions_spec [OF hash complete_table(2) [OF tbl(2)] ok this]
  have main: "fw_main H [prog, slot] file dev True =
      (0, Some (case matchPartitions H dev slot (partitions t) [] of None \<Rightarrow> kUnknown | Some ms \<Rightarrow> result t ms))"
    using slot by (auto simp: fw_main_def tbl report_def split: option.split)
  show ?thesis
  proof (cases "\<forall>p\<in>set (partitions t). held H dev slot p \<noteq> {}")
    case True
    with spec obtain ms where "matchPartitions H dev slot (partitions t) [] = Some ms"
      "records H dev slot (partitions t) ms" by auto
    with main records_result [of H dev slot t ms] complete_table(1) [OF tbl(2)] True show ?thesis
      by (simp add: Let_def)
  next
    case False
    with spec have "matchPartitions H dev slot (partitions t) [] = None" by simp
    with main False show ?thesis by auto
  qed
qed

definition sample_dev :: "string \<Rightarrow> u8 read_result list option" where
  "sample_dev path = (if path = ''/dev/block/by-name/abl_a'' then Some [Data [0, 0], Data [0, 0, 0, 0]] else None)"

theorem firmware_release_correct_witness:
  "fw_main tail_hash [''fwrelease'', ''_a''] (Some [Data (sample_line @ [nl])]) sample_dev True
   = (0, Some ''16.1.0'')"
proof -
  have t: "readTable (Some [Data (sample_line @ [nl])]) = Some (sample_line @ [nl])"
    by (simp add: readTable_def sample_line_def kMaxTableBytes_def)
  have d: "\<forall>p\<in>set (partitions sample_table). device_ok sample_dev ''_a'' (fst p)"
    by (simp add: sample_table_def device_ok_def sample_dev_def kPartitionDir_def)
  have "holds tail_hash [0, 0, 0, 0, 0, 0] sample_image"
    by (simp add: holds_def sha_def tail_hash_def sample_image_def eval_nat_numeral)
  then have h: "held tail_hash sample_dev ''_a'' (''abl'', [sample_image]) = {''16.1.0''}"
    by (simp add: held_def device_data_def sample_dev_def kPartitionDir_def sample_image_def)
  from firmware_release_correct [OF tail_hash_streaming _ t sample_parsed d, of "''fwrelease''"] h
  show ?thesis by (simp add: sample_table_def Let_def)
qed

lemma missing_device:
  "p \<in> set ps \<Longrightarrow> dev (kPartitionDir @ fst p @ slot) = None \<Longrightarrow> matchPartitions H dev slot ps ms = None"
proof (induction ps arbitrary: ms)
  case (Cons q ps)
  obtain name images where q: "q = (name, images)" by fastforce
  show ?case
  proof (cases "p = q")
    case True
    then show ?thesis using Cons.prems by (simp add: q)
  next
    case False
    then have "p \<in> set ps" using Cons.prems(1) by simp
    from Cons.IH [OF this Cons.prems(2)] show ?thesis
      by (simp add: q Let_def split: option.split)
  qed
qed simp

text \<open>
  C18. Nothing is guessed: without a slot suffix, without a readable and valid table, or with a
  partition that cannot be opened, the value is \<^verbatim>\<open>unknown\<close>, and the exit code says whether the
  property could be set.
\<close>

theorem firmware_release_errors:
  assumes "length argv \<noteq> 2 \<or> argv ! 1 \<notin> {''_a'', ''_b''} \<or> readTable file = None \<or>
    parseTable (the (readTable file)) = None \<or>
    (\<exists>p\<in>set (partitions (the (parseTable (the (readTable file))))). dev (kPartitionDir @ fst p @ argv ! 1) = None)"
  shows "fw_main H argv file dev settable = (if settable then (0, Some kUnknown) else (1, None))"
proof (cases "length argv = 2 \<and> argv ! 1 \<in> {''_a'', ''_b''} \<and> readTable file \<noteq> None \<and>
    parseTable (the (readTable file)) \<noteq> None")
  case True
  then obtain tx t where t: "readTable file = Some tx" "parseTable tx = Some t" by auto
  with assms True obtain p where "p \<in> set (partitions t)" "dev (kPartitionDir @ fst p @ argv ! 1) = None" by auto
  then have "matchPartitions H dev (argv ! 1) (partitions t) [] = None"
    using missing_device [where dev = dev and slot = "argv ! 1"] by blast
  with t show ?thesis by (simp add: fw_main_def report_def Let_def)
next
  case False
  then show ?thesis by (auto simp: fw_main_def report_def Let_def split: option.split)
qed

theorem firmware_release_errors_witness:
  "fw_main tail_hash [''fwrelease'', ''_b''] (Some [Data (sample_line @ [nl])]) sample_dev True
   = (0, Some ''unknown'')"
proof -
  have t: "readTable (Some [Data (sample_line @ [nl])]) = Some (sample_line @ [nl])"
    by (simp add: readTable_def sample_line_def kMaxTableBytes_def)
  have "length [''fwrelease'', ''_b''] \<noteq> 2 \<or> [''fwrelease'', ''_b''] ! 1 \<notin> {''_a'', ''_b''} \<or>
    readTable (Some [Data (sample_line @ [nl])]) = None \<or>
    parseTable (the (readTable (Some [Data (sample_line @ [nl])]))) = None \<or>
    (\<exists>p\<in>set (partitions (the (parseTable (the (readTable (Some [Data (sample_line @ [nl])])))))).
       sample_dev (kPartitionDir @ fst p @ [''fwrelease'', ''_b''] ! 1) = None)"
    unfolding t option.sel sample_parsed by (simp add: sample_table_def sample_dev_def kPartitionDir_def)
  from firmware_release_errors [OF this, of tail_hash True] show ?thesis by (simp add: kUnknown_def)
qed

end
