(* ===== verification/Camera_Hints.thy ===== *)
theory Camera_Hints
  imports FP6_Prelude
begin

text \<open>
  The camera's perf hints, \<^verbatim>\<open>power/libqti-perfd-client/camera_hints.cpp\<close> and \<^verbatim>\<open>client.c\<close>: a table
  of requests with deadlines, a worker that brings the power HAL's boosts in line with the table,
  and the client calls around it.

  The state is what \<^verbatim>\<open>gLock\<close> guards, with a ghost clock. Acquiring, releasing and one planning
  round of the worker are critical sections. \<^verbatim>\<open>camera_hint_acquire\<close> reads the clock before it takes
  the lock, so its time may lag behind. Times are nanoseconds and, like handles, integers: they
  stay far from the limits of their C types except where the wrap of the handle counter is
  written out. The search for a free handle is a loop that need not end by its form alone:
  it is a partial function, and \<open>None\<close> stands for not returning.
\<close>

section \<open>Data\<close>

definition kHintCameraOpen :: int where "kHintCameraOpen = 0x1337"
definition kHintCameraClose :: int where "kHintCameraClose = 0x1338"
definition kHintCameraSnapshot :: int where "kHintCameraSnapshot = 0x1339"
definition kMaxTimedMs :: int where "kMaxTimedMs = 5000"
definition kMaxHoldMs :: int where "kMaxHoldMs = 2000"
definition kFirstHandle :: int where "kFirstHandle = 0x10000"
definition kMaxRequests :: nat where "kMaxRequests = 32"
definition INT_MAX :: int where "INT_MAX = 2147483647"

datatype BoostIndex = kLaunch | kShot

text \<open>\<^verbatim>\<open>kBoostCount\<close> and the order of the enumeration.\<close>

definition boost_indices :: "BoostIndex list" where
  "boost_indices = [kLaunch, kShot]"

record Request =
  handle :: int \<comment> \<open>0: free\<close>
  boost :: BoostIndex
  deadline_ns :: int

record Action =
  act_boost :: BoostIndex
  duration_ms :: int

text \<open>
  The locals of \<^verbatim>\<open>worker_main\<close>: whether the power HAL's proxy is held, and, between the two
  sections of a round, the actions planned. \<open>calls\<close> is a ghost log of the \<^verbatim>\<open>setBoost\<close> calls made.
\<close>

record worker_locals =
  power :: bool
  warned :: bool
  failures :: nat
  pending :: "Action list option"
  calls :: "Action list"

record hints =
  gRequests :: "Request list"
  gSentDeadline :: "BoostIndex \<Rightarrow> int"
  gDirty :: bool
  gNextHandle :: int
  gWorkerOnce :: bool
  gWorkerRunning :: bool
  worker :: worker_locals
  clock :: int

definition free_request :: Request where
  "free_request = \<lparr>handle = 0, boost = kLaunch, deadline_ns = 0\<rparr>"

definition initial_hints :: hints where
  "initial_hints = \<lparr>gRequests = replicate kMaxRequests free_request, gSentDeadline = (\<lambda>b. 0),
     gDirty = False, gNextHandle = kFirstHandle, gWorkerOnce = False, gWorkerRunning = False,
     worker = \<lparr>power = False, warned = False, failures = 0, pending = None, calls = []\<rparr>, clock = 0\<rparr>"

section \<open>The request table\<close>

definition boost_for_hint :: "int \<Rightarrow> BoostIndex option" where
  "boost_for_hint hint =
     (if hint = kHintCameraOpen \<or> hint = kHintCameraClose then Some kLaunch
      else if hint = kHintCameraSnapshot then Some kShot
      else None)"

definition succ_handle :: "int \<Rightarrow> int" where
  "succ_handle h = (if h = INT_MAX then kFirstHandle else h + 1)"

text \<open>The handle found and the counter after it.\<close>

partial_function (option) next_handle :: "Request list \<Rightarrow> int \<Rightarrow> (int \<times> int) option" where
  "next_handle requests counter =
     (if list_ex (\<lambda>r. handle r = counter) requests then next_handle requests (succ_handle counter)
      else Some (counter, succ_handle counter))"

declare next_handle.simps [code]

definition next_handle_locked :: "hints \<Rightarrow> (int \<times> hints) option" where
  "next_handle_locked s =
     (case next_handle (gRequests s) (gNextHandle s) of
        None \<Rightarrow> None
      | Some (h, counter) \<Rightarrow> Some (h, s\<lparr>gNextHandle := counter\<rparr>))"

definition wake_worker_locked :: "hints \<Rightarrow> hints" where
  "wake_worker_locked s = s\<lparr>gDirty := True\<rparr>"

definition expire :: "int \<Rightarrow> Request \<Rightarrow> Request" where
  "expire now r = (if handle r \<noteq> 0 \<and> deadline_ns r \<le> now then r\<lparr>handle := 0\<rparr> else r)"

text \<open>The first index of the table with a property.\<close>

fun find_index :: "('a \<Rightarrow> bool) \<Rightarrow> 'a list \<Rightarrow> nat option" where
  "find_index p [] = None"
| "find_index p (x # xs) = (if p x then Some 0 else map_option Suc (find_index p xs))"

definition camera_hint_release :: "int \<Rightarrow> hints \<Rightarrow> int \<times> hints" where
  "camera_hint_release h s =
     (if h < kFirstHandle then (0, s)
      else case find_index (\<lambda>r. handle r = h) (gRequests s) of
        None \<Rightarrow> (0, s)
      | Some i \<Rightarrow>
          (1, wake_worker_locked
                (s\<lparr>gRequests := (gRequests s)[i := (gRequests s ! i)\<lparr>handle := 0\<rparr>]\<rparr>)))"

text \<open>\<open>created\<close>: whether \<^verbatim>\<open>pthread_create\<close> succeeds, should this call start the worker.\<close>

definition start_worker :: "bool \<Rightarrow> hints \<Rightarrow> hints" where
  "start_worker created s =
     (if gWorkerOnce s then s else s\<lparr>gWorkerOnce := True, gWorkerRunning := created\<rparr>)"

definition request_ms :: "int \<Rightarrow> int" where
  "request_ms duration =
     (if duration > 0 then (if duration < kMaxTimedMs then duration else kMaxTimedMs) else kMaxHoldMs)"

text \<open>
  The loop of \<^verbatim>\<open>camera_hint_acquire\<close> leaves the last entry with the handle in \<^verbatim>\<open>slot\<close> and the first
  free one in \<^verbatim>\<open>free_slot\<close>.
\<close>

definition find_slot :: "int \<Rightarrow> Request list \<Rightarrow> nat option" where
  "find_slot h requests =
     map_option (\<lambda>i. length requests - Suc i)
       (find_index (\<lambda>r. handle r \<noteq> 0 \<and> handle r = h) (rev requests))"

definition find_free_slot :: "Request list \<Rightarrow> nat option" where
  "find_free_slot requests = find_index (\<lambda>r. handle r = 0) requests"

definition fill_slot :: "nat \<Rightarrow> int \<Rightarrow> BoostIndex \<Rightarrow> int \<Rightarrow> hints \<Rightarrow> int \<times> hints" where
  "fill_slot i h b deadline s =
     (h, wake_worker_locked (s\<lparr>gRequests := (gRequests s)[i :=
        \<lparr>handle = h, boost = b, deadline_ns = deadline\<rparr>]\<rparr>))"

definition camera_hint_acquire ::
    "bool \<Rightarrow> nat \<Rightarrow> int \<Rightarrow> int \<Rightarrow> int \<Rightarrow> hints \<Rightarrow> (int \<times> hints) option" where
  "camera_hint_acquire created lag h hint duration s =
     (case boost_for_hint hint of
        None \<Rightarrow> Some (0, snd (camera_hint_release h s))
      | Some b \<Rightarrow>
          let s = start_worker created s in
          if \<not> gWorkerRunning s then Some (0, s)
          else let now = clock s - int lag;
                   deadline = now + request_ms duration * 1000000;
                   s = s\<lparr>gRequests := map (expire now) (gRequests s)\<rparr>
            in case find_slot h (gRequests s) of
                 Some i \<Rightarrow> Some (fill_slot i h b deadline s)
               | None \<Rightarrow>
                   (case find_free_slot (gRequests s) of
                      None \<Rightarrow> Some (0, s)
                    | Some i \<Rightarrow>
                        (case next_handle_locked s of
                           None \<Rightarrow> None
                         | Some (h', s) \<Rightarrow> Some (fill_slot i h' b deadline s))))"

section \<open>The worker\<close>

definition ms_until :: "int \<Rightarrow> int \<Rightarrow> int" where
  "ms_until deadline now =
     (let ms = tdiv (deadline - now + 999999) 1000000
      in if ms < 1 then 1 else signed_take_bit 31 ms)"

text \<open>The latest deadline wanted for a boost, 0 if none.\<close>

definition wanted :: "int \<Rightarrow> Request list \<Rightarrow> BoostIndex \<Rightarrow> int" where
  "wanted now requests b =
     fold (\<lambda>r w. if handle r \<noteq> 0 \<and> boost r = b \<and> deadline_ns r > w then deadline_ns r else w)
       (map (expire now) requests) 0"

definition plan_boost :: "int \<Rightarrow> int \<Rightarrow> int \<Rightarrow> BoostIndex \<Rightarrow> Action list" where
  "plan_boost now want sent b =
     (let running = sent > now in
      if want = 0 then (if running then [\<lparr>act_boost = b, duration_ms = - 1\<rparr>] else [])
      else if running \<and> want = sent then []
      else (if running \<and> want < sent then [\<lparr>act_boost = b, duration_ms = - 1\<rparr>] else []) @
        [\<lparr>act_boost = b, duration_ms = ms_until want now\<rparr>])"

definition plan_locked :: "int \<Rightarrow> hints \<Rightarrow> Action list \<times> hints" where
  "plan_locked now s =
     (let want = wanted now (gRequests s) in
      (concat (map (\<lambda>b. plan_boost now (want b) (gSentDeadline s b) b) boost_indices),
       s\<lparr>gRequests := map (expire now) (gRequests s), gSentDeadline := want\<rparr>))"

text \<open>
  \<^verbatim>\<open>send\<close>: \<open>found\<close>, whether the service manager has the power HAL; \<open>status i\<close>, whether the i-th
  call succeeds.
\<close>

fun send_loop :: "(nat \<Rightarrow> bool) \<Rightarrow> nat \<Rightarrow> Action list \<Rightarrow> worker_locals \<Rightarrow> bool \<times> worker_locals" where
  "send_loop status i [] w = (True, w\<lparr>warned := False\<rparr>)"
| "send_loop status i (a # as) w =
     (let w = w\<lparr>calls := calls w @ [a]\<rparr> in
      if \<not> status i then (False, w\<lparr>warned := True, power := False\<rparr>)
      else send_loop status (Suc i) as w)"

definition send :: "bool \<Rightarrow> (nat \<Rightarrow> bool) \<Rightarrow> Action list \<Rightarrow> worker_locals \<Rightarrow> bool \<times> worker_locals" where
  "send found status actions w =
     (let w = (if power w then w else w\<lparr>power := found\<rparr>) in
      if \<not> power w then (False, w\<lparr>warned := True\<rparr>)
      else send_loop status 0 actions w)"

text \<open>
  One round of \<^verbatim>\<open>worker_main\<close>: the section that plans, and the calls with the section after
  them. Other threads may run in between, and the worker sleeps while nothing is dirty.
\<close>

definition worker_plan :: "hints \<Rightarrow> hints" where
  "worker_plan s =
     (if pending (worker s) = None \<and> gWorkerRunning s \<and> gDirty s
      then case plan_locked (clock s) (s\<lparr>gDirty := False\<rparr>) of
        (actions, s) \<Rightarrow> s\<lparr>worker := worker s\<lparr>pending := Some actions\<rparr>\<rparr>
      else s)"

definition worker_deliver :: "bool \<Rightarrow> (nat \<Rightarrow> bool) \<Rightarrow> hints \<Rightarrow> hints" where
  "worker_deliver found status s =
     (case pending (worker s) of
        None \<Rightarrow> s
      | Some actions \<Rightarrow>
          (case (if actions = [] then (True, worker s) else send found status actions (worker s)) of
             (ok, w) \<Rightarrow>
               let w = w\<lparr>pending := None\<rparr> in
               if ok then s\<lparr>worker := w\<lparr>failures := 0\<rparr>\<rparr>
               else let w = w\<lparr>failures := Suc (failures w)\<rparr>;
                        s = s\<lparr>worker := w, gSentDeadline := (\<lambda>b. 0)\<rparr>
                 in if failures w = 1 then s\<lparr>gDirty := True\<rparr> else s))"

section \<open>The client calls\<close>

definition STUB_HANDLE :: int where
  "STUB_HANDLE = 1"

definition handle_or_stub :: "int \<Rightarrow> int" where
  "handle_or_stub h = (if h > 0 then h else STUB_HANDLE)"

definition perf_lock_acq :: "int \<Rightarrow> int" where
  "perf_lock_acq h = handle_or_stub h"

definition perf_lock_rel :: "int \<Rightarrow> hints \<Rightarrow> int \<times> hints" where
  "perf_lock_rel h s = (0, snd (camera_hint_release h s))"

definition perf_lock_acq_rel :: "int \<Rightarrow> int" where
  "perf_lock_acq_rel h = handle_or_stub h"

definition perf_lock_use_profile :: "int \<Rightarrow> int" where
  "perf_lock_use_profile h = handle_or_stub h"

definition perf_hint :: "bool \<Rightarrow> nat \<Rightarrow> int \<Rightarrow> int \<Rightarrow> hints \<Rightarrow> (int \<times> hints) option" where
  "perf_hint created lag hint duration s =
     (case camera_hint_acquire created lag 0 hint duration s of
        None \<Rightarrow> None
      | Some (forwarded, s) \<Rightarrow> Some (if forwarded > 0 then forwarded else STUB_HANDLE, s))"

definition perf_hint_renew :: "bool \<Rightarrow> nat \<Rightarrow> int \<Rightarrow> int \<Rightarrow> int \<Rightarrow> hints \<Rightarrow> (int \<times> hints) option" where
  "perf_hint_renew created lag h hint duration s =
     (case camera_hint_acquire created lag h hint duration s of
        None \<Rightarrow> None
      | Some (forwarded, s) \<Rightarrow> Some (if forwarded > 0 then forwarded else handle_or_stub h, s))"

definition perf_hint_acq_rel :: "int \<Rightarrow> int" where
  "perf_hint_acq_rel h = handle_or_stub h"

definition perf_hint_acq_rel_offload :: "int \<Rightarrow> int" where
  "perf_hint_acq_rel_offload h = handle_or_stub h"

definition perf_hint_offload :: int where
  "perf_hint_offload = STUB_HANDLE"

definition perf_lock_rel_offload :: "int \<Rightarrow> int" where
  "perf_lock_rel_offload h = 0"

definition perf_get_feedback :: int where
  "perf_get_feedback = - 1"

definition perf_get_feedback_extn :: int where
  "perf_get_feedback_extn = - 1"

section \<open>The search for a handle ends\<close>

lemmas hint_consts = kHintCameraOpen_def kHintCameraClose_def kHintCameraSnapshot_def kMaxTimedMs_def
  kMaxHoldMs_def kFirstHandle_def kMaxRequests_def INT_MAX_def STUB_HANDLE_def

definition valid_handle :: "int \<Rightarrow> bool" where
  "valid_handle h \<longleftrightarrow> kFirstHandle \<le> h \<and> h \<le> INT_MAX"

lemma succ_handle_valid: "valid_handle h \<Longrightarrow> valid_handle (succ_handle h)"
  by (auto simp: valid_handle_def succ_handle_def hint_consts)

text \<open>The handles form a cycle; its steps in closed form.\<close>

definition cycle :: int where
  "cycle = INT_MAX - kFirstHandle + 1"

lemma mod_succ:
  fixes x c :: int
  assumes "0 < c"
  shows "(x + 1) mod c = (if x mod c = c - 1 then 0 else x mod c + 1)"
proof -
  have "(x + 1) mod c = (x mod c + 1) mod c" by (simp only: mod_add_left_eq)
  moreover have "0 \<le> x mod c" "x mod c < c" using assms by simp_all
  ultimately show ?thesis by (simp add: mod_pos_pos_trivial)
qed

lemma succ_handle_funpow:
  assumes "valid_handle h"
  shows "(succ_handle ^^ k) h = kFirstHandle + (h - kFirstHandle + int k) mod cycle"
proof (induction k)
  case 0
  then show ?case using assms by (simp add: valid_handle_def cycle_def)
next
  case (Suc k)
  let ?x = "h - kFirstHandle + int k"
  have "0 < cycle" by (simp add: cycle_def hint_consts)
  then have "(?x + 1) mod cycle = (if ?x mod cycle = cycle - 1 then 0 else ?x mod cycle + 1)"
    by (rule mod_succ)
  with Suc show ?case by (simp add: succ_handle_def cycle_def algebra_simps)
qed

lemma succ_handle_distinct:
  assumes "valid_handle h" "n < nat cycle"
  shows "distinct (map (\<lambda>k. (succ_handle ^^ k) h) [0..<Suc n])"
proof -
  have "inj_on (\<lambda>k. (succ_handle ^^ k) h) (set [0..<Suc n])"
  proof (rule inj_onI)
    fix i j assume ij: "i \<in> set [0..<Suc n]" "j \<in> set [0..<Suc n]"
      and "(succ_handle ^^ i) h = (succ_handle ^^ j) h"
    then have "(h - kFirstHandle + int i) mod cycle = (h - kFirstHandle + int j) mod cycle"
      by (simp add: succ_handle_funpow [OF assms(1)])
    then have "cycle dvd int i - int j" by (simp add: mod_eq_dvd_iff)
    moreover have "\<bar>int i - int j\<bar> < cycle" using ij assms(2) by auto
    ultimately show "i = j" using zdvd_imp_le [of cycle "\<bar>int i - int j\<bar>"] by auto
  qed
  then show ?thesis by (simp only: distinct_map distinct_upt)
qed

lemma next_handle_found:
  assumes "(succ_handle ^^ k) c \<notin> handle ` set rs"
  shows "\<exists>j\<le>k. next_handle rs c = Some ((succ_handle ^^ j) c, (succ_handle ^^ Suc j) c) \<and>
    (succ_handle ^^ j) c \<notin> handle ` set rs"
  using assms
proof (induction k arbitrary: c)
  case 0
  then have "\<not> list_ex (\<lambda>r. handle r = c) rs" by (auto simp: list_ex_iff)
  then have "next_handle rs c = Some (c, succ_handle c)" by (subst next_handle.simps) simp
  with 0 show ?case by (intro exI [of _ 0]) simp
next
  case (Suc k)
  show ?case
  proof (cases "list_ex (\<lambda>r. handle r = c) rs")
    case True
    then have e: "next_handle rs c = next_handle rs (succ_handle c)" by (subst next_handle.simps) simp
    have "(succ_handle ^^ k) (succ_handle c) \<notin> handle ` set rs"
      using Suc.prems by (simp add: funpow_swap1)
    from Suc.IH [OF this] obtain j where "j \<le> k"
      "next_handle rs (succ_handle c) = Some ((succ_handle ^^ j) (succ_handle c), (succ_handle ^^ Suc j) (succ_handle c))"
      "(succ_handle ^^ j) (succ_handle c) \<notin> handle ` set rs" by blast
    then show ?thesis unfolding e by (intro exI [of _ "Suc j"]) (simp add: funpow_swap1)
  next
    case False
    then have "next_handle rs c = Some (c, succ_handle c)" by (subst next_handle.simps) simp
    moreover have "c \<notin> handle ` set rs" using False by (auto simp: list_ex_iff)
    ultimately show ?thesis by (intro exI [of _ 0]) simp
  qed
qed

lemma next_handle_ends:
  assumes "valid_handle c" "length rs < nat cycle"
  shows "\<exists>h c'. next_handle rs c = Some (h, c') \<and> valid_handle h \<and> valid_handle c' \<and> h \<notin> handle ` set rs"
proof -
  let ?hs = "map (\<lambda>k. (succ_handle ^^ k) c) [0..<Suc (length rs)]"
  have "card (set ?hs) = Suc (length rs)"
    using distinct_card [OF succ_handle_distinct [OF assms]] by simp
  moreover have "card (handle ` set rs) \<le> length rs"
    by (rule order_trans [OF card_image_le card_length]) simp
  ultimately have "\<not> set ?hs \<subseteq> handle ` set rs"
    using card_mono [of "handle ` set rs" "set ?hs"] by auto
  then obtain k where "(succ_handle ^^ k) c \<notin> handle ` set rs" by auto
  from next_handle_found [OF this] obtain j where
    j: "next_handle rs c = Some ((succ_handle ^^ j) c, (succ_handle ^^ Suc j) c)"
      "(succ_handle ^^ j) c \<notin> handle ` set rs" by blast
  have "valid_handle ((succ_handle ^^ n) c)" for n
    using assms(1) by (induction n) (auto intro: succ_handle_valid)
  from this [of j] this [of "Suc j"] j show ?thesis by blast
qed

section \<open>The table as a finite map\<close>

text \<open>
  What the table promises: a finite map from handles to the boost and the deadline of a request.
\<close>

definition live :: "Request list \<Rightarrow> int \<Rightarrow> (BoostIndex \<times> int) option" where
  "live rs h = (if h = 0 then None else map_option (\<lambda>r. (boost r, deadline_ns r)) (find (\<lambda>r. handle r = h) rs))"

definition live_after :: "int \<Rightarrow> Request list \<Rightarrow> int \<Rightarrow> (BoostIndex \<times> int) option" where
  "live_after now rs h = (case live rs h of None \<Rightarrow> None | Some (b, d) \<Rightarrow> if d \<le> now then None else Some (b, d))"

definition distinct_handles :: "Request list \<Rightarrow> bool" where
  "distinct_handles rs \<longleftrightarrow> distinct (filter (\<lambda>h. h \<noteq> 0) (map handle rs))"

lemma find_index_Some:
  "find_index p xs = Some i \<longleftrightarrow> i < length xs \<and> p (xs ! i) \<and> (\<forall>j<i. \<not> p (xs ! j))"
proof (induction xs arbitrary: i)
  case (Cons x xs)
  show ?case
  proof (cases i)
    case 0
    then show ?thesis by auto
  next
    case (Suc k)
    then show ?thesis using Cons by (auto simp: All_less_Suc2)
  qed
qed simp

lemma find_index_None: "find_index p xs = None \<longleftrightarrow> (\<forall>x\<in>set xs. \<not> p x)"
  by (induction xs) auto

lemma find_slot_Some: "find_slot h rs = Some i \<Longrightarrow> i < length rs \<and> handle (rs ! i) = h \<and> h \<noteq> 0"
  by (auto simp: find_slot_def find_index_Some rev_nth)

lemma find_slot_None: "find_slot h rs = None \<longleftrightarrow> (\<forall>r\<in>set rs. handle r \<noteq> 0 \<longrightarrow> handle r \<noteq> h)"
  by (auto simp: find_slot_def find_index_None)

lemma live_None: "live rs h = None \<longleftrightarrow> h = 0 \<or> h \<notin> handle ` set rs"
  by (auto simp: live_def find_None_iff)

lemma live_0 [simp]: "live rs 0 = None"
  by (simp add: live_def)

lemma live_Cons: "live (r # rs) h = (if handle r = h \<and> h \<noteq> 0 then Some (boost r, deadline_ns r) else live rs h)"
  by (simp add: live_def)

lemma distinct_handles_Cons:
  "distinct_handles (r # rs) \<longleftrightarrow> (handle r = 0 \<or> handle r \<notin> handle ` set rs) \<and> distinct_handles rs"
  by (auto simp: distinct_handles_def)

lemma list_update_handles: "handle ` set (rs[i := r]) \<subseteq> insert (handle r) (handle ` set rs)"
  using set_update_subset_insert [of rs i r] by auto

lemma handle_nth: "i < length rs \<Longrightarrow> handle (rs ! i) = h \<Longrightarrow> h \<in> handle ` set rs"
  by auto

text \<open>Writing an entry whose old handle is free or the same.\<close>

lemma live_update:
  assumes "i < length rs" "distinct_handles rs" "handle r \<noteq> 0"
    and "handle (rs ! i) = handle r \<or> handle (rs ! i) = 0 \<and> handle r \<notin> handle ` set rs"
  shows "live (rs[i := r]) = (live rs)(handle r \<mapsto> (boost r, deadline_ns r))"
    and "distinct_handles (rs[i := r])"
proof -
  have "live (rs[i := r]) = (live rs)(handle r \<mapsto> (boost r, deadline_ns r)) \<and> distinct_handles (rs[i := r])"
    using assms
  proof (induction rs arbitrary: i)
    case (Cons x xs)
    show ?case
    proof (cases i)
      case 0
      with Cons.prems show ?thesis by (auto simp: live_Cons distinct_handles_Cons fun_eq_iff)
    next
      case (Suc k)
      with Cons.prems have k: "k < length xs" "distinct_handles xs"
        "handle (xs ! k) = handle r \<or> handle (xs ! k) = 0 \<and> handle r \<notin> handle ` set xs"
        by (auto simp: distinct_handles_Cons)
      have x: "handle x = 0 \<or> handle x \<notin> handle ` set xs" "handle x \<noteq> handle r"
        using Cons.prems Suc by (auto simp: distinct_handles_Cons dest: handle_nth [OF k(1)])
      from Cons.IH [OF k(1,2) \<open>handle r \<noteq> 0\<close> k(3)] x list_update_handles [of xs k r] Suc
      show ?thesis by (auto simp: live_Cons distinct_handles_Cons fun_eq_iff)
    qed
  qed simp
  then show "live (rs[i := r]) = (live rs)(handle r \<mapsto> (boost r, deadline_ns r))"
    "distinct_handles (rs[i := r])" by simp_all
qed

text \<open>Freeing an entry.\<close>

lemma live_free:
  assumes "i < length rs" "distinct_handles rs" "handle (rs ! i) \<noteq> 0" "handle r = 0"
  shows "live (rs[i := r]) = (live rs)(handle (rs ! i) := None)"
    and "distinct_handles (rs[i := r])"
proof -
  have "live (rs[i := r]) = (live rs)(handle (rs ! i) := None) \<and> distinct_handles (rs[i := r])"
    using assms
  proof (induction rs arbitrary: i)
    case (Cons x xs)
    show ?case
    proof (cases i)
      case 0
      with Cons.prems show ?thesis
        by (auto simp: live_Cons distinct_handles_Cons fun_eq_iff live_None)
    next
      case (Suc k)
      with Cons.prems have k: "k < length xs" "distinct_handles xs" "handle (xs ! k) \<noteq> 0"
        by (auto simp: distinct_handles_Cons)
      have x: "handle x = 0 \<or> handle x \<notin> handle ` set xs" "handle x \<noteq> handle (xs ! k)"
        using Cons.prems Suc by (auto simp: distinct_handles_Cons dest: handle_nth [OF k(1)])
      from Cons.IH [OF k(1,2,3) \<open>handle r = 0\<close>] x list_update_handles [of xs k r] Suc \<open>handle r = 0\<close>
      show ?thesis by (auto simp: live_Cons distinct_handles_Cons fun_eq_iff)
    qed
  qed simp
  then show "live (rs[i := r]) = (live rs)(handle (rs ! i) := None)" "distinct_handles (rs[i := r])"
    by simp_all
qed

lemma expire_handle: "handle (expire now r) = (if deadline_ns r \<le> now then 0 else handle r)"
  by (auto simp: expire_def)

lemma expire_keeps [simp]: "boost (expire now r) = boost r" "deadline_ns (expire now r) = deadline_ns r"
  by (simp_all add: expire_def)

lemma expire_handles: "handle ` set (map (expire now) rs) \<subseteq> insert 0 (handle ` set rs)"
  by (auto simp: expire_handle)

lemma live_expire:
  assumes "distinct_handles rs"
  shows "live (map (expire now) rs) = live_after now rs" and "distinct_handles (map (expire now) rs)"
proof -
  have "live (map (expire now) rs) = live_after now rs \<and> distinct_handles (map (expire now) rs)"
    using assms
  proof (induction rs)
    case Nil
    then show ?case by (simp add: live_def live_after_def distinct_handles_def fun_eq_iff)
  next
    case (Cons r rs)
    then have IH: "live (map (expire now) rs) = live_after now rs" "distinct_handles (map (expire now) rs)"
      and r: "handle r = 0 \<or> handle r \<notin> handle ` set rs" by (auto simp: distinct_handles_Cons)
    have "live (expire now r # map (expire now) rs) h = live_after now (r # rs) h" for h
      using r IH(1) live_None [of rs h]
      by (cases "h = 0") (auto simp: live_Cons live_after_def expire_handle)
    moreover have "distinct_handles (expire now r # map (expire now) rs)"
      using r IH(2) expire_handles [of now rs]
      by (auto simp: distinct_handles_Cons expire_handle)
    ultimately show ?case by (simp add: fun_eq_iff)
  qed
  then show "live (map (expire now) rs) = live_after now rs" "distinct_handles (map (expire now) rs)"
    by simp_all
qed

section \<open>Histories\<close>

text \<open>
  Calls of any threads, rounds of the worker and the passing of time, in any order. A call that
  did not return would leave the state as it is; the invariant rules that out.
\<close>

datatype hint_event =
    Acquire bool nat int int int
  | Release int
  | Plan
  | Deliver bool "nat \<Rightarrow> bool"
  | Tick nat

fun hint_step :: "hints \<Rightarrow> hint_event \<Rightarrow> hints" where
  "hint_step s (Acquire created lag h hint duration) =
     (case camera_hint_acquire created lag h hint duration s of None \<Rightarrow> s | Some (r, s') \<Rightarrow> s')"
| "hint_step s (Release h) = snd (camera_hint_release h s)"
| "hint_step s Plan = worker_plan s"
| "hint_step s (Deliver found status) = worker_deliver found status s"
| "hint_step s (Tick n) = s\<lparr>clock := clock s + int n\<rparr>"

definition request_ok :: "int \<Rightarrow> Request \<Rightarrow> bool" where
  "request_ok t r \<longleftrightarrow> handle r = 0 \<or> valid_handle (handle r) \<and> deadline_ns r \<le> t + kMaxTimedMs * 1000000"

definition action_ok :: "Action \<Rightarrow> bool" where
  "action_ok a \<longleftrightarrow> duration_ms a = - 1 \<or> 1 \<le> duration_ms a \<and> duration_ms a \<le> kMaxTimedMs"

definition table_ok :: "int \<Rightarrow> Request list \<Rightarrow> bool" where
  "table_ok t rs \<longleftrightarrow> length rs = kMaxRequests \<and> distinct_handles rs \<and> list_all (request_ok t) rs"

definition hints_ok :: "hints \<Rightarrow> bool" where
  "hints_ok s \<longleftrightarrow> table_ok (clock s) (gRequests s) \<and> valid_handle (gNextHandle s) \<and> 0 \<le> clock s \<and>
     list_all action_ok (calls (worker s)) \<and>
     (case pending (worker s) of None \<Rightarrow> True
      | Some actions \<Rightarrow> list_all action_ok actions \<and> length actions \<le> 2 * length boost_indices)"

lemma table_ok_expire: "table_ok t rs \<Longrightarrow> table_ok t (map (expire now) rs)"
  by (auto simp: table_ok_def list_all_iff request_ok_def expire_handle live_expire)

lemma table_ok_mono: "table_ok t rs \<Longrightarrow> t \<le> u \<Longrightarrow> table_ok u rs"
  by (fastforce simp: table_ok_def list_all_iff request_ok_def)

lemma list_all_update: "list_all p xs \<Longrightarrow> p x \<Longrightarrow> list_all p (xs[i := x])"
  by (auto simp: list_all_iff dest!: set_update_subset_insert [THEN subsetD])

lemma table_ok_update:
  assumes "table_ok t rs" "i < length rs" "valid_handle (handle r)" "deadline_ns r \<le> t + kMaxTimedMs * 1000000"
    and "handle (rs ! i) = handle r \<or> handle (rs ! i) = 0 \<and> handle r \<notin> handle ` set rs"
  shows "table_ok t (rs[i := r])"
proof -
  have "handle r \<noteq> 0" using assms(3) by (auto simp: valid_handle_def hint_consts)
  with assms show ?thesis
    by (auto simp: table_ok_def request_ok_def live_update intro!: list_all_update)
qed

lemma request_ms_bounds: "0 < request_ms d" "request_ms d \<le> kMaxTimedMs"
  by (simp_all add: request_ms_def hint_consts)

subsection \<open>Releasing and acquiring\<close>

lemma release_spec:
  assumes "hints_ok s" "camera_hint_release h s = (n, s')"
  shows "live (gRequests s') = (live (gRequests s))(h := None)"
    and "n = (if live (gRequests s) h = None then 0 else 1)"
    and "s' = s\<lparr>gRequests := gRequests s', gDirty := (n = 1 \<or> gDirty s)\<rparr>"
    and "table_ok (clock s) (gRequests s')"
proof -
  let ?rs = "gRequests s"
  have ok: "table_ok (clock s) ?rs" "distinct_handles ?rs"
    using assms(1) by (simp_all add: hints_ok_def table_ok_def)
  have "live (gRequests s') = (live ?rs)(h := None) \<and> n = (if live ?rs h = None then 0 else 1) \<and>
    s' = s\<lparr>gRequests := gRequests s', gDirty := (n = 1 \<or> gDirty s)\<rparr> \<and> table_ok (clock s) (gRequests s')"
  proof (cases "h < kFirstHandle \<or> find_index (\<lambda>r. handle r = h) ?rs = None")
    case True
    then have "n = 0" "s' = s" using assms(2)
      by (auto simp: camera_hint_release_def split: if_splits)
    moreover have "live ?rs h = None"
    proof (cases "h < kFirstHandle")
      case h: True
      have "h = 0 \<or> handle r \<noteq> h" if "r \<in> set ?rs" for r
      proof -
        from ok(1) that have "request_ok (clock s) r" by (simp add: table_ok_def list_all_iff)
        with h show ?thesis by (auto simp: request_ok_def valid_handle_def)
      qed
      then show ?thesis by (auto simp: live_None)
    next
      case False
      with True show ?thesis by (auto simp: live_None find_index_None)
    qed
    ultimately show ?thesis using ok by (auto simp: fun_eq_iff)
  next
    case False
    then obtain i where i: "find_index (\<lambda>r. handle r = h) ?rs = Some i" and h: "\<not> h < kFirstHandle" by auto
    then have ii: "i < length ?rs" "handle (?rs ! i) = h" by (auto simp: find_index_Some)
    have "h \<noteq> 0" using h by (simp add: hint_consts)
    then have "live ?rs h \<noteq> None" using ii by (auto simp: live_None dest: handle_nth)
    moreover have "n = 1" "s' = s\<lparr>gRequests := ?rs[i := (?rs ! i)\<lparr>handle := 0\<rparr>], gDirty := True\<rparr>"
      using assms(2) i h by (simp_all add: camera_hint_release_def wake_worker_locked_def)
    moreover have "table_ok (clock s) (?rs[i := (?rs ! i)\<lparr>handle := 0\<rparr>])"
      using ok ii \<open>h \<noteq> 0\<close> by (simp add: table_ok_def live_free list_all_update request_ok_def)
    ultimately show ?thesis using ok(2) ii \<open>h \<noteq> 0\<close> by (simp add: live_free)
  qed
  then show "live (gRequests s') = (live ?rs)(h := None)" "n = (if live ?rs h = None then 0 else 1)"
    "s' = s\<lparr>gRequests := gRequests s', gDirty := (n = 1 \<or> gDirty s)\<rparr>" "table_ok (clock s) (gRequests s')"
    by blast+
qed

text \<open>The cases of an acquisition, on the map.\<close>

definition acquired :: "bool \<Rightarrow> nat \<Rightarrow> int \<Rightarrow> BoostIndex \<Rightarrow> int \<Rightarrow> hints \<Rightarrow> int \<Rightarrow> hints \<Rightarrow> bool" where
  "acquired created lag h b duration s r s' \<longleftrightarrow>
     (let now = clock s - int lag; m = live_after now (gRequests s); m' = live (gRequests s') in
      if \<not> gWorkerRunning s' then r = 0 \<and> m' = live (gRequests s)
      else if r = 0 then m h = None \<and> card (dom m) = kMaxRequests \<and> m' = m
      else m' = m(r \<mapsto> (b, now + request_ms duration * 1000000)) \<and> gDirty s' \<and>
        (if m h = None then m r = None else r = h))"

lemma live_dom: "dom (live rs) = handle ` set rs - {0}"
  using live_None [of rs] by (auto simp: dom_def)

lemma card_live:
  assumes "distinct_handles rs" "\<forall>r\<in>set rs. handle r \<noteq> 0"
  shows "card (dom (live rs)) = length rs"
proof -
  have "distinct (map handle rs)"
    using assms by (simp add: distinct_handles_def filter_id_conv [THEN iffD2])
  then have "card (handle ` set rs) = length rs" using distinct_card [of "map handle rs"] by simp
  moreover have "handle ` set rs - {0} = handle ` set rs" using assms(2) by auto
  ultimately show ?thesis by (simp add: live_dom)
qed

text \<open>What it leaves alone: a change without a wake-up only frees requests that have run out.\<close>

definition acquire_frame :: "bool \<Rightarrow> hints \<Rightarrow> hints \<Rightarrow> bool" where
  "acquire_frame created s s' \<longleftrightarrow>
     s' = (start_worker created s)\<lparr>gRequests := gRequests s', gDirty := gDirty s', gNextHandle := gNextHandle s'\<rparr> \<and>
     (gDirty s' \<or> \<not> gDirty s \<and>
        (gRequests s' = gRequests s \<or> (\<exists>now\<le>clock s. gRequests s' = map (expire now) (gRequests s))))"

text \<open>An acquisition returns, with the case that applies.\<close>

lemma acquire_spec:
  assumes ok: "hints_ok s" and b: "boost_for_hint hint = Some b"
  shows "\<exists>r s'. camera_hint_acquire created lag h hint duration s = Some (r, s') \<and>
    acquired created lag h b duration s r s' \<and> (r = 0 \<or> valid_handle r) \<and>
    table_ok (clock s) (gRequests s') \<and> valid_handle (gNextHandle s') \<and>
    acquire_frame created s s'"
proof (cases "gWorkerRunning (start_worker created s)")
  case False
  then have "camera_hint_acquire created lag h hint duration s = Some (0, start_worker created s)"
    using b by (simp add: camera_hint_acquire_def)
  with ok False show ?thesis
    by (intro exI [of _ 0] exI [of _ "start_worker created s"])
      (auto simp: acquired_def hints_ok_def start_worker_def acquire_frame_def)
next
  case run: True
  let ?w = "start_worker created s"
  let ?now = "clock s - int lag"
  let ?rs = "map (expire ?now) (gRequests s)"
  let ?d = "?now + request_ms duration * 1000000"
  let ?s = "?w\<lparr>gRequests := ?rs\<rparr>"
  have w: "gRequests ?w = gRequests s" "clock ?w = clock s" "gNextHandle ?w = gNextHandle s" "gDirty ?w = gDirty s"
    by (simp_all add: start_worker_def)
  have t0: "table_ok (clock s) (gRequests s)" and c: "valid_handle (gNextHandle s)"
    using ok by (simp_all add: hints_ok_def)
  have t: "table_ok (clock s) ?rs" by (rule table_ok_expire [OF t0])
  have dh: "distinct_handles ?rs" and len: "length ?rs = kMaxRequests" using t by (simp_all add: table_ok_def)
  have lv: "live ?rs = live_after ?now (gRequests s)"
    using t0 by (simp add: table_ok_def live_expire)
  have dl: "?d \<le> clock s + kMaxTimedMs * 1000000" using request_ms_bounds [of duration] by simp
  have fill: ?thesis
    if step: "camera_hint_acquire created lag h hint duration s = Some (fill_slot i r b ?d (?s\<lparr>gNextHandle := c'\<rparr>))"
      and i: "i < length ?rs" "valid_handle r" "valid_handle c'"
        "handle (?rs ! i) = r \<or> handle (?rs ! i) = 0 \<and> r \<notin> handle ` set ?rs"
      and which: "if live ?rs h = None then live ?rs r = None else r = h" for i r c'
  proof -
    let ?r = "\<lparr>handle = r, boost = b, deadline_ns = ?d\<rparr>"
    have r0: "r \<noteq> 0" using i(2) by (auto simp: valid_handle_def hint_consts)
    have "table_ok (clock s) (?rs[i := ?r])" by (rule table_ok_update [OF t i(1)]) (use i dl in simp_all)
    moreover have "live (?rs[i := ?r]) = (live ?rs)(r \<mapsto> (b, ?d))"
      using live_update(1) [OF i(1) dh, of ?r] i(4) r0 by simp
    ultimately show ?thesis using step i(2,3) run r0 which w
      by (intro exI [of _ r] exI [of _ "snd (fill_slot i r b ?d (?s\<lparr>gNextHandle := c'\<rparr>))"])
        (auto simp: fill_slot_def wake_worker_locked_def acquired_def acquire_frame_def lv Let_def)
  qed
  have acq: "camera_hint_acquire created lag h hint duration s =
    (case find_slot h ?rs of Some i \<Rightarrow> Some (fill_slot i h b ?d ?s)
     | None \<Rightarrow> (case find_free_slot ?rs of None \<Rightarrow> Some (0, ?s)
        | Some i \<Rightarrow> (case next_handle_locked ?s of None \<Rightarrow> None
           | Some (h', s) \<Rightarrow> Some (fill_slot i h' b ?d s))))"
    using run b w by (simp add: camera_hint_acquire_def Let_def cong: option.case_cong)
  show ?thesis
  proof (cases "find_slot h ?rs")
    case (Some i)
    from find_slot_Some [OF this] have i: "i < length ?rs" "handle (?rs ! i) = h" "h \<noteq> 0" by auto
    have "request_ok (clock s) (?rs ! i)" using t nth_mem [OF i(1)] by (simp only: table_ok_def list_all_iff)
    with i have v: "valid_handle h" by (simp only: request_ok_def) simp
    have "live ?rs h \<noteq> None" unfolding live_None using handle_nth [OF i(1,2)] i(3) by blast
    moreover have "?s = ?s\<lparr>gNextHandle := gNextHandle s\<rparr>" by (simp add: start_worker_def)
    ultimately show ?thesis using fill [of i h "gNextHandle s"] Some i v c acq by simp
  next
    case None
    note noslot = None
    then have lh: "live ?rs h = None" by (auto simp: live_None find_slot_None)
    show ?thesis
    proof (cases "find_free_slot ?rs")
      case None
      then have "\<forall>r\<in>set ?rs. handle r \<noteq> 0" by (simp only: find_free_slot_def find_index_None)
      from card_live [OF dh this] have "card (dom (live ?rs)) = kMaxRequests" using len by simp
      moreover have "camera_hint_acquire created lag h hint duration s = Some (0, ?s)"
        using acq noslot None by simp
      ultimately show ?thesis using t c run lh w
        by (intro exI [of _ 0] exI [of _ ?s])
          (auto simp: acquired_def acquire_frame_def lv intro!: exI [of _ ?now])
    next
      case (Some i)
      then have i: "i < length ?rs" "handle (?rs ! i) = 0" by (simp_all only: find_free_slot_def find_index_Some)
      have "length ?rs < nat cycle" unfolding len by (simp add: cycle_def hint_consts)
      from next_handle_ends [OF c this] obtain h' c' where
        n: "next_handle ?rs (gNextHandle s) = Some (h', c')" "valid_handle h'" "valid_handle c'" "h' \<notin> handle ` set ?rs"
        by blast
      then have "next_handle_locked ?s = Some (h', ?s\<lparr>gNextHandle := c'\<rparr>)"
        by (simp add: next_handle_locked_def w)
      then have "camera_hint_acquire created lag h hint duration s = Some (fill_slot i h' b ?d (?s\<lparr>gNextHandle := c'\<rparr>))"
        using acq noslot Some by simp
      from fill [OF this i(1) n(2,3)] i(2) n(4) lh show ?thesis by (simp add: live_None)
    qed
  qed
qed

subsection \<open>The worker\<close>

text \<open>The deadlines of the live requests for a boost.\<close>

definition deadlines :: "int \<Rightarrow> Request list \<Rightarrow> BoostIndex \<Rightarrow> int set" where
  "deadlines now rs b = deadline_ns ` {r \<in> set rs. handle r \<noteq> 0 \<and> boost r = b \<and> now < deadline_ns r}"

lemma deadlines_finite [simp]: "finite (deadlines now rs b)"
  by (simp add: deadlines_def)

lemma Max_drop: "finite D \<Longrightarrow> x \<le> w \<Longrightarrow> Max (insert w (insert x D)) = Max (insert w (D :: int set))"
  by (cases "D = {}") (auto simp: max_def)

lemma wanted_fold:
  "0 \<le> w \<Longrightarrow>
   fold (\<lambda>r w. if handle r \<noteq> 0 \<and> boost r = b \<and> deadline_ns r > w then deadline_ns r else w)
     (map (expire now) rs) w = Max (insert w (deadlines now rs b))"
proof (induction rs arbitrary: w)
  case Nil
  then show ?case by (simp add: deadlines_def)
next
  case (Cons r rs)
  let ?on = "handle r \<noteq> 0 \<and> boost r = b \<and> now < deadline_ns r"
  have d: "deadlines now (r # rs) b = (if ?on then insert (deadline_ns r) (deadlines now rs b) else deadlines now rs b)"
    by (auto simp: deadlines_def)
  show ?case
  proof (cases "?on \<and> w < deadline_ns r")
    case True
    then have "Max (insert w (deadlines now (r # rs) b)) = Max (insert (deadline_ns r) (deadlines now rs b))"
      using Max_drop [of "deadlines now rs b" w "deadline_ns r"]
      by (simp add: d insert_commute [of w] del: Max_insert)
    with True Cons.IH [of "deadline_ns r"] Cons.prems show ?thesis by (simp add: expire_handle)
  next
    case False
    then have "Max (insert w (deadlines now (r # rs) b)) = Max (insert w (deadlines now rs b))"
      using Max_drop [of "deadlines now rs b" "deadline_ns r" w] by (auto simp: d not_less simp del: Max_insert)
    moreover have "\<not> (handle (expire now r) \<noteq> 0 \<and> boost r = b \<and> deadline_ns r > w)"
      using False by (auto simp: expire_handle)
    ultimately show ?thesis using Cons.IH [of w] Cons.prems by auto
  qed
qed

lemma wanted_Max: "wanted now rs b = Max (insert 0 (deadlines now rs b))"
  unfolding wanted_def by (rule wanted_fold) simp

lemma wanted_expire: "old \<le> now \<Longrightarrow> wanted now (map (expire old) rs) b = wanted now rs b"
proof -
  assume "old \<le> now"
  then have "deadlines now (map (expire old) rs) b = deadlines now rs b"
    by (force simp: deadlines_def expire_handle image_iff)
  then show ?thesis by (simp add: wanted_Max)
qed

lemma wanted_cases:
  assumes "0 \<le> now"
  obtains "deadlines now rs b = {}" "wanted now rs b = 0"
  | "wanted now rs b \<in> deadlines now rs b" "now < wanted now rs b"
proof (cases "deadlines now rs b = {}")
  case False
  then have "Max (deadlines now rs b) \<in> deadlines now rs b" by (intro Max_in) simp_all
  moreover from this have "now < Max (deadlines now rs b)" by (auto simp: deadlines_def)
  ultimately show ?thesis using False assms that(2) by (simp add: wanted_Max max_def)
qed (simp add: wanted_Max that)

lemma wanted_later:
  assumes "0 \<le> now" "now \<le> later"
  shows "wanted later rs b = (if later < wanted now rs b then wanted now rs b else 0)"
proof -
  have d: "deadlines later rs b = {d \<in> deadlines now rs b. later < d}"
    using assms by (auto simp: deadlines_def)
  have le: "d \<le> wanted now rs b" if "d \<in> deadlines now rs b" for d
    using that by (simp add: wanted_Max)
  show ?thesis
  proof (cases "later < wanted now rs b")
    case True
    then have "wanted now rs b \<in> deadlines now rs b"
      by (cases rule: wanted_cases [OF assms(1), of rs b]) (use assms in simp_all)
    with True le have "Max (insert 0 (deadlines later rs b)) = wanted now rs b"
      using assms unfolding d by (intro Max_eqI) auto
    with True show ?thesis by (simp add: wanted_Max)
  next
    case False
    then have "deadlines later rs b = {}" using le unfolding d by force
    with False show ?thesis by (simp add: wanted_Max)
  qed
qed

lemma wanted_le:
  assumes "table_ok t rs" "0 \<le> t"
  shows "wanted now rs b \<le> t + kMaxTimedMs * 1000000"
proof -
  have "d \<le> t + kMaxTimedMs * 1000000" if "d \<in> deadlines now rs b" for d
    using that assms(1) by (auto simp: deadlines_def table_ok_def list_all_iff request_ok_def)
  moreover have "0 \<le> t + kMaxTimedMs * 1000000" using assms(2) by (simp add: hint_consts)
  ultimately show ?thesis by (simp add: wanted_Max)
qed

lemma ms_until_bounds:
  assumes "now < d" "d \<le> now + kMaxTimedMs * 1000000"
  shows "1 \<le> ms_until d now" "ms_until d now \<le> kMaxTimedMs"
    and "d \<le> now + ms_until d now * 1000000" "now + ms_until d now * 1000000 < d + 1000000"
proof -
  define x where "x = d - now + 999999"
  have x: "x = x div 1000000 * 1000000 + x mod 1000000" "0 \<le> x mod 1000000" "x mod 1000000 < 1000000"
    by simp_all
  have m: "1 \<le> x div 1000000" "x div 1000000 \<le> 5000"
    using assms x by (simp_all add: hint_consts x_def [symmetric]) (simp_all add: x_def)
  then have "signed_take_bit 31 (x div 1000000) = x div 1000000"
    by (intro signed_take_bit_int_eq_self) simp_all
  with m assms have e: "ms_until d now = x div 1000000" by (simp add: ms_until_def tdiv_def Let_def x_def)
  show "1 \<le> ms_until d now" "ms_until d now \<le> kMaxTimedMs" using m by (simp_all add: e hint_consts)
  show "d \<le> now + ms_until d now * 1000000" "now + ms_until d now * 1000000 < d + 1000000"
    unfolding e using x x_def by linarith+
qed

lemma plan_boost_ok:
  assumes "0 \<le> now" "now < w \<or> w = 0" "w \<le> now + kMaxTimedMs * 1000000"
  shows "list_all action_ok (plan_boost now w sent b)" "length (plan_boost now w sent b) \<le> 2"
  using assms ms_until_bounds [of now w]
  by (auto simp: plan_boost_def action_ok_def Let_def)

lemma plan_locked_ok:
  assumes "table_ok now (gRequests s)" "0 \<le> now" "plan_locked now s = (actions, s')"
  shows "list_all action_ok actions" "length actions \<le> 2 * length boost_indices"
    and "table_ok now (gRequests s')"
proof -
  let ?w = "wanted now (gRequests s)"
  have w: "now < ?w b \<or> ?w b = 0" "?w b \<le> now + kMaxTimedMs * 1000000" for b
    using wanted_cases [OF assms(2), of "gRequests s" b] wanted_le [OF assms(1,2)] by auto
  note p = plan_boost_ok [OF assms(2) w(1) w(2)]
  show "list_all action_ok actions" "length actions \<le> 2 * length boost_indices"
    using assms(3) p(1) [of kLaunch] p(1) [of kShot] p(2) [of kLaunch "gSentDeadline s kLaunch" kLaunch]
      p(2) [of kShot "gSentDeadline s kShot" kShot]
    by (auto simp: plan_locked_def boost_indices_def Let_def)
  show "table_ok now (gRequests s')"
    using assms by (auto simp: plan_locked_def Let_def intro: table_ok_expire)
qed

lemma send_loop_frame:
  "send_loop status i as w = (ok, w') \<Longrightarrow> list_all action_ok as \<Longrightarrow> list_all action_ok (calls w) \<Longrightarrow>
   list_all action_ok (calls w') \<and> failures w' = failures w \<and> (ok \<longrightarrow> calls w' = calls w @ as)"
  by (induction status i as w rule: send_loop.induct) (auto simp: Let_def split: if_splits)

lemma send_loop_all:
  "fst (send_loop (\<lambda>i. True) i as w) \<and> calls (snd (send_loop (\<lambda>i. True) i as w)) = calls w @ as"
  by (induction as arbitrary: i w) (simp_all add: Let_def)

lemma send_all:
  "\<exists>w'. send True (\<lambda>i. True) as w = (True, w') \<and> calls w' = calls w @ as"
  using send_loop_all [of 0 as "if power w then w else w\<lparr>power := True\<rparr>"]
  by (cases "send_loop (\<lambda>i. True) 0 as (if power w then w else w\<lparr>power := True\<rparr>)")
    (auto simp: send_def Let_def split: if_splits)

lemma send_frame:
  assumes "send found status as w = (ok, w')" "list_all action_ok as" "list_all action_ok (calls w)"
  shows "list_all action_ok (calls w') \<and> failures w' = failures w \<and> (ok \<longrightarrow> calls w' = calls w @ as)"
  using assms send_loop_frame [of status 0 as "if power w then w else w\<lparr>power := found\<rparr>" ok w']
  by (auto simp: send_def Let_def split: if_splits)

text \<open>The rounds in terms of what they change.\<close>

lemma worker_plan_cases:
  obtains "worker_plan s = s" "\<not> (pending (worker s) = None \<and> gWorkerRunning s \<and> gDirty s)"
  | actions where "pending (worker s) = None" "gDirty s"
      "worker_plan s = s\<lparr>gDirty := False, gRequests := map (expire (clock s)) (gRequests s),
         gSentDeadline := wanted (clock s) (gRequests s), worker := (worker s)\<lparr>pending := Some actions\<rparr>\<rparr>"
      "actions = fst (plan_locked (clock s) s)"
  by (cases "pending (worker s) = None \<and> gWorkerRunning s \<and> gDirty s")
    (auto simp: worker_plan_def plan_locked_def Let_def)

lemma worker_deliver_cases:
  assumes "hints_ok s"
  obtains "worker_deliver found status s = s" "pending (worker s) = None"
  | actions w where "pending (worker s) = Some actions" "list_all action_ok (calls w)"
      "pending w = None" "failures w = 0" "calls w = calls (worker s) @ actions"
      "worker_deliver found status s = s\<lparr>worker := w\<rparr>"
  | actions w where "pending (worker s) = Some actions" "list_all action_ok (calls w)"
      "pending w = None" "failures w = Suc (failures (worker s))"
      "worker_deliver found status s =
         s\<lparr>worker := w, gSentDeadline := (\<lambda>b. 0), gDirty := (failures w = 1 \<or> gDirty s)\<rparr>"
proof (cases "pending (worker s)")
  case (Some actions)
  let ?r = "if actions = [] then (True, worker s) else send found status actions (worker s)"
  have a: "list_all action_ok actions" "list_all action_ok (calls (worker s))"
    using assms Some by (simp_all add: hints_ok_def)
  obtain ok w where r: "?r = (ok, w)" by (cases ?r)
  have w: "list_all action_ok (calls w)" "failures w = failures (worker s)" "ok \<longrightarrow> calls w = calls (worker s) @ actions"
    using r a send_frame [of found status actions "worker s" ok w] by (auto split: if_splits)
  show ?thesis
  proof (cases ok)
    case True
    with Some r w show ?thesis
      by (intro that(2) [of actions "w\<lparr>pending := None, failures := 0\<rparr>"])
        (simp_all add: worker_deliver_def Let_def)
  next
    case False
    with Some r w show ?thesis
      by (intro that(3) [of actions "w\<lparr>pending := None, failures := Suc (failures w)\<rparr>"])
        (simp_all add: worker_deliver_def Let_def)
  qed
qed (simp add: worker_deliver_def that)

subsection \<open>The invariants\<close>

text \<open>
  The worker owes nothing: what the power HAL was last told is what the live requests want.
\<close>

definition in_line :: "hints \<Rightarrow> bool" where
  "in_line s \<longleftrightarrow> (\<forall>b. wanted (clock s) (gRequests s) b = (if gSentDeadline s b > clock s then gSentDeadline s b else 0))"

text \<open>No wake-up is lost: a clean table is in line, unless the last call failed.\<close>

definition no_debt :: "hints \<Rightarrow> bool" where
  "no_debt s \<longleftrightarrow> gDirty s \<or> pending (worker s) = None \<and> failures (worker s) \<noteq> 0 \<or> in_line s"

definition hints_inv :: "hints \<Rightarrow> bool" where
  "hints_inv s \<longleftrightarrow> hints_ok s \<and> no_debt s"

lemma in_line_expire:
  assumes "in_line s" "old \<le> clock s" "s' = s\<lparr>gRequests := map (expire old) (gRequests s), gNextHandle := c\<rparr>"
  shows "in_line s'"
  using assms by (simp add: in_line_def wanted_expire)

lemma in_line_later:
  assumes "in_line s" "0 \<le> clock s"
  shows "in_line (s\<lparr>clock := clock s + int n\<rparr>)"
proof -
  have "wanted (clock s + int n) (gRequests s) b =
    (if gSentDeadline s b > clock s + int n then gSentDeadline s b else 0)" for b
    using assms wanted_later [of "clock s" "clock s + int n" "gRequests s" b] by (auto simp: in_line_def)
  then show ?thesis by (simp add: in_line_def)
qed

lemma in_line_planned:
  assumes "0 \<le> clock s" "gSentDeadline s' = wanted (clock s) (gRequests s)"
    and "gRequests s' = map (expire (clock s)) (gRequests s)" "clock s' = clock s"
  shows "in_line s'"
  unfolding in_line_def
proof
  fix b
  show "wanted (clock s') (gRequests s') b = (if gSentDeadline s' b > clock s' then gSentDeadline s' b else 0)"
    by (cases rule: wanted_cases [OF assms(1), of "gRequests s" b]) (simp_all add: assms wanted_expire)
qed

lemma hints_inv_release:
  assumes "hints_inv s"
  shows "hints_inv (snd (camera_hint_release h s))"
proof -
  obtain n s' where r: "camera_hint_release h s = (n, s')" by fastforce
  have ok: "hints_ok s" using assms by (simp add: hints_inv_def)
  note sp = release_spec [OF ok r]
  show ?thesis
  proof (cases "n = 1")
    case True
    then have e: "s' = s\<lparr>gRequests := gRequests s', gDirty := True\<rparr>" using sp(3) by simp
    have "hints_ok s'" by (subst e) (use ok sp(4) in \<open>simp add: hints_ok_def\<close>)
    moreover have "gDirty s'" by (subst e) simp
    ultimately show ?thesis by (simp add: r hints_inv_def no_debt_def)
  next
    case False
    then have "s' = s" using r by (auto simp: camera_hint_release_def split: if_splits option.splits)
    with assms r show ?thesis by simp
  qed
qed

lemma hints_ok_acquire:
  assumes "hints_ok s" "acquire_frame created s s'" "table_ok (clock s) (gRequests s')" "valid_handle (gNextHandle s')"
  shows "hints_ok s'"
proof -
  have e: "s' = (start_worker created s)\<lparr>gRequests := gRequests s', gDirty := gDirty s', gNextHandle := gNextHandle s'\<rparr>"
    using assms(2) unfolding acquire_frame_def by blast
  show ?thesis by (subst e) (use assms in \<open>simp add: hints_ok_def start_worker_def\<close>)
qed

lemma no_debt_acquire:
  assumes "no_debt s" "acquire_frame created s s'"
  shows "no_debt s'"
proof (cases "gDirty s'")
  case False
  have e: "s' = (start_worker created s)\<lparr>gRequests := gRequests s', gDirty := gDirty s', gNextHandle := gNextHandle s'\<rparr>"
    and d: "\<not> gDirty s" and c: "gRequests s' = gRequests s \<or> (\<exists>now\<le>clock s. gRequests s' = map (expire now) (gRequests s))"
    using assms(2) False unfolding acquire_frame_def by blast+
  have f: "clock s' = clock s" "gSentDeadline s' = gSentDeadline s" "worker s' = worker s"
    by (subst e, simp add: start_worker_def)+
  have "wanted (clock s) (gRequests s') b = wanted (clock s) (gRequests s) b" for b
    using c by (auto simp: wanted_expire)
  then have "in_line s' \<longleftrightarrow> in_line s" by (simp add: in_line_def f)
  then show ?thesis using assms(1) d by (auto simp: no_debt_def f)
qed (simp add: no_debt_def)

lemma hints_inv_step:
  assumes "hints_inv s"
  shows "hints_inv (hint_step s e)"
proof -
  have ok: "hints_ok s" and nd: "no_debt s" and t: "table_ok (clock s) (gRequests s)" "0 \<le> clock s"
    using assms by (simp_all add: hints_inv_def hints_ok_def)
  show ?thesis
  proof (cases e)
    case (Acquire created lag h hint duration)
    show ?thesis
    proof (cases "boost_for_hint hint")
      case None
      then show ?thesis using hints_inv_release [OF assms, of h] Acquire
        by (simp add: camera_hint_acquire_def)
    next
      case (Some b)
      from acquire_spec [OF ok Some, of created lag h duration] obtain r s' where
        "camera_hint_acquire created lag h hint duration s = Some (r, s')"
        "acquire_frame created s s'" "table_ok (clock s) (gRequests s')" "valid_handle (gNextHandle s')" by blast
      then show ?thesis using Acquire ok nd
        by (simp add: hints_inv_def hints_ok_acquire no_debt_acquire)
    qed
  next
    case (Release h)
    then show ?thesis using hints_inv_release [OF assms, of h] by simp
  next
    case Plan
    show ?thesis
    proof (cases rule: worker_plan_cases [of s])
      case 1
      then show ?thesis using assms Plan by simp
    next
      case (2 actions)
      obtain s1 where p: "plan_locked (clock s) s = (actions, s1)" using 2(4) by (cases "plan_locked (clock s) s") simp
      have "hints_ok (worker_plan s)"
        using plan_locked_ok [OF t p] ok table_ok_expire [OF t(1)] by (simp add: 2(3) hints_ok_def)
      moreover have "in_line (worker_plan s)"
        by (rule in_line_planned [OF t(2)]) (simp_all add: 2(3))
      ultimately show ?thesis using Plan by (simp add: hints_inv_def no_debt_def)
    qed
  next
    case (Deliver found status)
    show ?thesis
    proof (cases rule: worker_deliver_cases [OF ok, of found status])
      case 1
      then show ?thesis using assms Deliver by simp
    next
      case (2 actions w)
      have "hints_ok (s\<lparr>worker := w\<rparr>)" using ok 2 by (simp add: hints_ok_def)
      moreover have "no_debt (s\<lparr>worker := w\<rparr>)" using nd 2(1,4) by (auto simp: no_debt_def in_line_def)
      ultimately show ?thesis using Deliver 2(6) by (simp add: hints_inv_def)
    next
      case (3 actions w)
      then show ?thesis using Deliver ok by (simp add: hints_inv_def hints_ok_def no_debt_def)
    qed
  next
    case (Tick n)
    have "table_ok (clock s + int n) (gRequests s)" using t by (intro table_ok_mono [OF t(1)]) simp
    then have "hints_ok (s\<lparr>clock := clock s + int n\<rparr>)" using ok by (simp add: hints_ok_def)
    moreover have "no_debt (s\<lparr>clock := clock s + int n\<rparr>)"
      using nd in_line_later [OF _ t(2), of n] by (auto simp: no_debt_def)
    ultimately show ?thesis using Tick by (simp add: hints_inv_def)
  qed
qed

interpretation hints: step_invariant hint_step hints_inv
  by unfold_locales (rule hints_inv_step)

lemma initial_hints_inv: "hints_inv initial_hints"
proof -
  have "deadlines 0 (replicate kMaxRequests free_request) b = {}" for b
    by (auto simp: deadlines_def free_request_def)
  then have "wanted 0 (replicate kMaxRequests free_request) b = 0" for b
    by (simp add: wanted_Max)
  moreover have "distinct_handles (replicate kMaxRequests free_request)"
    by (simp add: distinct_handles_def free_request_def)
  ultimately show ?thesis
    by (simp add: initial_hints_def hints_inv_def hints_ok_def no_debt_def in_line_def table_ok_def
        request_ok_def valid_handle_def list_all_iff hint_consts free_request_def)
qed

lemmas reachable_inv = hints.run_inv [OF initial_hints_inv]

lemma reachable_ok: "hints_ok (run hint_step initial_hints es)"
  using reachable_inv [of es] by (simp add: hints_inv_def)

section \<open>The interface of the table and the client calls\<close>

text \<open>
  What the client calls rely on: an acquisition returns, with 0 or a handle that is live from
  then on and at least \<open>first\<close>; a release ends the request of its handle only, and does nothing
  below \<open>first\<close>.
\<close>

locale hint_table =
  fixes acquire :: "'a \<Rightarrow> int \<Rightarrow> int \<Rightarrow> int \<Rightarrow> 's \<Rightarrow> (int \<times> 's) option"
    and release :: "int \<Rightarrow> 's \<Rightarrow> int \<times> 's"
    and requests :: "'s \<Rightarrow> int \<Rightarrow> 'v option"
    and ok :: "'s \<Rightarrow> bool"
    and first :: int
  assumes first_pos: "1 < first"
    and acquire_returns: "ok s \<Longrightarrow> \<exists>r s'. acquire x h hint d s = Some (r, s') \<and> ok s' \<and>
      (r = 0 \<or> first \<le> r \<and> requests s' r \<noteq> None)"
    and release_ends: "ok s \<Longrightarrow> release h s = (n, s') \<Longrightarrow> requests s' = (requests s)(h := None) \<and> ok s'"
    and release_small: "h < first \<Longrightarrow> release h s = (0, s)"
begin

lemma forwarded_or_stub:
  assumes "ok s" "0 < stub"
  shows "\<exists>r s'. acquire x h hint d s = Some (r, s') \<and> ok s' \<and> 0 < (if 0 < r then r else stub) \<and>
    ((if 0 < r then r else stub) = stub \<or> requests s' (if 0 < r then r else stub) \<noteq> None)"
proof -
  obtain r s' where "acquire x h hint d s = Some (r, s')" "ok s'" "r = 0 \<or> first \<le> r \<and> requests s' r \<noteq> None"
    using acquire_returns [OF assms(1)] by blast
  then show ?thesis using first_pos assms(2) by (intro exI [of _ r] exI [of _ s']) auto
qed

lemma stub_release: "release 1 s = (0, s)"
  using first_pos by (rule release_small)

end

interpretation table: hint_table "\<lambda>(created, lag). camera_hint_acquire created lag" camera_hint_release
  "\<lambda>s. live (gRequests s)" hints_inv kFirstHandle
proof
  show "1 < kFirstHandle" by (simp add: hint_consts)
  show "\<exists>r s'. (case x of (created, lag) \<Rightarrow> camera_hint_acquire created lag) h hint d s = Some (r, s') \<and>
      hints_inv s' \<and> (r = 0 \<or> kFirstHandle \<le> r \<and> live (gRequests s') r \<noteq> None)"
    if inv: "hints_inv s" for s x h hint d
  proof -
    obtain created lag where x: "x = (created, lag)" by fastforce
    show ?thesis
    proof (cases "boost_for_hint hint")
      case None
      then show ?thesis using hints_inv_release [OF inv, of h]
        by (simp add: x camera_hint_acquire_def)
    next
      case (Some b)
      have "hints_ok s" using inv by (simp add: hints_inv_def)
      from acquire_spec [OF this Some, of created lag h d] obtain r s' where
        a: "camera_hint_acquire created lag h hint d s = Some (r, s')"
          "acquired created lag h b d s r s'" "r = 0 \<or> valid_handle r" by blast
      have "hints_inv s'" using hints_inv_step [OF inv, of "Acquire created lag h hint d"] a(1) by simp
      with a show ?thesis
        by (auto simp: x acquired_def valid_handle_def Let_def split: if_splits)
    qed
  qed
  show "live (gRequests s') = (live (gRequests s))(h := None) \<and> hints_inv s'"
    if "hints_inv s" "camera_hint_release h s = (n, s')" for s h n s'
  proof -
    have "hints_ok s" using that(1) by (simp add: hints_inv_def)
    from release_spec(1) [OF this that(2)] hints_inv_release [OF that(1), of h] that(2)
    show ?thesis by simp
  qed
  show "camera_hint_release h s = (0, s)" if "h < kFirstHandle" for h s
    using that by (simp add: camera_hint_release_def)
qed

abbreviation hints_after :: "hint_event list \<Rightarrow> hints" where
  "hints_after es \<equiv> run hint_step initial_hints es"

section \<open>The power HAL\<close>

text \<open>
  The power HAL is not part of the sources. \<open>hal t a e\<close> is when its boosts end after it is told \<open>a\<close>
  at time \<open>t\<close>, if they ended at \<open>e\<close> before. The comment on \<^verbatim>\<open>plan_locked\<close> names what the code
  relies on: a duration only ever extends a running boost, and a negative one ends it.
\<close>

definition extends_only :: "(int \<Rightarrow> Action \<Rightarrow> (BoostIndex \<Rightarrow> int) \<Rightarrow> BoostIndex \<Rightarrow> int) \<Rightarrow> bool" where
  "extends_only hal \<longleftrightarrow> (\<forall>t b d e.
     hal t \<lparr>act_boost = b, duration_ms = d\<rparr> e =
       e(b := (if d < 0 then min (e b) t else max (e b) (t + d * 1000000))))"

lemma plan_boost_hal:
  assumes hal: "extends_only hal" and t: "now \<le> t" "t \<le> now + delay" "1000000 + delay \<le> slack"
    and w: "now < w \<or> w = 0" "w \<le> now + kMaxTimedMs * 1000000" "0 \<le> now"
    and e: "now < sent \<longrightarrow> sent \<le> e b" "e b < max sent now + slack"
    and e': "e' = fold (hal t) (plan_boost now w sent b) e"
  shows "w = 0 \<or> w \<le> e' b" "e' b < max w now + slack" "b' \<noteq> b \<longrightarrow> e' b' = e b'"
proof -
  have h: "hal t \<lparr>act_boost = b, duration_ms = d\<rparr> x =
    x(b := (if d < 0 then min (x b) t else max (x b) (t + d * 1000000)))" for x d
    using hal unfolding extends_only_def by blast
  have m: "w \<noteq> 0 \<Longrightarrow> 1 \<le> ms_until w now" "w \<noteq> 0 \<Longrightarrow> w \<le> now + ms_until w now * 1000000"
    "w \<noteq> 0 \<Longrightarrow> now + ms_until w now * 1000000 < w + 1000000"
    using ms_until_bounds [of now w] w by auto
  show "w = 0 \<or> w \<le> e' b"
    using m t w e by (auto simp: e' plan_boost_def Let_def h)
  show "e' b < max w now + slack"
    using m t w e by (auto simp: e' plan_boost_def Let_def h max_def min_def split: if_splits)
  show "b' \<noteq> b \<longrightarrow> e' b' = e b'"
    by (auto simp: e' plan_boost_def Let_def h)
qed

section \<open>Properties\<close>

text \<open>
  After every history of calls, worker rounds and failures, the table has its 32 entries, live
  handles are distinct and lie between \<^verbatim>\<open>kFirstHandle\<close> and \<^verbatim>\<open>INT_MAX\<close>, no request reaches more than
  5 seconds ahead, a plan fits the worker's array of actions, and every \<^verbatim>\<open>setBoost\<close> call ever made
  ends a boost or asks for 1 ms to 5 s.
\<close>

theorem hint_table_sound:
  "hints_ok (hints_after es)"
  by (rule reachable_ok)

text \<open>
  C19. Every acquisition returns, the search for an unused handle included. A hint that is not the
  camera's releases the handle and yields 0. A camera hint, with the worker running, renews the
  request of a live handle or enters a new one under a handle no live request has, with the
  bounded deadline, and changes no other live request; it yields 0 exactly when all 32 entries
  are live and the handle is none of theirs.
\<close>

theorem acquire_correct:
  "\<exists>r s'. camera_hint_acquire created lag h hint duration (hints_after es) = Some (r, s') \<and>
    (case boost_for_hint hint of
       None \<Rightarrow> r = 0 \<and> live (gRequests s') = (live (gRequests (hints_after es)))(h := None)
     | Some b \<Rightarrow> acquired created lag h b duration (hints_after es) r s')"
proof -
  let ?s = "hints_after es"
  have ok: "hints_ok ?s" by (rule reachable_ok)
  show ?thesis
  proof (cases "boost_for_hint hint")
    case None
    obtain n s' where r: "camera_hint_release h ?s = (n, s')" by fastforce
    with None release_spec(1) [OF ok r] show ?thesis by (simp add: camera_hint_acquire_def)
  next
    case (Some b)
    with acquire_spec [OF ok Some, of created lag h duration] show ?thesis by auto
  qed
qed

text \<open>
  C20. The client calls: \<^verbatim>\<open>perf_hint\<close> and \<^verbatim>\<open>perf_hint_renew\<close> return, with a positive handle,
  which is the caller's own, the stub or the handle of a live request; \<^verbatim>\<open>perf_lock_rel\<close> ends
  the request of its handle and no other, and with the stub handle it changes nothing.
\<close>

theorem perf_calls_correct:
  "(\<exists>r s'. perf_hint created lag hint duration (hints_after es) = Some (r, s') \<and> 0 < r \<and>
      (r = STUB_HANDLE \<or> r \<in> dom (live (gRequests s')))) \<and>
    (\<exists>r s'. perf_hint_renew created lag h hint duration (hints_after es) = Some (r, s') \<and> 0 < r \<and>
      (r = handle_or_stub h \<or> r \<in> dom (live (gRequests s')))) \<and>
    live (gRequests (snd (perf_lock_rel h (hints_after es)))) = (live (gRequests (hints_after es)))(h := None) \<and>
    perf_lock_rel STUB_HANDLE (hints_after es) = (0, hints_after es)"
proof -
  let ?s = "hints_after es"
  have inv: "hints_inv ?s" by (rule reachable_inv)
  have p: "0 < STUB_HANDLE" "0 < handle_or_stub h" by (simp_all add: handle_or_stub_def STUB_HANDLE_def)
  have 1: "\<exists>r s'. perf_hint created lag hint duration ?s = Some (r, s') \<and> 0 < r \<and>
      (r = STUB_HANDLE \<or> r \<in> dom (live (gRequests s')))"
    using table.forwarded_or_stub [OF inv p(1), of "(created, lag)" 0 hint duration]
    by (auto simp: perf_hint_def dom_def)
  have 2: "\<exists>r s'. perf_hint_renew created lag h hint duration ?s = Some (r, s') \<and> 0 < r \<and>
      (r = handle_or_stub h \<or> r \<in> dom (live (gRequests s')))"
    using table.forwarded_or_stub [OF inv p(2), of "(created, lag)" h hint duration]
    by (auto simp: perf_hint_renew_def dom_def)
  obtain n s' where r: "camera_hint_release h ?s = (n, s')" by fastforce
  with table.release_ends [OF inv r] 1 2 table.stub_release show ?thesis
    by (simp add: perf_lock_rel_def STUB_HANDLE_def)
qed

text \<open>
  C21. No wake-up is lost: when the worker sleeps after a round without failure, a plan made at
  that moment has no action.
\<close>

theorem asleep_in_line:
  assumes "s = hints_after es"
    and "pending (worker s) = None" "failures (worker s) = 0" "\<not> gDirty s"
  shows "fst (plan_locked (clock s) s) = []"
proof -
  have inv: "hints_inv s" unfolding assms(1) by (rule reachable_inv)
  then have "in_line s" "0 \<le> clock s" using assms(2-) by (auto simp: hints_inv_def no_debt_def hints_ok_def)
  then have "plan_boost (clock s) (wanted (clock s) (gRequests s) b) (gSentDeadline s b) b = []" for b
    by (auto simp: in_line_def plan_boost_def Let_def)
  then show ?thesis by (simp add: plan_locked_def Let_def)
qed

definition opened :: "hint_event list" where
  "opened = [Acquire True 0 0 kHintCameraOpen 1000]"

definition open_told :: "hint_event list" where
  "open_told = opened @ [Plan, Deliver True (\<lambda>i. True), Tick 7]"

theorem asleep_in_line_witness:
  "pending (worker (hints_after open_told)) = None \<and> failures (worker (hints_after open_told)) = 0 \<and>
   \<not> gDirty (hints_after open_told) \<and>
   fst (plan_locked (clock (hints_after open_told)) (hints_after open_told)) = []"
proof -
  have h: "pending (worker (hints_after open_told)) = None" "failures (worker (hints_after open_told)) = 0"
    "\<not> gDirty (hints_after open_told)" by code_simp+
  then show ?thesis using asleep_in_line [OF refl h] by blast
qed

text \<open>
  C22. A power HAL that only extends running boosts is brought in line by a plan: if its boosts
  were in line with what it was told, up to a slack of 1 ms for rounding and the delay of the
  calls, then after the planned calls each boost lasts at least until every live request's
  deadline, and at most the slack longer than the last of them (or than now, if there is none).
\<close>

theorem plan_brings_hal_in_line:
  assumes s: "s = hints_after es" "now = clock s"
    and hal: "extends_only hal" and t: "now \<le> t" "t \<le> now + delay" "1000000 + delay \<le> slack"
    and e: "\<forall>b. (now < gSentDeadline s b \<longrightarrow> gSentDeadline s b \<le> e b) \<and>
          e b < max (gSentDeadline s b) now + slack"
    and e': "e' = fold (hal t) (fst (plan_locked now s)) e"
  shows "(\<forall>d\<in>deadlines now (gRequests s) b. d \<le> e' b) \<and>
    e' b < Max (insert now (deadlines now (gRequests s) b)) + slack"
proof -
  have ok: "table_ok now (gRequests s)" "0 \<le> now"
    unfolding s using reachable_ok [of es] by (simp_all add: hints_ok_def)
  let ?w = "wanted now (gRequests s)"
  let ?p = "\<lambda>b. plan_boost now (?w b) (gSentDeadline s b) b"
  have w: "now < ?w b \<or> ?w b = 0" "?w b \<le> now + kMaxTimedMs * 1000000" for b
    using wanted_cases [OF ok(2), of "gRequests s" b] wanted_le [OF ok] by auto
  let ?e1 = "fold (hal t) (?p kLaunch) e"
  have p: "?w x = 0 \<or> ?w x \<le> fold (hal t) (?p x) f x" "fold (hal t) (?p x) f x < max (?w x) now + slack"
    "y \<noteq> x \<longrightarrow> fold (hal t) (?p x) f y = f y" if "f x = e x" for f x y
    by (rule plan_boost_hal [OF hal t w(1) w(2) ok(2) _ _ refl]; use e that in simp)+
  have f: "e' = fold (hal t) (?p kShot) ?e1"
    by (simp add: e' plan_locked_def boost_indices_def Let_def)
  have one: "?w b = 0 \<or> ?w b \<le> e' b" "e' b < max (?w b) now + slack"
    using p(1,2) [of e kLaunch] p(3) [of e kLaunch kShot] p(1,2) [of ?e1 kShot] p(3) [of ?e1 kShot kLaunch]
    by (cases b; simp add: f)+
  have m: "max (?w b) now = Max (insert now (deadlines now (gRequests s) b))"
    using ok(2) by (cases "deadlines now (gRequests s) b = {}") (simp_all add: wanted_Max max.commute max.left_commute)
  have d: "d \<le> ?w b \<and> 0 < ?w b" if "d \<in> deadlines now (gRequests s) b" for d
  proof -
    have "now < d" using that by (auto simp: deadlines_def)
    moreover have "d \<le> ?w b" using that by (simp add: wanted_Max)
    ultimately show ?thesis using ok(2) by linarith
  qed
  show ?thesis unfolding m [symmetric] using one d by fastforce
qed

definition sample_hal :: "int \<Rightarrow> Action \<Rightarrow> (BoostIndex \<Rightarrow> int) \<Rightarrow> BoostIndex \<Rightarrow> int" where
  "sample_hal t a e = e(act_boost a :=
     (if duration_ms a < 0 then min (e (act_boost a)) t
      else max (e (act_boost a)) (t + duration_ms a * 1000000)))"

theorem plan_brings_hal_in_line_witness:
  "1000000000 \<in> deadlines 0 (gRequests (hints_after opened)) kLaunch \<and>
   1000000000 \<le> fold (sample_hal 5) (fst (plan_locked 0 (hints_after opened))) (\<lambda>b. 0) kLaunch \<and>
   fold (sample_hal 5) (fst (plan_locked 0 (hints_after opened))) (\<lambda>b. 0) kLaunch
     < Max (insert 0 (deadlines 0 (gRequests (hints_after opened)) kLaunch)) + 1000005 \<and>
   fold (sample_hal 5) (fst (plan_locked 0 (hints_after opened))) (\<lambda>b. 0) kLaunch = 1000000005"
proof -
  have hal: "extends_only sample_hal" by (simp add: extends_only_def sample_hal_def)
  have c: "0 = clock (hints_after opened)" by code_simp
  have sent: "gSentDeadline (hints_after opened) kLaunch = 0" "gSentDeadline (hints_after opened) kShot = 0"
    by code_simp+
  have "gSentDeadline (hints_after opened) b = 0" for b using sent by (cases b) simp_all
  then have e: "\<forall>b. (0 < gSentDeadline (hints_after opened) b \<longrightarrow> gSentDeadline (hints_after opened) b \<le> 0) \<and>
    (0 :: int) < max (gSentDeadline (hints_after opened) b) 0 + 1000005" by simp
  have "fold (sample_hal 5) (fst (plan_locked 0 (hints_after opened))) (\<lambda>b. 0) kLaunch = 1000000005"
    "1000000000 \<in> deadlines 0 (gRequests (hints_after opened)) kLaunch"
    by code_simp+
  with plan_brings_hal_in_line [OF refl c hal, of 5 5 1000005 "\<lambda>b. 0", OF _ _ _ e refl, of kLaunch]
  show ?thesis by simp
qed

text \<open>
  C23. The worker gets there: once a request has changed, and whatever became of the calls it was
  making then, one round that the power HAL answers tells it everything planned and leaves the
  worker asleep with nothing owed.
\<close>

theorem worker_settles:
  assumes "s = hints_after es" "gWorkerRunning s" "gDirty s"
    and "s1 = hint_step s (Deliver found status)"
    and "s' = run hint_step s1 [Plan, Deliver True (\<lambda>i. True)]"
  shows "calls (worker s') = calls (worker s1) @ fst (plan_locked (clock s) s1) \<and>
    pending (worker s') = None \<and> \<not> gDirty s' \<and> in_line s'"
proof -
  have inv: "hints_inv s" unfolding assms(1) by (rule reachable_inv)
  then have ok: "hints_ok s" by (simp add: hints_inv_def)
  have s1: "pending (worker s1) = None" "gDirty s1" "gWorkerRunning s1" "clock s1 = clock s"
    by (cases rule: worker_deliver_cases [OF ok, of found status]; use assms in simp)+
  have inv1: "hints_inv s1" unfolding assms(4) by (rule hints_inv_step [OF inv])
  let ?s2 = "worker_plan s1" let ?as = "fst (plan_locked (clock s) s1)"
  have s2: "pending (worker ?s2) = Some ?as" "\<not> gDirty ?s2" "calls (worker ?s2) = calls (worker s1)"
    by (cases rule: worker_plan_cases [of s1]; use s1 in simp)+
  have inv2: "hints_inv ?s2" using hints_inv_step [OF inv1, of Plan] by simp
  then have ok2: "hints_ok ?s2" and line: "in_line ?s2" using s2 by (simp_all add: hints_inv_def no_debt_def)
  obtain w where w: "send True (\<lambda>i. True) ?as (worker ?s2) = (True, w)" "calls w = calls (worker ?s2) @ ?as"
    using send_all by blast
  have s': "s' = worker_deliver True (\<lambda>i. True) ?s2" by (simp add: assms(5))
  have "\<exists>w. s' = ?s2\<lparr>worker := w\<rparr> \<and> pending w = None \<and> calls w = calls (worker s1) @ ?as"
  proof (cases "?as = []")
    case True
    then show ?thesis unfolding s' worker_deliver_def using s2
      by (intro exI [of _ "(worker ?s2)\<lparr>pending := None, failures := 0\<rparr>"]) simp
  next
    case False
    then show ?thesis unfolding s' worker_deliver_def using s2 w
      by (intro exI [of _ "w\<lparr>pending := None, failures := 0\<rparr>"]) simp
  qed
  then show ?thesis using s2(2) line by (auto simp: in_line_def)
qed

theorem worker_settles_witness:
  "gDirty (hints_after opened) \<and>
   calls (worker (hints_after (opened @ [Deliver False (\<lambda>i. True), Plan, Deliver True (\<lambda>i. True)]))) =
     [\<lparr>act_boost = kLaunch, duration_ms = 1000\<rparr>] \<and>
   in_line (hints_after (opened @ [Deliver False (\<lambda>i. True), Plan, Deliver True (\<lambda>i. True)]))"
proof -
  let ?s = "hints_after opened"
  let ?s1 = "hint_step ?s (Deliver False (\<lambda>i. True))"
  have h: "gWorkerRunning ?s" "gDirty ?s" by code_simp+
  have "calls (worker ?s1) @ fst (plan_locked (clock ?s) ?s1) = [\<lparr>act_boost = kLaunch, duration_ms = 1000\<rparr>]"
    by code_simp
  with worker_settles [OF refl h refl refl] h show ?thesis by (simp add: run_append)
qed

end
