(* ===== verification/Tap_SubHal.thy ===== *)
theory Tap_SubHal
  imports FP6_Prelude
begin

text \<open>
  The tap sensors, \<^verbatim>\<open>sensors/TapSubHal.cpp\<close>: two one-shot sensors on the touch controller's
  gestures, and the thread that does all the node I/O.

  The state is what \<^verbatim>\<open>mMutex\<close> guards, the thread's locals and its position in the loop of
  \<^verbatim>\<open>run\<close>, and what is left of each call of the framework. A step is one critical section or the work between
  two of them, also within a call: a call wakes the thread in a step of its own, after its critical section. The results of system calls, the
  contents of the nodes and the clock's readings are arguments of the steps; the constants of the
  sensors interface are the parameter \<open>K\<close>. Times are nanoseconds, 0 stands for none, and the
  arithmetic on them stays within 64 bits.

  Ghost state: \<open>commands\<close>, the values written to \<^verbatim>\<open>gesture_wakeup\<close>; \<open>posted\<close>, what went to the
  framework; \<open>fired\<close>, why; \<open>activations\<close>, how often each sensor was activated; \<open>passes\<close>, what each
  pass over the idle gestures saw.
\<close>

section \<open>Data\<close>

definition kIdleNs :: int where "kIdleNs = 5 * 60000000000"
definition kIdleCheckMs :: int where "kIdleCheckMs = 10000"
definition kEarlyNs :: int where "kEarlyNs = 1000000000"
definition kEarlyDelayNs :: int where "kEarlyDelayNs = 300000000"
definition kEventValues :: nat where "kEventValues = 16"
definition kPermission :: string where "kPermission = ''android.permission.DEVICE_POWER''"

record TapSensor =
  handle :: int
  name :: string
  typeString :: string
  typeOffset :: int
  on :: string
  off :: string
  reportBit :: int
  modeBit :: u64
  holdEarly :: bool

definition kSensors :: "TapSensor list" where
  "kSensors =
     [\<lparr>handle = 1, name = ''Single tap'', typeString = ''de.diamaneos.sensor.single_tap'', typeOffset = 1,
       on = ''1'', off = ''-1'', reportBit = 1, modeBit = 2, holdEarly = False\<rparr>,
      \<lparr>handle = 2, name = ''Double tap'', typeString = ''de.diamaneos.sensor.double_tap'', typeOffset = 2,
       on = ''2'', off = ''-2'', reportBit = 2, modeBit = 4, holdEarly = True\<rparr>]"

text \<open>Constants of the sensors interface.\<close>

record sensors_hal =
  DEVICE_PRIVATE_BASE :: int
  ONE_SHOT_MODE :: nat
  WAKE_UP :: nat

datatype OperationMode = NORMAL | DATA_INJECTION

datatype Result = OK | BAD_VALUE | NO_MEMORY | INVALID_OPERATION

record SensorInfo =
  si_sensorHandle :: int
  si_name :: string
  si_vendor :: string
  si_version :: int
  si_type :: int
  si_typeAsString :: string
  si_maxRange :: int
  si_resolution :: int
  si_power :: int
  si_minDelay :: int
  si_maxDelay :: int
  si_fifoReservedEventCount :: nat
  si_fifoMaxEventCount :: nat
  si_requiredPermission :: string
  si_flags :: nat

record Event =
  timestamp :: int
  sensorHandle :: int
  sensorType :: int
  ev_values :: "int list"

definition typeOf :: "sensors_hal \<Rightarrow> TapSensor \<Rightarrow> int" where
  "typeOf K sensor = DEVICE_PRIVATE_BASE K + typeOffset sensor"

fun indexFrom :: "int \<Rightarrow> nat \<Rightarrow> TapSensor list \<Rightarrow> nat option" where
  "indexFrom h i [] = None"
| "indexFrom h i (sensor # rest) = (if handle sensor = h then Some i else indexFrom h (Suc i) rest)"

definition indexOf :: "int \<Rightarrow> nat option" where
  "indexOf h = indexFrom h 0 kSensors"

definition sensor_info :: "sensors_hal \<Rightarrow> TapSensor \<Rightarrow> SensorInfo" where
  "sensor_info K sensor =
     \<lparr>si_sensorHandle = handle sensor, si_name = name sensor, si_vendor = ''DiamaneOS'', si_version = 1,
      si_type = typeOf K sensor, si_typeAsString = typeString sensor, si_maxRange = 1, si_resolution = 1,
      si_power = 0, si_minDelay = - 1, si_maxDelay = 0, si_fifoReservedEventCount = 0,
      si_fifoMaxEventCount = 0, si_requiredPermission = kPermission,
      si_flags = ONE_SHOT_MODE K OR WAKE_UP K\<rparr>"

definition mSensorInfos :: "sensors_hal \<Rightarrow> SensorInfo list" where
  "mSensorInfos K = map (sensor_info K) kSensors"

section \<open>Reading the nodes\<close>

text \<open>A buffer of \<open>n\<close> bytes filled by a read, as a C string. \<open>None\<close>: the read failed or was empty.\<close>

definition c_string :: "nat \<Rightarrow> string \<Rightarrow> string" where
  "c_string n bytes = takeWhile (\<lambda>c. c \<noteq> CHR 0x00) (take (n - 1) bytes)"

definition is_space :: "char \<Rightarrow> bool" where
  "is_space c \<longleftrightarrow> c \<in> {CHR '' '', CHR 0x09, CHR 0x0A, CHR 0x0B, CHR 0x0C, CHR 0x0D}"

definition atoi :: "string \<Rightarrow> int" where
  "atoi cs =
     (case dropWhile is_space cs of
        [] \<Rightarrow> 0
      | c # rest \<Rightarrow>
          if c = CHR ''-'' then - int (nat_value (takeWhile is_digit rest))
          else int (nat_value (takeWhile is_digit (if c = CHR ''+'' then rest else c # rest))))"

definition readReport :: "string option \<Rightarrow> int option" where
  "readReport content =
     (case content of None \<Rightarrow> None | Some bytes \<Rightarrow> if bytes = [] then None else Some (atoi (c_string 8 bytes)))"

fun strstr :: "string \<Rightarrow> string \<Rightarrow> string option" where
  "strstr [] needle = (if needle = [] then Some [] else None)"
| "strstr (c # cs) needle =
     (if take (length needle) (c # cs) = needle then Some (c # cs) else strstr cs needle)"

definition hex_digit :: "char \<Rightarrow> int option" where
  "hex_digit c =
     (let n = of_char c :: int in
      if 48 \<le> n \<and> n \<le> 57 then Some (n - 48)
      else if 97 \<le> n \<and> n \<le> 102 then Some (n - 87)
      else if 65 \<le> n \<and> n \<le> 70 then Some (n - 55)
      else None)"

fun hex_value :: "int \<Rightarrow> string \<Rightarrow> int" where
  "hex_value acc [] = acc"
| "hex_value acc (c # cs) = (case hex_digit c of None \<Rightarrow> acc | Some d \<Rightarrow> hex_value (16 * acc + d) cs)"

text \<open>\<^verbatim>\<open>strtoul\<close> of base 16, for a 64 bit \<^verbatim>\<open>unsigned long\<close>.\<close>

definition strip_0x :: "string \<Rightarrow> string" where
  "strip_0x cs =
     (case cs of
        z # x # d # rest \<Rightarrow>
          if z = CHR ''0'' \<and> (x = CHR ''x'' \<or> x = CHR ''X'') \<and> hex_digit d \<noteq> None then d # rest else cs
      | _ \<Rightarrow> cs)"

definition strtoul16 :: "string \<Rightarrow> u64" where
  "strtoul16 cs =
     (let cs = dropWhile is_space cs;
          negative = (cs \<noteq> [] \<and> hd cs = CHR ''-'');
          digits = (if cs \<noteq> [] \<and> (hd cs = CHR ''-'' \<or> hd cs = CHR ''+'') then tl cs else cs);
          v = hex_value 0 (strip_0x digits)
      in if v \<ge> 18446744073709551616 then - 1 else if negative then - word_of_int v else word_of_int v)"

definition readMode :: "string option \<Rightarrow> u64 option" where
  "readMode content =
     (case content of
        None \<Rightarrow> None
      | Some bytes \<Rightarrow>
          if bytes = [] then None
          else (case strstr (c_string 32 bytes) ''mode['' of
            None \<Rightarrow> None
          | Some start \<Rightarrow> Some (strtoul16 (drop 5 start))))"

definition anyOf :: "bool list \<Rightarrow> bool" where
  "anyOf flags = list_ex (\<lambda>f. f) flags"

section \<open>The state\<close>

datatype position =
    NotStarted
  | Take \<comment> \<open>taking over the gestures of an earlier process\<close>
  | Top \<comment> \<open>at the wait of the loop, to check its condition\<close>
  | Waiting \<comment> \<open>asleep on the condition variable\<close>
  | Arming nat
  | Idling
  | Polling
  | Reporting int
  | Stopped

datatype part =
    Reset nat bool
  | Mode OperationMode
  | Want nat bool
  | Stop
  | Wake

datatype reason = Live nat | Held nat int int

record pass =
  pass_now :: int
  pass_want :: "bool list"
  pass_low :: bool

record tap =
  mCallback :: "nat option"
  mWantArmed :: "bool list"
  mArmed :: "bool list"
  mEarlyAt :: "int list"
  mEarlyDue :: "int list"
  mReported :: "u32 list"
  mStop :: bool
  mMode :: OperationMode
  mWakeFd :: "nat option" \<comment> \<open>the eventfd's counter\<close>
  mReportFd :: bool
  pos :: position
  armed :: "bool list"
  idleSince :: "int list"
  lowPowerFailed :: bool
  earlyWakelock :: bool
  want :: "bool list"
  callback :: "nat option"
  earlyDue :: int
  timeoutMs :: int
  calls :: "part list list" \<comment> \<open>what is left of each call of the framework\<close>
  commands :: "(string \<times> bool) list"
  posted :: "(nat \<times> Event list) list"
  fired :: "reason list"
  activations :: "nat list"
  passes :: "pass list"

definition initial_tap :: tap where
  "initial_tap = \<lparr>mCallback = None, mWantArmed = [False, False], mArmed = [False, False],
     mEarlyAt = [0, 0], mEarlyDue = [0, 0], mReported = [0, 0], mStop = False, mMode = NORMAL,
     mWakeFd = None, mReportFd = False, pos = NotStarted, armed = [False, False],
     idleSince = [0, 0], lowPowerFailed = False, earlyWakelock = False, want = [False, False],
     callback = None, earlyDue = 0, timeoutMs = 0, calls = [], commands = [], posted = [], fired = [],
     activations = [0, 0], passes = []\<rparr>"

section \<open>The interface\<close>

definition wakeThread :: "tap \<Rightarrow> tap" where
  "wakeThread s =
     s\<lparr>pos := (if pos s = Waiting then Top else pos s), mWakeFd := map_option Suc (mWakeFd s)\<rparr>"

text \<open>
  A call of the framework is the sequence of its parts, each a critical section or the wake-up of the thread,
  which comes after the mutex is released: other calls and steps of the thread fall in between. The critical
  sections, of which one returns early; \<open>eventfd\<close>: whether the eventfd can be created, should the thread start.
\<close>

definition initialize_locked :: "nat \<Rightarrow> bool \<Rightarrow> tap \<Rightarrow> Result option \<times> tap" where
  "initialize_locked cb eventfd s =
     (let s = s\<lparr>mCallback := Some cb, mWantArmed := [False, False], mEarlyAt := [0, 0],
                mEarlyDue := [0, 0], mMode := NORMAL\<rparr> in
      if pos s = NotStarted then
        if \<not> eventfd then (Some NO_MEMORY, s\<lparr>mWakeFd := None\<rparr>)
        else (None, s\<lparr>mWakeFd := Some 0, pos := Take\<rparr>)
      else (None, s))"

definition activate_locked :: "nat \<Rightarrow> bool \<Rightarrow> tap \<Rightarrow> tap" where
  "activate_locked i enabled s =
     s\<lparr>mWantArmed := (mWantArmed s)[i := enabled],
       activations := (if enabled then (activations s)[i := Suc (activations s ! i)] else activations s)\<rparr>"

fun run_part :: "part \<Rightarrow> tap \<Rightarrow> Result option \<times> tap" where
  "run_part (Reset cb eventfd) s = initialize_locked cb eventfd s"
| "run_part (Mode mode) s = (None, s\<lparr>mMode := mode\<rparr>)"
| "run_part (Want i enabled) s = (None, activate_locked i enabled s)"
| "run_part Stop s = (None, s\<lparr>mStop := True\<rparr>)"
| "run_part Wake s = (None, wakeThread s)"

text \<open>The calls: what they return unless a part returns early, and their parts.\<close>

definition initialize :: "nat \<Rightarrow> bool \<Rightarrow> Result \<times> part list" where
  "initialize cb eventfd = (OK, [Reset cb eventfd, Wake])"

definition setOperationMode :: "OperationMode \<Rightarrow> Result \<times> part list" where
  "setOperationMode mode = (OK, [Mode mode])"

definition activate :: "int \<Rightarrow> bool \<Rightarrow> Result \<times> part list" where
  "activate h enabled =
     (case indexOf h of
        None \<Rightarrow> (BAD_VALUE, [])
      | Some i \<Rightarrow> (OK, [Want i enabled, Wake]))"

definition batch :: "int \<Rightarrow> Result" where
  "batch h = (if indexOf h \<noteq> None then OK else BAD_VALUE)"

definition flush :: "int \<Rightarrow> Result" where
  "flush h = BAD_VALUE"

definition injectSensorData_2_1 :: Result where
  "injectSensorData_2_1 = INVALID_OPERATION"

definition registerDirectChannel :: "Result \<times> int" where
  "registerDirectChannel = (INVALID_OPERATION, - 1)"

definition unregisterDirectChannel :: Result where
  "unregisterDirectChannel = INVALID_OPERATION"

definition configDirectReport :: "Result \<times> int" where
  "configDirectReport = (INVALID_OPERATION, 0)"

text \<open>The destructor, up to the join.\<close>

definition destroy :: "part list" where
  "destroy = [Stop, Wake]"

text \<open>The next part of the \<open>k\<close>-th call.\<close>

definition call_step :: "nat \<Rightarrow> tap \<Rightarrow> tap" where
  "call_step k s =
     (if k < length (calls s) \<and> calls s ! k \<noteq> [] then
        (case run_part (hd (calls s ! k)) s of
           (None, s') \<Rightarrow> s'\<lparr>calls := (calls s)[k := tl (calls s ! k)]\<rparr>
         | (Some r, s') \<Rightarrow> s'\<lparr>calls := (calls s)[k := []]\<rparr>)
      else s)"

section \<open>The thread\<close>

text \<open>The results of the calls of one \<^verbatim>\<open>arm\<close>.\<close>

record arm_io =
  report_opens :: bool
  report_content :: "string option"
  node_opens :: bool
  written :: nat

definition writeNode :: "bool \<Rightarrow> nat \<Rightarrow> string \<Rightarrow> tap \<Rightarrow> bool \<times> tap" where
  "writeNode opens n value s =
     (if \<not> opens then (False, s\<lparr>commands := commands s @ [(value, False)]\<rparr>)
      else (n = length value, s\<lparr>commands := commands s @ [(value, n = length value)]\<rparr>))"

definition arm :: "arm_io \<Rightarrow> nat \<Rightarrow> bool \<Rightarrow> tap \<Rightarrow> bool \<times> tap" where
  "arm io i anyArmed s =
     (let s = (if mReportFd s then s else s\<lparr>mReportFd := report_opens io\<rparr>) in
      if \<not> mReportFd s then (False, s)
      else if \<not> anyArmed \<and> readReport (report_content io) = None then (False, s)
      else writeNode (node_opens io) (written io) (on (kSensors ! i)) s)"

definition fire :: "sensors_hal \<Rightarrow> (nat \<Rightarrow> int) \<Rightarrow> reason \<Rightarrow> nat \<Rightarrow> tap \<Rightarrow> Event list \<Rightarrow> tap \<times> Event list" where
  "fire K stamp why i s events =
     (s\<lparr>mWantArmed := (mWantArmed s)[i := False], mReported := (mReported s)[i := mReported s ! i + 1],
        mEarlyAt := (mEarlyAt s)[i := 0], mEarlyDue := (mEarlyDue s)[i := 0],
        fired := fired s @ [why]\<rparr>,
      events @ [\<lparr>timestamp = stamp i, sensorHandle = handle (kSensors ! i),
        sensorType = typeOf K (kSensors ! i),
        ev_values = (replicate kEventValues 0)[0 := - 1, 1 := - 1]\<rparr>])"

text \<open>The body of the loop of \<^verbatim>\<open>fireEarly\<close> for sensor \<open>i\<close>: state, events and next due time.\<close>

definition fireEarly_one ::
    "sensors_hal \<Rightarrow> int \<Rightarrow> (nat \<Rightarrow> int) \<Rightarrow> nat \<Rightarrow> tap \<times> Event list \<times> int \<Rightarrow> tap \<times> Event list \<times> int" where
  "fireEarly_one K now stamp i = (\<lambda>(s, events, next).
     if \<not> mWantArmed s ! i \<or> mEarlyAt s ! i = 0 \<or> mMode s \<noteq> NORMAL then
       (let s = s\<lparr>mEarlyDue := (mEarlyDue s)[i := 0]\<rparr>
        in (if mWantArmed s ! i then s\<lparr>mEarlyAt := (mEarlyAt s)[i := 0]\<rparr> else s, events, next))
     else if mEarlyDue s ! i = 0 \<and> now - mEarlyAt s ! i > kEarlyNs then
       (s\<lparr>mEarlyAt := (mEarlyAt s)[i := 0]\<rparr>, events, next)
     else
       (let s = (if mEarlyDue s ! i = 0 then s\<lparr>mEarlyDue := (mEarlyDue s)[i := now + kEarlyDelayNs]\<rparr> else s) in
        if now - mEarlyDue s ! i > kEarlyDelayNs then
          (s\<lparr>mEarlyAt := (mEarlyAt s)[i := 0], mEarlyDue := (mEarlyDue s)[i := 0]\<rparr>, events, next)
        else if now \<ge> mEarlyDue s ! i then
          (case fire K stamp (Held i (mEarlyAt s ! i) now) i s events of (s, events) \<Rightarrow> (s, events, next))
        else (s, events, if next = 0 \<or> mEarlyDue s ! i < next then mEarlyDue s ! i else next)))"

definition fireEarly :: "sensors_hal \<Rightarrow> int \<Rightarrow> (nat \<Rightarrow> int) \<Rightarrow> tap \<Rightarrow> tap \<times> Event list \<times> int" where
  "fireEarly K now stamp s = fold (fireEarly_one K now stamp) [0..<length kSensors] (s, [], 0)"

definition post :: "nat option \<Rightarrow> Event list \<Rightarrow> tap \<Rightarrow> tap" where
  "post cb events s =
     (case cb of
        None \<Rightarrow> s
      | Some c \<Rightarrow> if events = [] then s else s\<lparr>posted := posted s @ [(c, events)]\<rparr>)"

definition report_one ::
    "sensors_hal \<Rightarrow> (nat \<Rightarrow> int) \<Rightarrow> int \<Rightarrow> nat \<Rightarrow> tap \<times> Event list \<Rightarrow> tap \<times> Event list" where
  "report_one K stamp gestures i = (\<lambda>(s, events).
     if gestures AND reportBit (kSensors ! i) = 0 then (s, events)
     else if mWantArmed s ! i then fire K stamp (Live i) i s events
     else if holdEarly (kSensors ! i) then
       (s\<lparr>mEarlyAt := (mEarlyAt s)[i := stamp i], mEarlyDue := (mEarlyDue s)[i := 0]\<rparr>, events)
     else (s, events))"

definition report :: "sensors_hal \<Rightarrow> (nat \<Rightarrow> int) \<Rightarrow> int \<Rightarrow> tap \<Rightarrow> tap" where
  "report K stamp gestures s =
     (if mMode s \<noteq> NORMAL then s
      else case fold (report_one K stamp gestures) [0..<length kSensors] (s, []) of
        (s, events) \<Rightarrow> post (mCallback s) events s)"

text \<open>The steps of \<^verbatim>\<open>run\<close>, in order. Before the loop:\<close>

definition take_one :: "(nat \<Rightarrow> arm_io) \<Rightarrow> u64 \<Rightarrow> nat \<Rightarrow> tap \<Rightarrow> tap" where
  "take_one ios mode i s =
     (if mode AND modeBit (kSensors ! i) = 0 then s
      else case arm (ios i) i (anyOf (armed s)) s of
        (ok, s) \<Rightarrow> if ok then s\<lparr>armed := (armed s)[i := True]\<rparr> else s)"

definition run_take :: "string option \<Rightarrow> (nat \<Rightarrow> arm_io) \<Rightarrow> tap \<Rightarrow> tap" where
  "run_take content ios s =
     (case readMode content of
        None \<Rightarrow> s
      | Some mode \<Rightarrow> fold (take_one ios mode) [0..<length kSensors] s)\<lparr>pos := Top\<rparr>"

text \<open>The end of the thread: the gestures still on go off.\<close>

definition off_one :: "(nat \<Rightarrow> bool \<times> nat) \<Rightarrow> nat \<Rightarrow> tap \<Rightarrow> tap" where
  "off_one io i s =
     (if armed s ! i then snd (writeNode (fst (io i)) (snd (io i)) (off (kSensors ! i)) s) else s)"

definition run_top ::
    "sensors_hal \<Rightarrow> int \<Rightarrow> (nat \<Rightarrow> int) \<Rightarrow> (nat \<Rightarrow> bool \<times> nat) \<Rightarrow> tap \<Rightarrow> tap" where
  "run_top K now stamp io s =
     (if \<not> (mStop s \<or> anyOf (mWantArmed s) \<or> anyOf (armed s)) then s\<lparr>pos := Waiting\<rparr>
      else if mStop s then fold (off_one io) [0..<length kSensors] (s\<lparr>pos := Stopped\<rparr>)
      else case fireEarly K now stamp s of
        (s, early, due) \<Rightarrow>
          let s = post (mCallback s) early (s\<lparr>earlyDue := due, want := mWantArmed s, callback := mCallback s\<rparr>)
          in s\<lparr>earlyWakelock := (due \<noteq> 0 \<and> (earlyWakelock s \<or> callback s \<noteq> None)), pos := Arming 0\<rparr>)"

definition run_arm :: "arm_io \<Rightarrow> nat \<Rightarrow> tap \<Rightarrow> tap" where
  "run_arm io i s =
     (let s = s\<lparr>pos := (if Suc i < length kSensors then Arming (Suc i) else Idling)\<rparr> in
      if \<not> want s ! i \<or> armed s ! i then s
      else case arm io i (anyOf (armed s)) s of
        (ok, s) \<Rightarrow> if ok then s\<lparr>armed := (armed s)[i := True]\<rparr>
                   else s\<lparr>mWantArmed := (mWantArmed s)[i := False]\<rparr>)"

text \<open>
  The pass over the idle gestures. \<open>low\<close>: the first read of the mode in this pass, which every
  later sensor of the pass uses too.
\<close>

definition idle_one ::
    "int \<Rightarrow> bool \<Rightarrow> (nat \<Rightarrow> bool \<times> nat) \<Rightarrow> nat \<Rightarrow> tap \<times> bool \<Rightarrow> tap \<times> bool" where
  "idle_one now low io i = (\<lambda>(s, idle).
     if \<not> armed s ! i \<or> want s ! i then (s\<lparr>idleSince := (idleSince s)[i := 0]\<rparr>, idle)
     else if \<not> low then (s\<lparr>idleSince := (idleSince s)[i := 0]\<rparr>, True)
     else if idleSince s ! i = 0 then (s\<lparr>idleSince := (idleSince s)[i := now]\<rparr>, True)
     else if now - idleSince s ! i \<ge> kIdleNs then
       (case writeNode (fst (io i)) (snd (io i)) (off (kSensors ! i)) s of
          (ok, s) \<Rightarrow> (s\<lparr>armed := (armed s)[i := False], idleSince := (idleSince s)[i := 0]\<rparr>, idle))
     else (s, True))"

definition low_power :: "string option \<Rightarrow> bool" where
  "low_power content = (case readMode content of None \<Rightarrow> False | Some current \<Rightarrow> current AND 1 \<noteq> 0)"

definition wait_timeout :: "bool \<Rightarrow> int \<Rightarrow> int \<Rightarrow> int" where
  "wait_timeout idle due now =
     (if due \<noteq> 0 then max 0 (min kIdleCheckMs (tdiv (due - now) 1000000 + 1))
      else if idle then kIdleCheckMs
      else - 1)"

definition run_idle ::
    "int \<Rightarrow> int \<Rightarrow> string option \<Rightarrow> (nat \<Rightarrow> bool \<times> nat) \<Rightarrow> tap \<Rightarrow> tap" where
  "run_idle now now' content io s =
     (let reads = list_ex (\<lambda>i. armed s ! i \<and> \<not> want s ! i) [0..<length kSensors];
          s = s\<lparr>lowPowerFailed := (lowPowerFailed s \<or> reads \<and> readMode content = None),
                passes := passes s @ [\<lparr>pass_now = now, pass_want = want s, pass_low = low_power content\<rparr>]\<rparr>
      in case fold (idle_one now (low_power content) io) [0..<length kSensors] (s, False) of
        (s, idle) \<Rightarrow>
          let s = s\<lparr>mArmed := armed s\<rparr> in
          if \<not> anyOf (armed s) then s\<lparr>pos := Top\<rparr>
          else s\<lparr>timeoutMs := wait_timeout idle (earlyDue s) now', pos := Polling\<rparr>)"

text \<open>
  A return of \<^verbatim>\<open>poll\<close>: an error, or whether the eventfd and the report are among what it names,
  with what the report reads as.
\<close>

definition run_poll :: "bool \<Rightarrow> bool \<Rightarrow> bool \<Rightarrow> string option \<Rightarrow> tap \<Rightarrow> tap" where
  "run_poll error woken reported content s =
     (if error then s\<lparr>pos := Top\<rparr>
      else let s = (if woken then s\<lparr>mWakeFd := map_option (\<lambda>n. 0) (mWakeFd s)\<rparr> else s)
        in case (if reported then readReport content else None) of
             None \<Rightarrow> s\<lparr>pos := Top\<rparr>
           | Some gestures \<Rightarrow> if gestures = 0 then s\<lparr>pos := Top\<rparr> else s\<lparr>pos := Reporting gestures\<rparr>)"

section \<open>Histories\<close>

text \<open>
  A call of the framework starts, a call makes its next part, the condition variable wakes the thread
  although nobody notified it, and the steps of the thread, each where the thread stands.
\<close>

datatype tap_event =
    Initialize nat bool
  | SetMode OperationMode
  | Activate int bool
  | Destroy
  | CallStep nat
  | Spurious
  | RunTake "string option" "nat \<Rightarrow> arm_io"
  | RunTop int "nat \<Rightarrow> int" "nat \<Rightarrow> bool \<times> nat"
  | RunArm arm_io
  | RunIdle int int "string option" "nat \<Rightarrow> bool \<times> nat"
  | RunPoll bool bool bool "string option"
  | RunReport "nat \<Rightarrow> int"

definition start_call :: "part list \<Rightarrow> tap \<Rightarrow> tap" where
  "start_call parts s = s\<lparr>calls := calls s @ [parts]\<rparr>"

definition tap_step :: "sensors_hal \<Rightarrow> tap \<Rightarrow> tap_event \<Rightarrow> tap" where
  "tap_step K s e =
     (case e of
        Initialize cb eventfd \<Rightarrow> start_call (snd (initialize cb eventfd)) s
      | SetMode mode \<Rightarrow> start_call (snd (setOperationMode mode)) s
      | Activate h enabled \<Rightarrow> start_call (snd (activate h enabled)) s
      | Destroy \<Rightarrow> start_call destroy s
      | CallStep k \<Rightarrow> call_step k s
      | Spurious \<Rightarrow> if pos s = Waiting then s\<lparr>pos := Top\<rparr> else s
      | RunTake content ios \<Rightarrow> if pos s = Take then run_take content ios s else s
      | RunTop now stamp io \<Rightarrow> if pos s = Top then run_top K now stamp io s else s
      | RunArm io \<Rightarrow> (case pos s of Arming i \<Rightarrow> run_arm io i s | _ \<Rightarrow> s)
      | RunIdle now now' content io \<Rightarrow> if pos s = Idling then run_idle now now' content io s else s
      | RunPoll error woken reported content \<Rightarrow>
          if pos s = Polling then run_poll error woken reported content s else s
      | RunReport stamp \<Rightarrow>
          (case pos s of Reporting g \<Rightarrow> (report K stamp g s)\<lparr>pos := Top\<rparr> | _ \<Rightarrow> s))"

lemmas tap_consts = kIdleNs_def kIdleCheckMs_def kEarlyNs_def kEarlyDelayNs_def

lemma kSensors_length [simp]: "length kSensors = 2"
  by (simp add: kSensors_def)

lemma sensor_cases: "i < 2 \<Longrightarrow> i = 0 \<or> i = (1 :: nat)"
  by auto

lemma kSensors_nth:
  "handle (kSensors ! 0) = 1" "handle (kSensors ! Suc 0) = 2"
  "on (kSensors ! 0) = ''1''" "on (kSensors ! Suc 0) = ''2''"
  "off (kSensors ! 0) = ''-1''" "off (kSensors ! Suc 0) = ''-2''"
  "holdEarly (kSensors ! 0) = False" "holdEarly (kSensors ! Suc 0) = True"
  by (simp_all add: kSensors_def)

lemma indexOf_Some: "indexOf h = Some i \<Longrightarrow> i < 2 \<and> handle (kSensors ! i) = h"
  by (auto simp: indexOf_def kSensors_def split: if_splits)

text \<open>The loops run over the two sensors.\<close>

lemma fold_sensors: "fold f [0..<2] x = f 1 (f 0 x)"
  by (simp add: numeral_2_eq_2)

section \<open>Events\<close>

definition count_events :: "nat \<Rightarrow> Event list \<Rightarrow> nat" where
  "count_events i events = length (filter (\<lambda>e. sensorHandle e = handle (kSensors ! i)) events)"

definition count_posted :: "nat \<Rightarrow> tap \<Rightarrow> nat" where
  "count_posted i s = count_events i (concat (map snd (posted s)))"

fun reason_index :: "reason \<Rightarrow> nat" where
  "reason_index (Live i) = i"
| "reason_index (Held i seen t) = i"

definition count_fired :: "nat \<Rightarrow> tap \<Rightarrow> nat" where
  "count_fired i s = length (filter (\<lambda>r. reason_index r = i) (fired s))"

fun reason_ok :: "reason \<Rightarrow> bool" where
  "reason_ok (Live i) \<longleftrightarrow> i < 2"
| "reason_ok (Held i seen t) \<longleftrightarrow> i < 2 \<and> holdEarly (kSensors ! i) \<and> seen \<noteq> 0 \<and>
     t \<le> seen + kEarlyNs + 2 * kEarlyDelayNs"

definition lengths_ok :: "tap \<Rightarrow> bool" where
  "lengths_ok s \<longleftrightarrow> length (mWantArmed s) = 2 \<and> length (mEarlyAt s) = 2 \<and> length (mEarlyDue s) = 2 \<and>
     length (activations s) = 2 \<and> length (armed s) = 2 \<and> length (idleSince s) = 2 \<and> length (want s) = 2"

definition held_ok :: "nat \<Rightarrow> tap \<Rightarrow> bool" where
  "held_ok i s \<longleftrightarrow> (mEarlyAt s ! i \<noteq> 0 \<longrightarrow> holdEarly (kSensors ! i)) \<and>
     (mEarlyDue s ! i \<noteq> 0 \<longrightarrow> mEarlyAt s ! i \<noteq> 0 \<and> mEarlyDue s ! i \<le> mEarlyAt s ! i + kEarlyNs + kEarlyDelayNs)"

text \<open>What holds of sensor \<open>i\<close> while \<open>events\<close> wait to be posted.\<close>

definition sensor_ok :: "nat \<Rightarrow> tap \<Rightarrow> Event list \<Rightarrow> bool" where
  "sensor_ok i s events \<longleftrightarrow>
     count_fired i s + (if mWantArmed s ! i then 1 else 0) \<le> activations s ! i \<and>
     count_posted i s + count_events i events \<le> count_fired i s \<and> held_ok i s"

definition events_ok :: "tap \<Rightarrow> Event list \<Rightarrow> bool" where
  "events_ok s events \<longleftrightarrow> lengths_ok s \<and> sensor_ok 0 s events \<and> sensor_ok 1 s events \<and> list_all reason_ok (fired s)"

lemma handle_inj: "i < 2 \<Longrightarrow> j < 2 \<Longrightarrow> handle (kSensors ! i) = handle (kSensors ! j) \<longleftrightarrow> i = j"
  using sensor_cases [of i] sensor_cases [of j] by (auto simp: kSensors_nth)

lemma fire_counts:
  assumes "fire K stamp why i s events = (s', events')" "i < 2" "j < 2" "lengths_ok s"
  shows "count_fired j s' = count_fired j s + (if reason_index why = j then 1 else 0)"
    "count_posted j s' = count_posted j s" "activations s' = activations s" "lengths_ok s'"
    "count_events j events' = count_events j events + (if i = j then 1 else 0)"
    "mWantArmed s' ! j \<longleftrightarrow> j \<noteq> i \<and> mWantArmed s ! j" "fired s' = fired s @ [why]"
    "mEarlyAt s' ! j = (if j = i then 0 else mEarlyAt s ! j)"
    "mEarlyDue s' ! j = (if j = i then 0 else mEarlyDue s ! j)"
proof -
  have e: "s' = fst (fire K stamp why i s events)" "events' = snd (fire K stamp why i s events)"
    using assms(1) by simp_all
  note h = handle_inj [OF assms(2,3)]
  show "count_fired j s' = count_fired j s + (if reason_index why = j then 1 else 0)"
    "count_posted j s' = count_posted j s" "activations s' = activations s" "fired s' = fired s @ [why]"
    by (simp_all add: e fire_def count_fired_def count_posted_def)
  show "count_events j events' = count_events j events + (if i = j then 1 else 0)"
    using h by (simp add: e fire_def count_events_def)
  show "lengths_ok s'" using assms(4) by (simp add: e fire_def lengths_ok_def)
  show "mWantArmed s' ! j \<longleftrightarrow> j \<noteq> i \<and> mWantArmed s ! j"
    "mEarlyAt s' ! j = (if j = i then 0 else mEarlyAt s ! j)"
    "mEarlyDue s' ! j = (if j = i then 0 else mEarlyDue s ! j)"
    using assms(2-4) by (simp_all add: e fire_def lengths_ok_def nth_list_update)
qed

lemma fire_ok:
  assumes "events_ok s events" "i < 2" "mWantArmed s ! i" "reason_ok why" "reason_index why = i"
  shows "events_ok (fst (fire K stamp why i s events)) (snd (fire K stamp why i s events))"
proof -
  obtain s' events' where f: "fire K stamp why i s events = (s', events')" by fastforce
  have l: "lengths_ok s" using assms(1) by (simp add: events_ok_def)
  have "sensor_ok j s' events'" if "j < 2" "sensor_ok j s events" for j
    using that(2) assms(3,5) by (auto simp: sensor_ok_def held_ok_def fire_counts [OF f assms(2) that(1) l])
  with assms(1,4) f fire_counts(4,7) [OF f assms(2) assms(2) l] show ?thesis
    by (simp add: events_ok_def)
qed

lemma early_ok:
  assumes "events_ok s events" "i < 2" "a \<noteq> 0 \<longrightarrow> holdEarly (kSensors ! i)"
    and "d \<noteq> 0 \<longrightarrow> a \<noteq> 0 \<and> d \<le> a + kEarlyNs + kEarlyDelayNs"
  shows "events_ok (s\<lparr>mEarlyAt := (mEarlyAt s)[i := a], mEarlyDue := (mEarlyDue s)[i := d]\<rparr>) events"
proof -
  let ?s = "s\<lparr>mEarlyAt := (mEarlyAt s)[i := a], mEarlyDue := (mEarlyDue s)[i := d]\<rparr>"
  have l: "lengths_ok s" "lengths_ok ?s" using assms(1) by (simp_all add: events_ok_def lengths_ok_def)
  have "sensor_ok j ?s events" if "j < 2" "sensor_ok j s events" for j
  proof -
    have "held_ok j ?s" using that l(1) assms(2-)
      by (cases "i = j") (simp_all add: held_ok_def sensor_ok_def lengths_ok_def)
    with that(2) show ?thesis by (simp add: sensor_ok_def count_fired_def count_posted_def)
  qed
  with assms(1) l(2) show ?thesis by (simp add: events_ok_def)
qed

lemma early_drop_ok:
  assumes "events_ok s events" "i < 2"
  shows "events_ok (s\<lparr>mEarlyAt := (mEarlyAt s)[i := 0], mEarlyDue := (mEarlyDue s)[i := 0]\<rparr>) events"
    "events_ok (s\<lparr>mEarlyDue := (mEarlyDue s)[i := 0]\<rparr>) events"
    "mEarlyAt s ! i \<noteq> 0 \<Longrightarrow> now - mEarlyAt s ! i \<le> kEarlyNs \<Longrightarrow>
     events_ok (s\<lparr>mEarlyDue := (mEarlyDue s)[i := now + kEarlyDelayNs]\<rparr>) events"
proof -
  have h: "held_ok i s" using assms(1) sensor_cases [OF assms(2)] by (auto simp: events_ok_def sensor_ok_def)
  show "events_ok (s\<lparr>mEarlyAt := (mEarlyAt s)[i := 0], mEarlyDue := (mEarlyDue s)[i := 0]\<rparr>) events"
    by (rule early_ok [OF assms]) simp_all
  show "events_ok (s\<lparr>mEarlyDue := (mEarlyDue s)[i := 0]\<rparr>) events"
    using early_ok [OF assms, of "mEarlyAt s ! i" 0] h by (simp add: held_ok_def)
  show "events_ok (s\<lparr>mEarlyDue := (mEarlyDue s)[i := now + kEarlyDelayNs]\<rparr>) events"
    if "mEarlyAt s ! i \<noteq> 0" "now - mEarlyAt s ! i \<le> kEarlyNs"
    using early_ok [OF assms, of "mEarlyAt s ! i" "now + kEarlyDelayNs"] h that by (simp add: held_ok_def)
qed

lemma fireEarly_one_ok:
  assumes "events_ok s events" "i < 2" "fireEarly_one K now stamp i (s, events, nxt) = (s', events', nxt')"
  shows "events_ok s' events'"
proof -
  have f: "events_ok (fst (fire K stamp (Held i (mEarlyAt t ! i) now) i t events))
      (snd (fire K stamp (Held i (mEarlyAt t ! i) now) i t events))"
    if "events_ok t events" "mWantArmed t ! i" "mEarlyAt t ! i \<noteq> 0" "mEarlyDue t ! i \<noteq> 0"
      "now - mEarlyDue t ! i \<le> kEarlyDelayNs" for t
  proof (rule fire_ok [OF that(1) assms(2) that(2)])
    have "held_ok i t" using that(1) sensor_cases [OF assms(2)] by (auto simp: events_ok_def sensor_ok_def)
    then show "reason_ok (Held i (mEarlyAt t ! i) now)" using that(3-5) assms(2) by (simp add: held_ok_def)
  qed simp
  let ?due = "s\<lparr>mEarlyDue := (mEarlyDue s)[i := now + kEarlyDelayNs]\<rparr>"
  have due: "events_ok ?due events" if "mEarlyAt s ! i \<noteq> 0" "\<not> now - mEarlyAt s ! i > kEarlyNs"
    using early_drop_ok(3) [OF assms(1,2)] that by simp
  note drop = early_drop_ok(1,2) [OF assms(1,2)]
  show ?thesis
  proof (cases "\<not> mWantArmed s ! i \<or> mEarlyAt s ! i = 0 \<or> mMode s \<noteq> NORMAL")
    case True
    have "s\<lparr>mEarlyDue := x, mEarlyAt := y\<rparr> = s\<lparr>mEarlyAt := y, mEarlyDue := x\<rparr>" for x y by simp
    then have "events_ok (s\<lparr>mEarlyDue := (mEarlyDue s)[i := 0], mEarlyAt := (mEarlyAt s)[i := 0]\<rparr>) events"
      using drop(1) by metis
    with True show ?thesis using assms(3) drop
      by (cases "mWantArmed s ! i") (auto simp: fireEarly_one_def Let_def)
  next
    case False
    then have on: "mWantArmed s ! i" "mEarlyAt s ! i \<noteq> 0" "mMode s = NORMAL" by simp_all
    define t where "t = (if mEarlyDue s ! i = 0 then ?due else s)"
    show ?thesis
    proof (cases "mEarlyDue s ! i = 0 \<and> now - mEarlyAt s ! i > kEarlyNs")
      case True
      then have "s' = s\<lparr>mEarlyAt := (mEarlyAt s)[i := 0], mEarlyDue := (mEarlyDue s)[i := 0]\<rparr>" "events' = events"
        using assms(3) on list_update_id [of "mEarlyDue s" i] by (auto simp: fireEarly_one_def Let_def)
      then show ?thesis using drop(1) by simp
    next
      case False
      have t: "events_ok t events" "mWantArmed t ! i" "mEarlyAt t ! i \<noteq> 0"
        using False due on assms(1) by (auto simp: t_def)
      have t0: "now - mEarlyDue t ! i \<le> kEarlyDelayNs \<Longrightarrow> now \<ge> mEarlyDue t ! i \<Longrightarrow> mEarlyDue t ! i \<noteq> 0"
        using assms(1,2) by (auto simp: t_def events_ok_def lengths_ok_def tap_consts)
      have t1: "events_ok (t\<lparr>mEarlyAt := (mEarlyAt t)[i := 0], mEarlyDue := (mEarlyDue t)[i := 0]\<rparr>) events"
        by (rule early_drop_ok(1) [OF t(1) assms(2)])
      have eq: "fireEarly_one K now stamp i (s, events, nxt) =
        (if now - mEarlyDue t ! i > kEarlyDelayNs then
          (t\<lparr>mEarlyAt := (mEarlyAt t)[i := 0], mEarlyDue := (mEarlyDue t)[i := 0]\<rparr>, events, nxt)
        else if now \<ge> mEarlyDue t ! i then
          (case fire K stamp (Held i (mEarlyAt t ! i) now) i t events of (s, events) \<Rightarrow> (s, events, nxt))
        else (t, events, if nxt = 0 \<or> mEarlyDue t ! i < nxt then mEarlyDue t ! i else nxt))"
        using on False by (cases "mEarlyDue s ! i = 0") (simp_all add: fireEarly_one_def t_def Let_def)
      consider (late) "now - mEarlyDue t ! i > kEarlyDelayNs"
        | (fires) "now - mEarlyDue t ! i \<le> kEarlyDelayNs" "now \<ge> mEarlyDue t ! i" | (waits) "now < mEarlyDue t ! i"
        by linarith
      then show ?thesis
      proof cases
        case late
        then show ?thesis using assms(3) t1 by (simp add: eq)
      next
        case fires
        then show ?thesis using assms(3) f [OF t t0] by (simp add: eq split: prod.splits)
      next
        case waits
        then have "\<not> now - mEarlyDue t ! i > kEarlyDelayNs" by (simp add: tap_consts)
        then show ?thesis using assms(3) t(1) waits by (simp add: eq)
      qed
    qed
  qed
qed

lemma report_one_ok:
  assumes "events_ok s events" "i < 2" "report_one K stamp g i (s, events) = (s', events')"
  shows "events_ok s' events'"
proof -
  have "mWantArmed s ! i \<Longrightarrow> events_ok (fst (fire K stamp (Live i) i s events)) (snd (fire K stamp (Live i) i s events))"
    by (rule fire_ok [OF assms(1,2)]) (simp_all add: assms(2))
  moreover have "events_ok (s\<lparr>mEarlyAt := (mEarlyAt s)[i := stamp i], mEarlyDue := (mEarlyDue s)[i := 0]\<rparr>) events"
    if "holdEarly (kSensors ! i)"
    by (rule early_ok [OF assms(1,2)]) (simp_all add: that)
  ultimately show ?thesis using assms(1,3) by (auto simp: report_one_def split: if_splits)
qed

lemma post_frame:
  "count_posted j (post cb events s) \<le> count_posted j s + count_events j events"
  "mWantArmed (post cb events s) = mWantArmed s" "mEarlyAt (post cb events s) = mEarlyAt s"
  "mEarlyDue (post cb events s) = mEarlyDue s" "activations (post cb events s) = activations s"
  "fired (post cb events s) = fired s" "armed (post cb events s) = armed s" "want (post cb events s) = want s"
  "idleSince (post cb events s) = idleSince s" "commands (post cb events s) = commands s"
  "passes (post cb events s) = passes s" "pos (post cb events s) = pos s" "mWakeFd (post cb events s) = mWakeFd s"
  "earlyDue (post cb events s) = earlyDue s" "mReportFd (post cb events s) = mReportFd s"
  "mStop (post cb events s) = mStop s" "calls (post cb events s) = calls s"
  by (cases cb; simp add: post_def count_posted_def count_events_def)+

lemma post_ok: "events_ok s events \<Longrightarrow> events_ok (post cb events s) []"
proof -
  assume a: "events_ok s events"
  have "sensor_ok j (post cb events s) []" if "sensor_ok j s events" for j
    using that post_frame(1) [of j cb events s]
    by (simp add: sensor_ok_def held_ok_def count_fired_def post_frame(2-) count_events_def [of j "[]"])
  with a show ?thesis by (simp add: events_ok_def lengths_ok_def post_frame(2-))
qed

lemma fireEarly_two:
  assumes "fireEarly K now stamp s = (s', events, due)"
  obtains s1 e1 d1 where "fireEarly_one K now stamp 0 (s, [], 0) = (s1, e1, d1)"
    "fireEarly_one K now stamp 1 (s1, e1, d1) = (s', events, due)"
proof (cases "fireEarly_one K now stamp 0 (s, [], 0)")
  case (fields s1 e1 d1)
  have "fireEarly K now stamp s = fireEarly_one K now stamp 1 (fireEarly_one K now stamp 0 (s, [], 0))"
    unfolding fireEarly_def kSensors_length by (rule fold_sensors)
  then show ?thesis using assms fields that by metis
qed

lemma fireEarly_ok:
  assumes "events_ok s []" "fireEarly K now stamp s = (s', events, due)"
  shows "events_ok s' events"
  using assms(2)
proof (rule fireEarly_two)
  fix s1 e1 d1
  assume 1: "fireEarly_one K now stamp 0 (s, [], 0) = (s1, e1, d1)"
    and 2: "fireEarly_one K now stamp 1 (s1, e1, d1) = (s', events, due)"
  have "events_ok s1 e1" by (rule fireEarly_one_ok [OF assms(1) _ 1]) simp
  then show ?thesis by (rule fireEarly_one_ok [OF _ _ 2]) simp
qed

lemma report_two:
  assumes "mMode s = NORMAL"
  obtains s1 e1 s2 e2 where "report_one K stamp g 0 (s, []) = (s1, e1)"
    "report_one K stamp g 1 (s1, e1) = (s2, e2)" "report K stamp g s = post (mCallback s2) e2 s2"
proof (cases "report_one K stamp g 0 (s, [])")
  case (Pair s1 e1)
  note 1 = Pair
  show ?thesis
  proof (cases "report_one K stamp g 1 (s1, e1)")
    case (Pair s2 e2)
    have "fold (report_one K stamp g) [0..<length kSensors] (s, []) = (s2, e2)"
      unfolding kSensors_length fold_sensors 1 by (rule Pair)
    then have "report K stamp g s = post (mCallback s2) e2 s2"
      unfolding report_def using assms by simp
    then show ?thesis by (rule that [OF 1 Pair])
  qed
qed

lemma report_ok:
  assumes "events_ok s []"
  shows "events_ok (report K stamp g s) []"
proof (cases "mMode s = NORMAL")
  case True
  then show ?thesis
  proof (rule report_two [where K=K and stamp=stamp and g=g])
    fix s1 e1 s2 e2
    assume 1: "report_one K stamp g 0 (s, []) = (s1, e1)" and 2: "report_one K stamp g 1 (s1, e1) = (s2, e2)"
      and 3: "report K stamp g s = post (mCallback s2) e2 s2"
    have "events_ok s1 e1" by (rule report_one_ok [OF assms _ 1]) simp
    then have "events_ok s2 e2" by (rule report_one_ok [OF _ _ 2]) simp
    then show ?thesis unfolding 3 by (rule post_ok)
  qed
qed (simp add: report_def assms)

section \<open>The thread\<close>

text \<open>Whether a gesture is on in the controller, by the values written to it.\<close>

definition gesture_on :: "nat \<Rightarrow> (string \<times> bool) list \<Rightarrow> bool" where
  "gesture_on i cmds =
     fold (\<lambda>(v, ok) b. if ok \<and> v = on (kSensors ! i) then True
            else if ok \<and> v = off (kSensors ! i) then False else b) cmds False"

definition woken :: "tap \<Rightarrow> bool" where
  "woken s \<longleftrightarrow> mWakeFd s \<noteq> None \<and> mWakeFd s \<noteq> Some 0"

text \<open>A call has left its critical section and wakes the thread next.\<close>

definition wake_owed :: "tap \<Rightarrow> bool" where
  "wake_owed s \<longleftrightarrow> list_ex (\<lambda>c. c \<noteq> [] \<and> hd c = Wake) (calls s)"

definition pending :: "tap \<Rightarrow> bool" where
  "pending s \<longleftrightarrow> woken s \<or> wake_owed s"

text \<open>A time since which every pass saw the sensor inactive and the controller in low power.\<close>

definition idle_since :: "nat \<Rightarrow> int \<Rightarrow> pass list \<Rightarrow> bool" where
  "idle_since i t ps \<longleftrightarrow> (\<exists>old new. ps = old @ new \<and> new \<noteq> [] \<and> pass_now (hd new) = t \<and>
     (\<forall>p\<in>set new. \<not> pass_want p ! i \<and> pass_low p))"

text \<open>What the thread has done for sensor \<open>i\<close>, by its position.\<close>

definition served :: "nat \<Rightarrow> tap \<Rightarrow> bool" where
  "served i s \<longleftrightarrow>
     (case pos s of
        Arming k \<Rightarrow> mWantArmed s ! i \<longrightarrow> pending s \<or> want s ! i \<and> (i < k \<longrightarrow> armed s ! i)
      | Idling \<Rightarrow> mWantArmed s ! i \<longrightarrow> pending s \<or> want s ! i \<and> armed s ! i
      | Polling \<Rightarrow> (mWantArmed s ! i \<longrightarrow> pending s \<or> armed s ! i) \<and>
          (timeoutMs s < 0 \<and> armed s ! i \<longrightarrow> want s ! i)
      | Waiting \<Rightarrow> (mWantArmed s ! i \<longrightarrow> wake_owed s) \<and> \<not> armed s ! i
      | _ \<Rightarrow> True)"

definition gesture_ok :: "nat \<Rightarrow> tap \<Rightarrow> bool" where
  "gesture_ok i s \<longleftrightarrow> (pos s \<noteq> Stopped \<longrightarrow> armed s ! i \<longrightarrow> gesture_on i (commands s)) \<and>
     (idleSince s ! i \<noteq> 0 \<longrightarrow> idle_since i (idleSince s ! i) (passes s))"

definition place_ok :: "tap \<Rightarrow> bool" where
  "place_ok s \<longleftrightarrow> (pos s = NotStarted \<or> mWakeFd s \<noteq> None) \<and>
     (case pos s of Arming k \<Rightarrow> k < 2 | Polling \<Rightarrow>
        - 1 \<le> timeoutMs s \<and> timeoutMs s \<le> kIdleCheckMs \<and> (timeoutMs s < 0 \<longrightarrow> earlyDue s = 0) | _ \<Rightarrow> True)"

text \<open>A request to stop is seen, too.\<close>

definition stop_ok :: "tap \<Rightarrow> bool" where
  "stop_ok s \<longleftrightarrow> (mStop s \<longrightarrow>
     (case pos s of Arming k \<Rightarrow> pending s | Idling \<Rightarrow> pending s | Polling \<Rightarrow> pending s | Waiting \<Rightarrow> wake_owed s | _ \<Rightarrow> True))"

text \<open>What can be left of a call.\<close>

definition call_ok :: "part list \<Rightarrow> bool" where
  "call_ok c \<longleftrightarrow> c = [] \<or> c = [Wake] \<or> (\<exists>m. c = [Mode m]) \<or>
     (\<exists>x. c = [x, Wake] \<and> x \<noteq> Wake \<and> (\<forall>i b. x = Want i b \<longrightarrow> i < 2))"

definition tap_ok :: "tap \<Rightarrow> bool" where
  "tap_ok s \<longleftrightarrow> events_ok s [] \<and> place_ok s \<and> stop_ok s \<and> list_all call_ok (calls s) \<and>
     (\<forall>i<2. served i s \<and> gesture_ok i s)"

lemma gesture_on_append [simp]:
  "gesture_on i (cmds @ [(v, ok)]) =
     (if ok \<and> v = on (kSensors ! i) then True else if ok \<and> v = off (kSensors ! i) then False else gesture_on i cmds)"
  by (simp add: gesture_on_def)

lemma on_off_distinct:
  assumes "i < 2" "j < 2"
  shows "on (kSensors ! i) = on (kSensors ! j) \<longleftrightarrow> i = j" "off (kSensors ! i) = off (kSensors ! j) \<longleftrightarrow> i = j"
    "on (kSensors ! i) \<noteq> off (kSensors ! j)" "off (kSensors ! i) \<noteq> on (kSensors ! j)"
  using sensor_cases [OF assms(1)] sensor_cases [OF assms(2)] by (auto simp: kSensors_nth)

lemma idle_since_snoc:
  "idle_since i t (ps @ [p]) \<longleftrightarrow> (\<not> pass_want p ! i \<and> pass_low p) \<and> (idle_since i t ps \<or> t = pass_now p)"
proof
  assume "idle_since i t (ps @ [p])"
  then obtain old new where n: "ps @ [p] = old @ new" "new \<noteq> []" "pass_now (hd new) = t"
    "\<forall>q\<in>set new. \<not> pass_want q ! i \<and> pass_low q" unfolding idle_since_def by blast
  then obtain new' where new: "new = new' @ [p]" by (metis append_butlast_last_id last_appendR last_snoc)
  with n show "(\<not> pass_want p ! i \<and> pass_low p) \<and> (idle_since i t ps \<or> t = pass_now p)"
  proof (cases "new' = []")
    case False
    with n new have "ps = old @ new' \<and> new' \<noteq> [] \<and> pass_now (hd new') = t \<and>
      (\<forall>q\<in>set new'. \<not> pass_want q ! i \<and> pass_low q)" by simp
    with n new show ?thesis unfolding idle_since_def by (metis in_set_conv_decomp)
  qed simp
next
  assume a: "(\<not> pass_want p ! i \<and> pass_low p) \<and> (idle_since i t ps \<or> t = pass_now p)"
  then consider "idle_since i t ps" | "t = pass_now p" by blast
  then show "idle_since i t (ps @ [p])"
  proof cases
    case 1
    then obtain old new where "ps = old @ new" "new \<noteq> []" "pass_now (hd new) = t"
      "\<forall>q\<in>set new. \<not> pass_want q ! i \<and> pass_low q" unfolding idle_since_def by blast
    with a show ?thesis unfolding idle_since_def by (intro exI [of _ old] exI [of _ "new @ [p]"]) auto
  next
    case 2
    with a show ?thesis unfolding idle_since_def by (intro exI [of _ ps] exI [of _ "[p]"]) simp
  qed
qed

text \<open>Firing changes the sensor's own fields, and only ever makes a sensor inactive.\<close>

definition only_fires :: "tap \<Rightarrow> tap \<Rightarrow> bool" where
  "only_fires s s' \<longleftrightarrow>
     s' = s\<lparr>mWantArmed := mWantArmed s', mReported := mReported s', mEarlyAt := mEarlyAt s',
       mEarlyDue := mEarlyDue s', fired := fired s'\<rparr> \<and>
     (\<forall>i<2. mWantArmed s' ! i \<longrightarrow> mWantArmed s ! i) \<and> length (mWantArmed s') = length (mWantArmed s)"

lemma only_fires_refl: "only_fires s s"
  by (simp add: only_fires_def)

lemma only_firesD:
  assumes "only_fires s s'"
  shows "pos s' = pos s" "armed s' = armed s" "want s' = want s" "idleSince s' = idleSince s"
    "commands s' = commands s" "passes s' = passes s" "mWakeFd s' = mWakeFd s" "timeoutMs s' = timeoutMs s"
    "earlyDue s' = earlyDue s" "mCallback s' = mCallback s" "earlyWakelock s' = earlyWakelock s"
    "mStop s' = mStop s" "calls s' = calls s"
    "i < 2 \<Longrightarrow> mWantArmed s' ! i \<Longrightarrow> mWantArmed s ! i"
proof -
  have e: "s' = s\<lparr>mWantArmed := mWantArmed s', mReported := mReported s', mEarlyAt := mEarlyAt s',
       mEarlyDue := mEarlyDue s', fired := fired s'\<rparr>" using assms by (simp only: only_fires_def)
  show "pos s' = pos s" "armed s' = armed s" "want s' = want s" "idleSince s' = idleSince s"
    "commands s' = commands s" "passes s' = passes s" "mWakeFd s' = mWakeFd s" "timeoutMs s' = timeoutMs s"
    "earlyDue s' = earlyDue s" "mCallback s' = mCallback s" "earlyWakelock s' = earlyWakelock s"
    "mStop s' = mStop s" "calls s' = calls s"
    by (subst e, simp)+
  show "i < 2 \<Longrightarrow> mWantArmed s' ! i \<Longrightarrow> mWantArmed s ! i" using assms by (simp add: only_fires_def)
qed

lemma only_fires_trans:
  assumes "only_fires s t" "only_fires t u"
  shows "only_fires s u"
proof -
  have e: "t = s\<lparr>mWantArmed := mWantArmed t, mReported := mReported t, mEarlyAt := mEarlyAt t,
       mEarlyDue := mEarlyDue t, fired := fired t\<rparr>" using assms(1) by (simp only: only_fires_def)
  have "u = t\<lparr>mWantArmed := mWantArmed u, mReported := mReported u, mEarlyAt := mEarlyAt u,
       mEarlyDue := mEarlyDue u, fired := fired u\<rparr>" using assms(2) by (simp only: only_fires_def)
  also have "\<dots> = s\<lparr>mWantArmed := mWantArmed u, mReported := mReported u, mEarlyAt := mEarlyAt u,
       mEarlyDue := mEarlyDue u, fired := fired u\<rparr>" by (subst e) simp
  finally have "u = s\<lparr>mWantArmed := mWantArmed u, mReported := mReported u, mEarlyAt := mEarlyAt u,
       mEarlyDue := mEarlyDue u, fired := fired u\<rparr>" .
  with assms show ?thesis unfolding only_fires_def by auto
qed

lemma nth_update_False: "xs[i := False] ! j \<Longrightarrow> xs ! j"
  by (cases "i < length xs"; cases "i = j") (simp_all add: list_update_beyond)

lemma fire_only: "mWantArmed s ! i \<Longrightarrow> only_fires s (fst (fire K stamp why i s events))"
  by (auto simp: only_fires_def fire_def dest: nth_update_False)

lemma fireEarly_one_only:
  assumes "fireEarly_one K now stamp i (s, events, nxt) = (s', events', nxt')"
  shows "only_fires s s'"
proof -
  have early: "only_fires t (t\<lparr>mEarlyDue := d\<rparr>)" "only_fires t (t\<lparr>mEarlyAt := a\<rparr>)"
    "only_fires t (t\<lparr>mEarlyDue := d, mEarlyAt := a\<rparr>)" "only_fires t (t\<lparr>mEarlyAt := a, mEarlyDue := d\<rparr>)" for t a d
    by (simp_all add: only_fires_def)
  define t where "t = (if mEarlyDue s ! i = 0 then s\<lparr>mEarlyDue := (mEarlyDue s)[i := now + kEarlyDelayNs]\<rparr> else s)"
  have t: "only_fires s t" "mWantArmed t = mWantArmed s" using early(1) only_fires_refl by (auto simp: t_def)
  have f: "only_fires s (fst (fire K stamp (Held i (mEarlyAt t ! i) now) i t events))" if "mWantArmed s ! i"
    using only_fires_trans [OF t(1) fire_only] that t(2) by simp
  have d: "only_fires s (t\<lparr>mEarlyAt := (mEarlyAt t)[i := 0], mEarlyDue := (mEarlyDue t)[i := 0]\<rparr>)"
    by (rule only_fires_trans [OF t(1) early(4)])
  have "s' = s\<lparr>mEarlyDue := (mEarlyDue s)[i := 0]\<rparr> \<or>
    s' = s\<lparr>mEarlyDue := (mEarlyDue s)[i := 0], mEarlyAt := (mEarlyAt s)[i := 0]\<rparr> \<or>
    s' = s\<lparr>mEarlyAt := (mEarlyAt s)[i := 0]\<rparr> \<or> s' = t \<or>
    s' = t\<lparr>mEarlyAt := (mEarlyAt t)[i := 0], mEarlyDue := (mEarlyDue t)[i := 0]\<rparr> \<or>
    mWantArmed s ! i \<and> s' = fst (fire K stamp (Held i (mEarlyAt t ! i) now) i t events)"
    using assms unfolding fireEarly_one_def Let_def prod.case t_def [symmetric]
    by (auto split: if_splits prod.splits)
  with early(1-3) t(1) d f show ?thesis by blast
qed

lemma report_one_only:
  assumes "report_one K stamp g i (s, events) = (s', events')"
  shows "only_fires s s'"
proof -
  have "only_fires s (s\<lparr>mEarlyAt := a, mEarlyDue := d\<rparr>)" for a d by (simp add: only_fires_def)
  moreover have "s' = s \<or> (\<exists>a d. s' = s\<lparr>mEarlyAt := a, mEarlyDue := d\<rparr>) \<or>
    mWantArmed s ! i \<and> s' = fst (fire K stamp (Live i) i s events)"
    using assms unfolding report_one_def prod.case by (auto split: if_splits)
  ultimately show ?thesis using fire_only only_fires_refl by blast
qed

lemma fireEarly_only:
  assumes "fireEarly K now stamp s = (s', events, due)"
  shows "only_fires s s'"
  using assms by (rule fireEarly_two) (blast intro: only_fires_trans fireEarly_one_only)

text \<open>What lies outside the events' fields stays, and a wake-up on its way stays on its way.\<close>

lemma tap_ok_quiet:
  assumes "tap_ok s" "events_ok s' []" "mWakeFd s' = mWakeFd s" "mStop s' = mStop s" "wake_owed s \<Longrightarrow> wake_owed s'"
    and c: "list_all call_ok (calls s')"
    and f: "pos s' = pos s" "armed s' = armed s" "want s' = want s" "idleSince s' = idleSince s"
      "commands s' = commands s" "passes s' = passes s" "timeoutMs s' = timeoutMs s" "earlyDue s' = earlyDue s"
    and w: "\<And>i. i < 2 \<Longrightarrow> mWantArmed s' ! i \<Longrightarrow> mWantArmed s ! i"
  shows "tap_ok s'"
proof -
  have k: "pending s \<Longrightarrow> pending s'" using assms(3,5) by (auto simp: pending_def woken_def)
  have "place_ok s'" "stop_ok s'" using assms(1,3,4,5) f k
    by (cases "pos s"; simp add: tap_ok_def place_ok_def stop_ok_def)+
  moreover have "served i s' \<and> gesture_ok i s'" if i: "i < 2" for i
  proof -
    have "served i s" "gesture_ok i s" using assms(1) i by (simp_all add: tap_ok_def)
    then show ?thesis using w [OF i] k assms(5)
      by (cases "pos s") (auto simp: served_def gesture_ok_def f)
  qed
  ultimately show ?thesis using assms(2) c by (simp add: tap_ok_def)
qed

text \<open>After a critical section the wake-up is on its way.\<close>

lemma tap_ok_owed:
  assumes "tap_ok s" "events_ok s' []" "mWakeFd s' = mWakeFd s" "wake_owed s'" "list_all call_ok (calls s')"
    and f: "pos s' = pos s" "armed s' = armed s" "want s' = want s" "idleSince s' = idleSince s"
      "commands s' = commands s" "passes s' = passes s" "timeoutMs s' = timeoutMs s" "earlyDue s' = earlyDue s"
  shows "tap_ok s'"
  using assms by (auto simp: tap_ok_def place_ok_def stop_ok_def served_def gesture_ok_def f pending_def split: position.splits)

lemma events_ok_cong:
  assumes "events_ok s events" "mWantArmed s' = mWantArmed s" "mEarlyAt s' = mEarlyAt s" "mEarlyDue s' = mEarlyDue s"
    "activations s' = activations s" "posted s' = posted s" "fired s' = fired s"
    "length (armed s') = length (armed s)" "length (idleSince s') = length (idleSince s)" "length (want s') = length (want s)"
  shows "events_ok s' events"
  using assms
  by (simp add: events_ok_def lengths_ok_def sensor_ok_def held_ok_def count_fired_def count_posted_def)

text \<open>The parts of a call, with \<open>c\<close> what is left of the calls.\<close>

lemma tap_ok_Reset:
  assumes "tap_ok s" "wake_owed (s\<lparr>calls := c\<rparr>)" "list_all call_ok c" "list_all call_ok c'"
  shows "case initialize_locked cb eventfd s of
    (None, s') \<Rightarrow> tap_ok (s'\<lparr>calls := c\<rparr>) | (Some _, s') \<Rightarrow> tap_ok (s'\<lparr>calls := c'\<rparr>)"
proof -
  let ?s = "s\<lparr>mCallback := Some cb, mWantArmed := [False, False], mEarlyAt := [0, 0], mEarlyDue := [0, 0], mMode := NORMAL\<rparr>"
  have e: "events_ok ?s []"
    using assms(1) by (simp add: tap_ok_def events_ok_def lengths_ok_def sensor_ok_def held_ok_def count_fired_def count_posted_def)
  show ?thesis
  proof (cases "pos s = NotStarted")
    case True
    have "events_ok (?s\<lparr>mWakeFd := w, pos := q, calls := d\<rparr>) []" "events_ok (?s\<lparr>mWakeFd := w, calls := d\<rparr>) []" for w q d
      by (rule events_ok_cong [OF e]; simp)+
    then show ?thesis using True assms
      by (cases eventfd) (simp_all add: initialize_locked_def Let_def tap_ok_def place_ok_def stop_ok_def served_def gesture_ok_def)
  next
    case False
    have "events_ok (?s\<lparr>calls := c\<rparr>) []" by (rule events_ok_cong [OF e]) simp_all
    then have "tap_ok (?s\<lparr>calls := c\<rparr>)" using assms by (intro tap_ok_owed [OF assms(1)]) (simp_all add: wake_owed_def)
    then show ?thesis using False by (simp add: initialize_locked_def)
  qed
qed

lemma tap_ok_Want:
  assumes "tap_ok s" "wake_owed (s\<lparr>calls := c\<rparr>)" "list_all call_ok c" "i < 2"
  shows "tap_ok ((activate_locked i enabled s)\<lparr>calls := c\<rparr>)"
proof -
  let ?s = "activate_locked i enabled s"
  have a: "events_ok s []" using assms by (simp add: tap_ok_def)
  have l: "lengths_ok s" "lengths_ok ?s" using a by (simp_all add: events_ok_def lengths_ok_def activate_locked_def)
  have "sensor_ok j ?s []" if "j < 2" "sensor_ok j s []" for j
    using that l(1) assms(4) by (cases "i = j"; cases enabled)
      (auto simp: activate_locked_def sensor_ok_def lengths_ok_def held_ok_def count_fired_def count_posted_def split: if_splits)
  then have "events_ok ?s []" using a l(2) by (simp add: events_ok_def activate_locked_def)
  then have "events_ok (?s\<lparr>calls := c\<rparr>) []" by (rule events_ok_cong) simp_all
  then show ?thesis using assms
    by (intro tap_ok_owed [OF assms(1)]) (simp_all add: activate_locked_def wake_owed_def)
qed

lemma tap_ok_Stop:
  assumes "tap_ok s" "wake_owed (s\<lparr>calls := c\<rparr>)" "list_all call_ok c"
  shows "tap_ok (s\<lparr>mStop := True, calls := c\<rparr>)"
proof -
  have "events_ok s []" using assms by (simp add: tap_ok_def)
  then have "events_ok (s\<lparr>mStop := True, calls := c\<rparr>) []" by (rule events_ok_cong) simp_all
  then show ?thesis using assms by (intro tap_ok_owed [OF assms(1)]) (simp_all add: wake_owed_def)
qed

lemma tap_ok_Mode:
  assumes "tap_ok s" "wake_owed s \<Longrightarrow> wake_owed (s\<lparr>calls := c\<rparr>)" "list_all call_ok c"
  shows "tap_ok (s\<lparr>mMode := m, calls := c\<rparr>)"
proof -
  have "events_ok s []" using assms by (simp add: tap_ok_def)
  then have "events_ok (s\<lparr>mMode := m, calls := c\<rparr>) []" by (rule events_ok_cong) simp_all
  then show ?thesis using assms(2,3) by (intro tap_ok_quiet [OF assms(1)]) (simp_all add: wake_owed_def)
qed

lemma tap_ok_Wake:
  assumes "tap_ok s" "list_all call_ok c"
  shows "tap_ok ((wakeThread s)\<lparr>calls := c\<rparr>)"
proof -
  have "events_ok s []" using assms by (simp add: tap_ok_def)
  then have e: "events_ok ((wakeThread s)\<lparr>calls := c\<rparr>) []" by (rule events_ok_cong) (simp_all add: wakeThread_def)
  show ?thesis
  proof (cases "pos s = NotStarted")
    case True
    then show ?thesis using assms e
      by (simp add: wakeThread_def tap_ok_def place_ok_def stop_ok_def served_def gesture_ok_def)
  next
    case False
    then have "mWakeFd s \<noteq> None" using assms(1) by (simp add: tap_ok_def place_ok_def)
    then have "pending ((wakeThread s)\<lparr>calls := c\<rparr>)" by (auto simp: pending_def woken_def wakeThread_def)
    then show ?thesis using assms e \<open>mWakeFd s \<noteq> None\<close>
      by (auto simp: tap_ok_def place_ok_def stop_ok_def served_def gesture_ok_def wakeThread_def split: position.splits)
  qed
qed

lemma owed_update:
  "k < length (calls s) \<Longrightarrow> wake_owed (s\<lparr>calls := (calls s)[k := [Wake]]\<rparr>)"
  "wake_owed s \<Longrightarrow> hd (calls s ! k) \<noteq> Wake \<Longrightarrow> wake_owed (s\<lparr>calls := (calls s)[k := d]\<rparr>)"
proof -
  assume "k < length (calls s)"
  then have "[Wake] \<in> set ((calls s)[k := [Wake]])" by (rule set_update_memI)
  then show "wake_owed (s\<lparr>calls := (calls s)[k := [Wake]]\<rparr>)" by (auto simp: wake_owed_def list_ex_iff)
next
  assume "wake_owed s" and h: "hd (calls s ! k) \<noteq> Wake"
  then obtain j where j: "j < length (calls s)" "calls s ! j \<noteq> []" "hd (calls s ! j) = Wake"
    by (auto simp: wake_owed_def list_ex_length)
  with h have "k \<noteq> j" by auto
  with j show "wake_owed (s\<lparr>calls := (calls s)[k := d]\<rparr>)" by (auto simp: wake_owed_def list_ex_length intro!: exI [of _ j])
qed

lemma tap_ok_call_step:
  assumes "tap_ok s"
  shows "tap_ok (call_step k s)"
proof (cases "k < length (calls s) \<and> calls s ! k \<noteq> []")
  case True
  then have k: "k < length (calls s)" "calls s ! k \<noteq> []" by simp_all
  have all: "list_all call_ok (calls s)" using assms by (simp add: tap_ok_def)
  then have "call_ok (calls s ! k)" using k(1) by (simp add: list_all_length)
  moreover have up: "list_all call_ok ((calls s)[k := d])" if "call_ok d" for d
    using all that set_update_subset_insert [of "calls s" k d] by (auto simp: list_all_iff)
  have w: "list_all call_ok ((calls s)[k := [Wake]])" "list_all call_ok ((calls s)[k := []])" by (rule up, simp add: call_ok_def)+
  note o = owed_update(1) [OF k(1)]
  ultimately consider (wake) "calls s ! k = [Wake]" | (mode) m where "calls s ! k = [Mode m]"
    | (other) x where "calls s ! k = [x, Wake]" "x \<noteq> Wake" "\<And>i b. x = Want i b \<Longrightarrow> i < 2"
    using k(2) unfolding call_ok_def by blast
  then show ?thesis
  proof cases
    case wake
    then show ?thesis using True tap_ok_Wake [OF assms w(2)] by (simp add: call_step_def)
  next
    case mode
    then show ?thesis using True tap_ok_Mode [OF assms _ w(2), of m] owed_update(2) [of s k "[]"] by (simp add: call_step_def)
  next
    case other
    show ?thesis
    proof (cases x)
      case (Reset cb e)
      then show ?thesis using True other tap_ok_Reset [OF assms o w, of cb e]
        by (auto simp: call_step_def split: prod.splits option.splits)
    next
      case (Want i b)
      then show ?thesis using True other tap_ok_Want [OF assms o w(1), of i b] by (simp add: call_step_def)
    next
      case Stop
      then show ?thesis using True other tap_ok_Stop [OF assms o w(1)] by (simp add: call_step_def)
    next
      case (Mode m)
      then show ?thesis using True other tap_ok_Mode [OF assms o w(1), of m] by (simp add: call_step_def)
    qed (use other in simp)
  qed
qed (auto simp: call_step_def assms)

lemma tap_ok_start:
  assumes "tap_ok s" "call_ok c"
  shows "tap_ok (start_call c s)"
proof -
  have "events_ok s []" using assms by (simp add: tap_ok_def)
  then have "events_ok (start_call c s) []" by (rule events_ok_cong) (simp_all add: start_call_def)
  then show ?thesis using assms
    by (intro tap_ok_quiet [OF assms(1)]) (auto simp: start_call_def wake_owed_def tap_ok_def)
qed

lemma calls_ok:
  "call_ok (snd (initialize cb e))" "call_ok (snd (setOperationMode m))" "call_ok (snd (activate h b))" "call_ok destroy"
  by (auto simp: call_ok_def initialize_def setOperationMode_def activate_def destroy_def dest: indexOf_Some split: option.split)

lemma report_only:
  "mWakeFd (report K stamp g s) = mWakeFd s \<and> pos (report K stamp g s) = pos s \<and>
   armed (report K stamp g s) = armed s \<and> want (report K stamp g s) = want s \<and>
   idleSince (report K stamp g s) = idleSince s \<and> commands (report K stamp g s) = commands s \<and>
   passes (report K stamp g s) = passes s \<and> calls (report K stamp g s) = calls s"
proof (cases "mMode s = NORMAL")
  case True
  then show ?thesis
  proof (rule report_two [where K=K and stamp=stamp and g=g])
    fix s1 e1 s2 e2
    assume 1: "report_one K stamp g 0 (s, []) = (s1, e1)" and 2: "report_one K stamp g 1 (s1, e1) = (s2, e2)"
      and 3: "report K stamp g s = post (mCallback s2) e2 s2"
    from only_fires_trans [OF report_one_only [OF 1] report_one_only [OF 2]] have "only_fires s s2" .
    then show ?thesis unfolding 3 by (simp add: post_frame(2-) only_firesD)
  qed
qed (simp add: report_def)

text \<open>At the top of the loop nothing is owed yet.\<close>

lemma tap_ok_top:
  assumes "events_ok s []" "mWakeFd s \<noteq> None" "pos s = Top \<or> pos s = Take \<or> (\<exists>g. pos s = Reporting g)" "list_all call_ok (calls s)"
    "\<And>i. i < 2 \<Longrightarrow> gesture_ok i s"
  shows "tap_ok s"
  using assms by (auto simp: tap_ok_def place_ok_def stop_ok_def served_def)

lemma tap_ok_report:
  assumes "tap_ok s" "pos s = Reporting g"
  shows "tap_ok ((report K stamp g s)\<lparr>pos := Top\<rparr>)"
proof (rule tap_ok_top)
  have "events_ok (report K stamp g s) []" using assms(1) report_ok by (simp add: tap_ok_def)
  then show "events_ok ((report K stamp g s)\<lparr>pos := Top\<rparr>) []" by (rule events_ok_cong) simp_all
  show "mWakeFd ((report K stamp g s)\<lparr>pos := Top\<rparr>) \<noteq> None"
    using assms by (simp add: report_only tap_ok_def place_ok_def)
  show "gesture_ok i ((report K stamp g s)\<lparr>pos := Top\<rparr>)" if "i < 2" for i
    using assms that by (simp add: report_only tap_ok_def gesture_ok_def)
  show "list_all call_ok (calls ((report K stamp g s)\<lparr>pos := Top\<rparr>))" using assms(1) by (simp add: report_only tap_ok_def)
qed simp

lemma run_poll_frame:
  "mWantArmed (run_poll error wk reported content s) = mWantArmed s"
  "mEarlyAt (run_poll error wk reported content s) = mEarlyAt s"
  "mEarlyDue (run_poll error wk reported content s) = mEarlyDue s"
  "activations (run_poll error wk reported content s) = activations s"
  "posted (run_poll error wk reported content s) = posted s"
  "fired (run_poll error wk reported content s) = fired s"
  "armed (run_poll error wk reported content s) = armed s"
  "idleSince (run_poll error wk reported content s) = idleSince s"
  "want (run_poll error wk reported content s) = want s"
  "commands (run_poll error wk reported content s) = commands s"
  "passes (run_poll error wk reported content s) = passes s"
  "calls (run_poll error wk reported content s) = calls s"
  "mWakeFd (run_poll error wk reported content s) = None \<longleftrightarrow> mWakeFd s = None"
  "pos (run_poll error wk reported content s) = Top \<or> (\<exists>g. pos (run_poll error wk reported content s) = Reporting g)"
  by (simp add: run_poll_def Let_def split: option.split)+

lemma tap_ok_poll:
  assumes "tap_ok s" "pos s = Polling"
  shows "tap_ok (run_poll error wk reported content s)"
proof (rule tap_ok_top)
  let ?s = "run_poll error wk reported content s"
  have ev: "events_ok s []" and w: "mWakeFd s \<noteq> None" using assms by (simp_all add: tap_ok_def place_ok_def)
  from ev show "events_ok ?s []" by (rule events_ok_cong) (simp_all only: run_poll_frame(1-12))
  show "mWakeFd ?s \<noteq> None" using w by (simp only: run_poll_frame(13) not_False_eq_True)
  show "pos ?s = Top \<or> pos ?s = Take \<or> (\<exists>g. pos ?s = Reporting g)"
    using run_poll_frame(14) by blast
  show "list_all call_ok (calls ?s)" using assms(1) by (simp only: run_poll_frame(12) tap_ok_def)
  show "gesture_ok i ?s" if "i < 2" for i
  proof -
    have "gesture_ok i s" using assms(1) that by (simp add: tap_ok_def)
    then show ?thesis using assms(2) by (simp add: gesture_ok_def run_poll_frame(1-12))
  qed
qed

text \<open>Writing a node, and turning a gesture on.\<close>

lemma writeNode_eq: "\<exists>ok. writeNode opens n value s = (ok, s\<lparr>commands := commands s @ [(value, ok)]\<rparr>)"
  by (cases opens) (auto simp: writeNode_def)

lemma arm_eq:
  obtains f where "arm io i any s = (False, s\<lparr>mReportFd := f\<rparr>)"
  | f ok where "arm io i any s = (ok, s\<lparr>mReportFd := f, commands := commands s @ [(on (kSensors ! i), ok)]\<rparr>)"
proof -
  let ?s = "if mReportFd s then s else s\<lparr>mReportFd := report_opens io\<rparr>"
  obtain f where f: "?s = s\<lparr>mReportFd := f\<rparr>"
  proof (cases "mReportFd s")
    case True
    then have "?s = s\<lparr>mReportFd := mReportFd s\<rparr>" by simp
    then show ?thesis by (rule that)
  qed (use that in simp)
  show ?thesis
  proof (cases "\<not> mReportFd ?s \<or> \<not> any \<and> readReport (report_content io) = None")
    case True
    then have "arm io i any s = (False, ?s)" by (auto simp: arm_def Let_def)
    then show ?thesis using f that(1) by metis
  next
    case False
    then have "arm io i any s = writeNode (node_opens io) (written io) (on (kSensors ! i)) ?s"
      by (auto simp: arm_def Let_def)
    with writeNode_eq [of "node_opens io" "written io" "on (kSensors ! i)" "s\<lparr>mReportFd := f\<rparr>"] f that(2)
    show ?thesis by auto
  qed
qed

text \<open>A gesture is turned on, or fails to be.\<close>

lemma gesture_ok_arm:
  assumes "gesture_ok j s" "i < 2" "j < 2" "length (armed s) = 2" "pos s \<noteq> Stopped"
  shows "gesture_ok j (s\<lparr>mReportFd := f, commands := commands s @ [(on (kSensors ! i), True)], armed := (armed s)[i := True]\<rparr>)"
    and "gesture_ok j (s\<lparr>mReportFd := f, commands := commands s @ [(on (kSensors ! i), False)]\<rparr>)"
    and "gesture_ok j (s\<lparr>mReportFd := f\<rparr>)"
proof -
  have o: "gesture_on j (commands s @ [(on (kSensors ! i), ok)]) \<longleftrightarrow> ok \<and> i = j \<or> gesture_on j (commands s)" for ok
    using on_off_distinct [OF assms(2,3)] by auto
  show "gesture_ok j (s\<lparr>mReportFd := f, commands := commands s @ [(on (kSensors ! i), True)], armed := (armed s)[i := True]\<rparr>)"
    using assms(1,4,5) o [of True] by (cases "i = j") (simp_all add: gesture_ok_def del: gesture_on_append)
  show "gesture_ok j (s\<lparr>mReportFd := f, commands := commands s @ [(on (kSensors ! i), False)]\<rparr>)"
    using assms(1) o [of False] by (simp add: gesture_ok_def del: gesture_on_append)
  show "gesture_ok j (s\<lparr>mReportFd := f\<rparr>)" using assms(1) by (simp add: gesture_ok_def)
qed

lemma take_one_ok:
  assumes "events_ok s []" "\<And>j. j < 2 \<Longrightarrow> gesture_ok j s" "i < 2" "pos s \<noteq> Stopped" "mWakeFd s \<noteq> None"
  shows "events_ok (take_one ios m i s) [] \<and> (\<forall>j<2. gesture_ok j (take_one ios m i s)) \<and>
    pos (take_one ios m i s) = pos s \<and> mWakeFd (take_one ios m i s) \<noteq> None \<and> calls (take_one ios m i s) = calls s"
proof (cases "m AND modeBit (kSensors ! i) = 0")
  case True
  then show ?thesis using assms by (simp add: take_one_def)
next
  case False
  have l: "length (armed s) = 2" using assms(1) by (simp add: events_ok_def lengths_ok_def)
  note g = gesture_ok_arm [OF assms(2) assms(3) _ l assms(4)]
  have e: "events_ok (s\<lparr>mReportFd := f\<rparr>) []"
    "events_ok (s\<lparr>mReportFd := f, commands := c\<rparr>) []"
    "events_ok (s\<lparr>mReportFd := f, commands := c, armed := (armed s)[i := True]\<rparr>) []" for f c
    by (rule events_ok_cong [OF assms(1)]; simp)+
  show ?thesis
  proof (cases rule: arm_eq [of "ios i" i "anyOf (armed s)" s])
    case (1 f)
    then show ?thesis using False e(1) g(3) assms(4,5) by (simp add: take_one_def)
  next
    case (2 f ok)
    then show ?thesis using False e(2,3) g(1,2) assms(4,5) by (cases ok) (simp_all add: take_one_def)
  qed
qed

lemma tap_ok_take:
  assumes "tap_ok s" "pos s = Take"
  shows "tap_ok (run_take content ios s)"
proof -
  have a: "events_ok s []" "\<And>j. j < 2 \<Longrightarrow> gesture_ok j s" "pos s \<noteq> Stopped" "mWakeFd s \<noteq> None" "list_all call_ok (calls s)"
    using assms by (simp_all add: tap_ok_def place_ok_def)
  have top: "tap_ok (t\<lparr>pos := Top\<rparr>)"
    if "events_ok t []" "\<And>j. j < 2 \<Longrightarrow> gesture_ok j t" "pos t \<noteq> Stopped" "mWakeFd t \<noteq> None"
      "list_all call_ok (calls t)" for t
  proof (rule tap_ok_top)
    show "events_ok (t\<lparr>pos := Top\<rparr>) []" by (rule events_ok_cong [OF that(1)]) simp_all
    show "gesture_ok i (t\<lparr>pos := Top\<rparr>)" if "i < 2" for i
      using \<open>\<And>j. j < 2 \<Longrightarrow> gesture_ok j t\<close> [OF that] \<open>pos t \<noteq> Stopped\<close> by (simp add: gesture_ok_def)
  qed (use that in simp_all)
  show ?thesis
  proof (cases "readMode content")
    case None
    then show ?thesis using top [OF a] by (simp add: run_take_def)
  next
    case (Some m)
    let ?t = "take_one ios m 0 s"
    have 1: "events_ok ?t [] \<and> (\<forall>j<2. gesture_ok j ?t) \<and> pos ?t = pos s \<and> mWakeFd ?t \<noteq> None \<and> calls ?t = calls s"
      by (rule take_one_ok [OF a(1,2) _ a(3,4)]) simp_all
    then have "events_ok (take_one ios m 1 ?t) [] \<and> (\<forall>j<2. gesture_ok j (take_one ios m 1 ?t)) \<and>
      pos (take_one ios m 1 ?t) = pos ?t \<and> mWakeFd (take_one ios m 1 ?t) \<noteq> None \<and> calls (take_one ios m 1 ?t) = calls ?t"
      using a(3) by (intro take_one_ok) simp_all
    then have "tap_ok ((take_one ios m 1 ?t)\<lparr>pos := Top\<rparr>)" using 1 a(3,5) by (intro top) simp_all
    then show ?thesis using Some by (simp add: run_take_def fold_sensors)
  qed
qed

lemma tap_ok_arm:
  assumes "tap_ok s" "pos s = Arming k"
  shows "tap_ok (run_arm io k s)"
proof -
  have k: "k < 2" and ev: "events_ok s []" and m: "mWakeFd s \<noteq> None"
    and g: "\<And>j. j < 2 \<Longrightarrow> gesture_ok j s"
    and sv: "\<And>j. j < 2 \<Longrightarrow> mWantArmed s ! j \<Longrightarrow> pending s \<or> want s ! j \<and> (j < k \<longrightarrow> armed s ! j)"
    and cs: "list_all call_ok (calls s)" and st: "mStop s \<longrightarrow> pending s"
    using assms by (auto simp: tap_ok_def place_ok_def served_def stop_ok_def)
  have l: "length (armed s) = 2" "length (mWantArmed s) = 2" using ev by (simp_all add: events_ok_def lengths_ok_def)
  define q where "q = (if Suc k < 2 then Arming (Suc k) else Idling)"
  have q: "q \<noteq> Stopped" by (simp add: q_def)
  have ok: "tap_ok (t\<lparr>pos := q\<rparr>)"
    if "events_ok t []" "mWakeFd t \<noteq> None" "\<And>j. j < 2 \<Longrightarrow> gesture_ok j t" "pos t \<noteq> Stopped"
      "\<And>j. j < 2 \<Longrightarrow> mWantArmed t ! j \<Longrightarrow> pending t \<or> want t ! j \<and> (j < Suc k \<longrightarrow> armed t ! j)"
      "list_all call_ok (calls t)" "mStop t \<longrightarrow> pending t" for t
  proof -
    have "events_ok (t\<lparr>pos := q\<rparr>) []" by (rule events_ok_cong [OF that(1)]) simp_all
    moreover have "place_ok (t\<lparr>pos := q\<rparr>)" using that(2) by (simp add: place_ok_def q_def)
    moreover have "stop_ok (t\<lparr>pos := q\<rparr>)" using that(7) by (simp add: stop_ok_def q_def pending_def woken_def wake_owed_def)
    moreover have "served j (t\<lparr>pos := q\<rparr>)" if j: "j < 2" for j
      using \<open>\<And>j. j < 2 \<Longrightarrow> mWantArmed t ! j \<Longrightarrow> pending t \<or> want t ! j \<and> (j < Suc k \<longrightarrow> armed t ! j)\<close> [OF j] j k
      by (auto simp: served_def q_def pending_def woken_def wake_owed_def)
    moreover have "gesture_ok j (t\<lparr>pos := q\<rparr>)" if j: "j < 2" for j
      using \<open>\<And>j. j < 2 \<Longrightarrow> gesture_ok j t\<close> [OF j] \<open>pos t \<noteq> Stopped\<close> by (simp add: gesture_ok_def)
    ultimately show ?thesis using that(6) by (simp add: tap_ok_def)
  qed
  let ?s = "s\<lparr>pos := q\<rparr>"
  have ps: "pos s \<noteq> Stopped" using assms(2) by simp
  note ga = gesture_ok_arm [OF g k _ l(1) ps]
  have kept: "mWantArmed s ! j \<Longrightarrow> pending s \<or> want s ! j \<and> (j < Suc k \<longrightarrow> armed s ! j)"
    if "j < 2" "\<not> want s ! k \<or> armed s ! k" for j
    using sv [OF that(1)] that(2) by (cases "j = k") auto
  show ?thesis
  proof (cases "\<not> want s ! k \<or> armed s ! k")
    case True
    then have "run_arm io k s = ?s" by (simp add: run_arm_def q_def Let_def)
    then show ?thesis using ok [OF ev m g ps] kept True cs st by simp
  next
    case False
    then have r: "run_arm io k s = (case arm io k (anyOf (armed s)) ?s of
        (ok, s) \<Rightarrow> if ok then s\<lparr>armed := (armed s)[k := True]\<rparr> else s\<lparr>mWantArmed := (mWantArmed s)[k := False]\<rparr>)"
      by (simp add: run_arm_def q_def Let_def)
    have off: "tap_ok (t\<lparr>mWantArmed := (mWantArmed s)[k := False], pos := q\<rparr>)"
      if t: "t = s\<lparr>mReportFd := f\<rparr> \<or> t = s\<lparr>mReportFd := f, commands := commands s @ [(on (kSensors ! k), False)]\<rparr>" for t f
    proof -
      let ?t = "t\<lparr>mWantArmed := (mWantArmed s)[k := False]\<rparr>"
      have f: "mWantArmed t = mWantArmed s" "want t = want s" "armed t = armed s" "mWakeFd t = mWakeFd s" "pos t = pos s"
        "pending t = pending s" "calls t = calls s" "mStop t = mStop s" using t by (auto simp: pending_def woken_def wake_owed_def)
      have "events_ok (s\<lparr>mWantArmed := (mWantArmed s)[k := False]\<rparr>) []"
      proof -
        have "sensor_ok j (s\<lparr>mWantArmed := (mWantArmed s)[k := False]\<rparr>) []" if "sensor_ok j s []" for j
          using that l(2) k by (cases "j = k") (auto simp: sensor_ok_def held_ok_def count_fired_def count_posted_def split: if_splits)
        with ev show ?thesis by (simp add: events_ok_def lengths_ok_def)
      qed
      then have "events_ok ?t []" by (rule events_ok_cong) (use t in auto)
      moreover have "gesture_ok j ?t" if "j < 2" for j
        using ga(2,3) [OF that that, of f] t by (auto simp: gesture_ok_def)
      moreover have "pending ?t \<or> want ?t ! j \<and> (j < Suc k \<longrightarrow> armed ?t ! j)" if "j < 2" "mWantArmed ?t ! j" for j
        using that sv [OF that(1)] l(2) k f by (cases "j = k") (auto simp: pending_def woken_def wake_owed_def)
      moreover have "mStop ?t \<longrightarrow> pending ?t" using st f by (simp add: pending_def woken_def wake_owed_def)
      ultimately show "tap_ok (?t\<lparr>pos := q\<rparr>)" using m ps f cs by (intro ok) simp_all
    qed
    show ?thesis
    proof (cases rule: arm_eq [of io k "anyOf (armed s)" ?s])
      case (1 f)
      then have "run_arm io k s = s\<lparr>mReportFd := f, mWantArmed := (mWantArmed s)[k := False], pos := q\<rparr>"
        by (simp add: r)
      then show ?thesis using off [of "s\<lparr>mReportFd := f\<rparr>" f] by simp
    next
      case (2 f good)
      let ?t = "s\<lparr>mReportFd := f, commands := commands s @ [(on (kSensors ! k), True)], armed := (armed s)[k := True]\<rparr>"
      have "tap_ok (?t\<lparr>pos := q\<rparr>)"
      proof (rule ok)
        show "events_ok ?t []" by (rule events_ok_cong [OF ev]) simp_all
        show "gesture_ok j ?t" if "j < 2" for j by (rule ga(1) [OF that that])
        show "pending ?t \<or> want ?t ! j \<and> (j < Suc k \<longrightarrow> armed ?t ! j)" if "j < 2" "mWantArmed ?t ! j" for j
          using sv [OF that(1)] that l(1) False by (cases "j = k") (auto simp: pending_def woken_def wake_owed_def)
      qed (use m ps cs st in \<open>simp_all add: pending_def woken_def wake_owed_def\<close>)
      moreover have "run_arm io k s = (if good then ?t\<lparr>pos := q\<rparr> else
          s\<lparr>mReportFd := f, commands := commands s @ [(on (kSensors ! k), False)],
             mWantArmed := (mWantArmed s)[k := False], pos := q\<rparr>)"
        using 2 by (simp add: r)
      ultimately show ?thesis
        using off [of "s\<lparr>mReportFd := f, commands := commands s @ [(on (kSensors ! k), False)]\<rparr>" f]
        by (cases good) simp_all
    qed
  qed
qed

lemma off_one_eq: "\<exists>c. off_one io i s = s\<lparr>commands := c\<rparr>"
proof (cases "armed s ! i")
  case True
  then show ?thesis using writeNode_eq [of "fst (io i)" "snd (io i)" "off (kSensors ! i)" s]
    by (auto simp: off_one_def)
next
  case False
  then have "off_one io i s = s\<lparr>commands := commands s\<rparr>" by (simp add: off_one_def)
  then show ?thesis by blast
qed

lemma tap_ok_run_top:
  assumes "tap_ok s" "pos s = Top"
  shows "tap_ok (run_top K now stamp io s)"
proof -
  have ev: "events_ok s []" and m: "mWakeFd s \<noteq> None" and g: "\<And>j. j < 2 \<Longrightarrow> gesture_ok j s"
    and cs: "list_all call_ok (calls s)"
    using assms by (simp_all add: tap_ok_def place_ok_def)
  consider (wait) "\<not> (mStop s \<or> anyOf (mWantArmed s) \<or> anyOf (armed s))" | (stop) "mStop s"
    | (work) "\<not> mStop s" "anyOf (mWantArmed s) \<or> anyOf (armed s)" by blast
  then show ?thesis
  proof cases
    case wait
    have l: "length (mWantArmed s) = 2" "length (armed s) = 2" using ev by (simp_all add: events_ok_def lengths_ok_def)
    have "\<not> mWantArmed s ! i" "\<not> armed s ! i" if "i < 2" for i
      using wait that l by (auto simp: anyOf_def list_ex_length)
    moreover have "events_ok (s\<lparr>pos := Waiting\<rparr>) []" by (rule events_ok_cong [OF ev]) simp_all
    ultimately have "tap_ok (s\<lparr>pos := Waiting\<rparr>)"
      using wait m g cs assms(2) by (simp add: tap_ok_def place_ok_def stop_ok_def served_def gesture_ok_def)
    then show ?thesis using wait by (simp add: run_top_def)
  next
    case stop
    then have r: "run_top K now stamp io s = off_one io 1 (off_one io 0 (s\<lparr>pos := Stopped\<rparr>))"
      by (simp add: run_top_def fold_sensors)
    obtain c0 where c0: "off_one io 0 (s\<lparr>pos := Stopped\<rparr>) = s\<lparr>pos := Stopped, commands := c0\<rparr>"
      using off_one_eq by blast
    obtain c where c: "off_one io 1 (s\<lparr>pos := Stopped, commands := c0\<rparr>) = s\<lparr>pos := Stopped, commands := c0, commands := c\<rparr>"
      using off_one_eq by blast
    have "run_top K now stamp io s = s\<lparr>pos := Stopped, commands := c\<rparr>" using r c0 c by simp
    moreover have "events_ok (s\<lparr>pos := Stopped, commands := c\<rparr>) []" by (rule events_ok_cong [OF ev]) simp_all
    ultimately show ?thesis using m g cs by (simp add: tap_ok_def place_ok_def stop_ok_def served_def gesture_ok_def)
  next
    case work
    obtain s1 early due where f: "fireEarly K now stamp s = (s1, early, due)" by (metis prod_cases3)
    have o: "only_fires s s1" by (rule fireEarly_only [OF f])
    have e1: "events_ok s1 early" by (rule fireEarly_ok [OF ev f])
    let ?s2 = "s1\<lparr>earlyDue := due, want := mWantArmed s1, callback := mCallback s1\<rparr>"
    have "events_ok ?s2 early"
      by (rule events_ok_cong [OF e1]) (use e1 in \<open>simp_all add: events_ok_def lengths_ok_def\<close>)
    then have e3: "events_ok (post (mCallback s1) early ?s2) []" by (rule post_ok)
    obtain wl where r: "run_top K now stamp io s = (post (mCallback s1) early ?s2)\<lparr>earlyWakelock := wl, pos := Arming 0\<rparr>"
      using work f by (auto simp: run_top_def Let_def)
    have "events_ok (run_top K now stamp io s) []" unfolding r by (rule events_ok_cong [OF e3]) simp_all
    moreover have "place_ok (run_top K now stamp io s)"
      using m only_firesD(7) [OF o] by (simp add: r place_ok_def post_frame(2-))
    moreover have "served j (run_top K now stamp io s)" for j
      by (simp add: r served_def post_frame(2-))
    moreover have "gesture_ok j (run_top K now stamp io s)" if "j < 2" for j
      using g [OF that] assms(2) by (simp add: r gesture_ok_def post_frame(2-) only_firesD [OF o])
    moreover have "stop_ok (run_top K now stamp io s)" "calls (run_top K now stamp io s) = calls s"
      using work(1) by (simp_all add: r stop_ok_def post_frame(2-) only_firesD [OF o])
    ultimately show ?thesis using cs by (simp add: tap_ok_def)
  qed
qed

text \<open>One sensor of the idle pass.\<close>

definition idle_result :: "int \<Rightarrow> bool \<Rightarrow> nat \<Rightarrow> tap \<Rightarrow> bool \<Rightarrow> tap \<Rightarrow> bool \<Rightarrow> bool" where
  "idle_result now low i s b s' b' \<longleftrightarrow>
     s' = s\<lparr>armed := armed s', idleSince := idleSince s', commands := commands s'\<rparr> \<and>
     length (armed s') = length (armed s) \<and> length (idleSince s') = length (idleSince s) \<and>
     (b \<longrightarrow> b') \<and> (armed s' ! i \<and> \<not> want s ! i \<longrightarrow> b') \<and> (want s ! i \<and> armed s ! i \<longrightarrow> armed s' ! i) \<and>
     (armed s' ! i \<longrightarrow> armed s ! i \<and> commands s' = commands s) \<and>
     (\<forall>j<2. j \<noteq> i \<longrightarrow> armed s' ! j = armed s ! j \<and> idleSince s' ! j = idleSince s ! j \<and>
        gesture_on j (commands s') = gesture_on j (commands s)) \<and>
     (idleSince s' ! i \<noteq> 0 \<longrightarrow> low \<and> \<not> want s ! i \<and> (idleSince s' ! i = idleSince s ! i \<or> idleSince s' ! i = now)) \<and>
     (armed s ! i \<and> \<not> armed s' ! i \<longrightarrow>
        low \<and> \<not> want s ! i \<and> idleSince s ! i \<noteq> 0 \<and> now - idleSince s ! i \<ge> kIdleNs)"

lemma idle_one_result:
  assumes "idle_one now low io i (s, b) = (s', b')" "i < 2" "length (armed s) = 2" "length (idleSince s) = 2"
  shows "idle_result now low i s b s' b'"
proof -
  consider (not) "\<not> armed s ! i \<or> want s ! i" | (high) "armed s ! i" "\<not> want s ! i" "\<not> low"
    | (first) "armed s ! i" "\<not> want s ! i" "low" "idleSince s ! i = 0"
    | (over) "armed s ! i" "\<not> want s ! i" "low" "idleSince s ! i \<noteq> 0" "now - idleSince s ! i \<ge> kIdleNs"
    | (wait) "armed s ! i" "\<not> want s ! i" "low" "idleSince s ! i \<noteq> 0" "\<not> now - idleSince s ! i \<ge> kIdleNs" by blast
  then show ?thesis
  proof cases
    case not
    then have "s' = s\<lparr>idleSince := (idleSince s)[i := 0]\<rparr>" "b' = b" using assms(1) by (auto simp: idle_one_def)
    then show ?thesis using assms(2-) not by (auto simp: idle_result_def)
  next
    case high
    then have "s' = s\<lparr>idleSince := (idleSince s)[i := 0]\<rparr>" "b'" using assms(1) by (auto simp: idle_one_def)
    then show ?thesis using assms(2-) high by (simp add: idle_result_def)
  next
    case first
    then have "s' = s\<lparr>idleSince := (idleSince s)[i := now]\<rparr>" "b'" using assms(1) by (auto simp: idle_one_def)
    then show ?thesis using assms(2-) first by (simp add: idle_result_def)
  next
    case wait
    then have "s' = s" "b'" using assms(1) by (auto simp: idle_one_def)
    then show ?thesis using assms(2-) wait by (simp add: idle_result_def)
  next
    case over
    obtain ok where w: "writeNode (fst (io i)) (snd (io i)) (off (kSensors ! i)) s =
      (ok, s\<lparr>commands := commands s @ [(off (kSensors ! i), ok)]\<rparr>)" using writeNode_eq by blast
    have s': "s' = s\<lparr>commands := commands s @ [(off (kSensors ! i), ok)],
        armed := (armed s)[i := False], idleSince := (idleSince s)[i := 0]\<rparr>" "b' = b"
      using assms(1) over w by (auto simp: idle_one_def)
    have "gesture_on j (commands s') = gesture_on j (commands s)" if "j < 2" "j \<noteq> i" for j
      using on_off_distinct [OF assms(2) that(1)] that(2) by (auto simp: s')
    then show ?thesis using assms(2-) over by (simp add: idle_result_def s')
  qed
qed

definition idle_passed :: "int \<Rightarrow> bool \<Rightarrow> nat \<Rightarrow> tap \<Rightarrow> tap \<Rightarrow> bool \<Rightarrow> bool" where
  "idle_passed now low j s s' b \<longleftrightarrow>
     (armed s' ! j \<and> \<not> want s ! j \<longrightarrow> b) \<and> (want s ! j \<and> armed s ! j \<longrightarrow> armed s' ! j) \<and>
     (armed s' ! j \<longrightarrow> armed s ! j \<and> gesture_on j (commands s') = gesture_on j (commands s)) \<and>
     (idleSince s' ! j \<noteq> 0 \<longrightarrow> low \<and> \<not> want s ! j \<and> (idleSince s' ! j = idleSince s ! j \<or> idleSince s' ! j = now)) \<and>
     (armed s ! j \<and> \<not> armed s' ! j \<longrightarrow>
        low \<and> \<not> want s ! j \<and> idleSince s ! j \<noteq> 0 \<and> now - idleSince s ! j \<ge> kIdleNs)"

lemma idle_passed_cong:
  assumes "want s = want t" "armed s = armed t" "idleSince s = idleSince t" "commands s = commands t"
  shows "idle_passed now low j s s' b = idle_passed now low j t s' b"
  unfolding idle_passed_def assms ..

lemma idle_resultD:
  assumes "idle_result now low i s b s' b'"
  shows "want s' = want s" "length (armed s') = length (armed s)" "length (idleSince s') = length (idleSince s)" "b \<longrightarrow> b'"
    "j < 2 \<Longrightarrow> j \<noteq> i \<Longrightarrow> armed s' ! j = armed s ! j \<and> idleSince s' ! j = idleSince s ! j \<and>
        gesture_on j (commands s') = gesture_on j (commands s)"
    "idle_passed now low i s s' b'"
proof -
  have e: "s' = s\<lparr>armed := armed s', idleSince := idleSince s', commands := commands s'\<rparr>"
    using assms unfolding idle_result_def by blast
  show "want s' = want s" by (subst e) simp
  show "length (armed s') = length (armed s)" "length (idleSince s') = length (idleSince s)" "b \<longrightarrow> b'"
    "j < 2 \<Longrightarrow> j \<noteq> i \<Longrightarrow> armed s' ! j = armed s ! j \<and> idleSince s' ! j = idleSince s ! j \<and>
        gesture_on j (commands s') = gesture_on j (commands s)"
    using assms unfolding idle_result_def by blast+
  have "armed s' ! i \<longrightarrow> armed s ! i \<and> commands s' = commands s" using assms unfolding idle_result_def by blast
  then have "armed s' ! i \<longrightarrow> armed s ! i \<and> gesture_on i (commands s') = gesture_on i (commands s)" by simp
  then show "idle_passed now low i s s' b'"
    using assms unfolding idle_result_def idle_passed_def by blast
qed

lemma idle_pass:
  assumes "fold (idle_one now low io) [0..<length kSensors] (s, False) = (s2, b)"
    and l: "length (armed s) = 2" "length (idleSince s) = 2"
  shows "s2 = s\<lparr>armed := armed s2, idleSince := idleSince s2, commands := commands s2\<rparr>"
    "length (armed s2) = 2" "length (idleSince s2) = 2" "j < 2 \<Longrightarrow> idle_passed now low j s s2 b"
proof -
  obtain s1 b1 where 1: "idle_one now low io 0 (s, False) = (s1, b1)" by fastforce
  then have 2: "idle_one now low io 1 (s1, b1) = (s2, b)"
    using assms(1) unfolding kSensors_length fold_sensors by simp
  have r1: "idle_result now low 0 s False s1 b1" by (rule idle_one_result [OF 1 _ l]) simp
  note d1 = idle_resultD [OF r1]
  have r2: "idle_result now low 1 s1 b1 s2 b" by (rule idle_one_result [OF 2]) (use d1 l in simp_all)
  note d2 = idle_resultD [OF r2]
  have e1: "s1 = s\<lparr>armed := armed s1, idleSince := idleSince s1, commands := commands s1\<rparr>"
    using r1 unfolding idle_result_def by blast
  have "s2 = s1\<lparr>armed := armed s2, idleSince := idleSince s2, commands := commands s2\<rparr>"
    using r2 unfolding idle_result_def by blast
  also have "\<dots> = s\<lparr>armed := armed s2, idleSince := idleSince s2, commands := commands s2\<rparr>" by (subst e1) simp
  finally show "s2 = s\<lparr>armed := armed s2, idleSince := idleSince s2, commands := commands s2\<rparr>" .
  show "length (armed s2) = 2" "length (idleSince s2) = 2" using d1(2,3) d2(2,3) l by simp_all
  have q2: "armed s2 ! 0 = armed s1 ! 0" "idleSince s2 ! 0 = idleSince s1 ! 0"
    "gesture_on 0 (commands s2) = gesture_on 0 (commands s1)" using d2(5) [of 0] by simp_all
  have q1: "armed s1 ! 1 = armed s ! 1" "idleSince s1 ! 1 = idleSince s ! 1"
    "gesture_on 1 (commands s1) = gesture_on 1 (commands s)" using d1(5) [of 1] by simp_all
  have "idle_passed now low 0 s s2 b"
    using d1(6) d2(4) unfolding idle_passed_def q2 by blast
  moreover have "idle_passed now low 1 s s2 b"
    using d2(6) unfolding idle_passed_def q1 d1(1) .
  ultimately show "j < 2 \<Longrightarrow> idle_passed now low j s s2 b" using sensor_cases [of j] by blast
qed

lemma wait_timeout_bounds:
  "- 1 \<le> wait_timeout idle due now" "wait_timeout idle due now \<le> kIdleCheckMs"
  "wait_timeout idle due now < 0 \<longleftrightarrow> \<not> idle \<and> due = 0"
  by (auto simp: wait_timeout_def tap_consts)

lemma run_idle_cases:
  assumes "length (armed s) = 2" "length (idleSince s) = 2"
  obtains s2 b where
    "s2 = s\<lparr>lowPowerFailed := lowPowerFailed s2, armed := armed s2, idleSince := idleSince s2, commands := commands s2,
       passes := passes s @ [\<lparr>pass_now = now, pass_want = want s, pass_low = low_power content\<rparr>]\<rparr>"
    "length (armed s2) = 2" "length (idleSince s2) = 2" "\<And>j. j < 2 \<Longrightarrow> idle_passed now (low_power content) j s s2 b"
    "run_idle now now' content io s =
       (if \<not> anyOf (armed s2) then s2\<lparr>mArmed := armed s2, pos := Top\<rparr>
        else s2\<lparr>mArmed := armed s2, timeoutMs := wait_timeout b (earlyDue s) now', pos := Polling\<rparr>)"
proof -
  define f where "f = (lowPowerFailed s \<or> list_ex (\<lambda>i. armed s ! i \<and> \<not> want s ! i) [0..<length kSensors] \<and> readMode content = None)"
  let ?s = "s\<lparr>lowPowerFailed := f, passes := passes s @ [\<lparr>pass_now = now, pass_want = want s, pass_low = low_power content\<rparr>]\<rparr>"
  obtain s2 b where i: "fold (idle_one now (low_power content) io) [0..<length kSensors] (?s, False) = (s2, b)" by fastforce
  note p = idle_pass [OF i]
  have e: "s2 = ?s\<lparr>armed := armed s2, idleSince := idleSince s2, commands := commands s2\<rparr>"
    by (rule p(1)) (use assms in simp_all)
  have lf: "lowPowerFailed s2 = f" by (subst e) simp
  have ed: "earlyDue s2 = earlyDue s" by (subst e) simp
  have "s2 = s\<lparr>lowPowerFailed := lowPowerFailed s2, armed := armed s2, idleSince := idleSince s2, commands := commands s2,
       passes := passes s @ [\<lparr>pass_now = now, pass_want = want s, pass_low = low_power content\<rparr>]\<rparr>"
    unfolding lf by (subst e) simp
  moreover have "length (armed s2) = 2" "length (idleSince s2) = 2" using p(2,3) assms by simp_all
  moreover have "idle_passed now (low_power content) j s s2 b" if "j < 2" for j
  proof -
    have "idle_passed now (low_power content) j ?s s2 b" by (rule p(4)) (use assms that in simp_all)
    then show ?thesis by (subst idle_passed_cong [of s ?s]) simp_all
  qed
  moreover have "run_idle now now' content io s =
       (if \<not> anyOf (armed s2) then s2\<lparr>mArmed := armed s2, pos := Top\<rparr>
        else s2\<lparr>mArmed := armed s2, timeoutMs := wait_timeout b (earlyDue s) now', pos := Polling\<rparr>)"
    unfolding run_idle_def Let_def f_def [symmetric] i prod.case using ed by simp
  ultimately show ?thesis by (rule that)
qed

lemma tap_ok_idle:
  assumes "tap_ok s" "pos s = Idling"
  shows "tap_ok (run_idle now now' content io s)"
proof -
  have ev: "events_ok s []" and m: "mWakeFd s \<noteq> None" and g: "\<And>j. j < 2 \<Longrightarrow> gesture_ok j s"
    and sv: "\<And>j. j < 2 \<Longrightarrow> mWantArmed s ! j \<Longrightarrow> pending s \<or> want s ! j \<and> armed s ! j"
    and cs: "list_all call_ok (calls s)" and st: "mStop s \<longrightarrow> pending s"
    using assms by (auto simp: tap_ok_def place_ok_def served_def stop_ok_def)
  have l: "length (armed s) = 2" "length (idleSince s) = 2" using ev by (simp_all add: events_ok_def lengths_ok_def)
  show ?thesis
  proof (rule run_idle_cases [OF l])
    fix s2 b
    assume e: "s2 = s\<lparr>lowPowerFailed := lowPowerFailed s2, armed := armed s2, idleSince := idleSince s2, commands := commands s2,
       passes := passes s @ [\<lparr>pass_now = now, pass_want = want s, pass_low = low_power content\<rparr>]\<rparr>"
      and l2: "length (armed s2) = 2" "length (idleSince s2) = 2"
      and p: "\<And>j. j < 2 \<Longrightarrow> idle_passed now (low_power content) j s s2 b"
      and r: "run_idle now now' content io s =
       (if \<not> anyOf (armed s2) then s2\<lparr>mArmed := armed s2, pos := Top\<rparr>
        else s2\<lparr>mArmed := armed s2, timeoutMs := wait_timeout b (earlyDue s) now', pos := Polling\<rparr>)"
    have f: "mWakeFd s2 = mWakeFd s" "want s2 = want s" "mWantArmed s2 = mWantArmed s" "earlyDue s2 = earlyDue s" "pos s2 = pos s"
      "calls s2 = calls s" "mStop s2 = mStop s"
      "passes s2 = passes s @ [\<lparr>pass_now = now, pass_want = want s, pass_low = low_power content\<rparr>]"
      by (subst e, simp)+
    have e2: "events_ok s2 []" by (subst e, rule events_ok_cong [OF ev]) (use l l2 in simp_all)
    then have ev': "events_ok (run_idle now now' content io s) []"
      unfolding r by (auto intro: events_ok_cong)
    have gi: "gesture_ok j s2" if "j < 2" for j
    proof -
      have ns: "pos s \<noteq> Stopped" using assms(2) by simp
      have "armed s2 ! j \<longrightarrow> gesture_on j (commands s2)"
        using g [OF that] p [OF that] ns unfolding gesture_ok_def idle_passed_def by blast
      moreover have "idle_since j (idleSince s2 ! j) (passes s2)" if nz: "idleSince s2 ! j \<noteq> 0"
      proof -
        have "low_power content" "\<not> want s ! j" "idleSince s2 ! j = idleSince s ! j \<or> idleSince s2 ! j = now"
          using p [OF \<open>j < 2\<close>] nz unfolding idle_passed_def by blast+
        moreover have "idleSince s ! j \<noteq> 0 \<longrightarrow> idle_since j (idleSince s ! j) (passes s)"
          using g [OF \<open>j < 2\<close>] unfolding gesture_ok_def by blast
        ultimately show ?thesis using nz unfolding f idle_since_snoc by auto
      qed
      ultimately show ?thesis unfolding gesture_ok_def by blast
    qed
    then have g': "gesture_ok j (run_idle now now' content io s)" if "j < 2" for j
      using that assms(2) by (simp add: r gesture_ok_def f)
    have "served j (run_idle now now' content io s)" if "j < 2" for j
    proof (cases "anyOf (armed s2)")
      case True
      have "mWantArmed s ! j \<longrightarrow> pending s \<or> armed s2 ! j"
        using sv [OF that] p [OF that] unfolding idle_passed_def by blast
      moreover have "wait_timeout b (earlyDue s) now' < 0 \<and> armed s2 ! j \<longrightarrow> want s ! j"
        using p [OF that] wait_timeout_bounds(3) [of b "earlyDue s" now'] unfolding idle_passed_def by blast
      ultimately show ?thesis using True by (simp add: r served_def f pending_def woken_def wake_owed_def)
    next
      case False
      then show ?thesis by (simp add: r served_def)
    qed
    moreover have "place_ok (run_idle now now' content io s)"
      using m wait_timeout_bounds [of b "earlyDue s" now'] by (simp add: r place_ok_def f)
    moreover have "stop_ok (run_idle now now' content io s)" "calls (run_idle now now' content io s) = calls s"
      using st by (simp_all add: r stop_ok_def f pending_def woken_def wake_owed_def)
    ultimately show ?thesis using ev' g' cs by (simp add: tap_ok_def)
  qed
qed

subsection \<open>The invariant\<close>

lemma tap_ok_step:
  assumes "tap_ok s"
  shows "tap_ok (tap_step K s e)"
proof (cases e)
  case (RunArm io)
  then show ?thesis using assms tap_ok_arm by (simp add: tap_step_def split: position.split)
next
  case (RunReport stamp)
  then show ?thesis using assms tap_ok_report by (simp add: tap_step_def split: position.split)
next
  case Spurious
  have "tap_ok (s\<lparr>pos := Top\<rparr>)" if "pos s = Waiting"
  proof -
    have "events_ok s []" using assms by (simp add: tap_ok_def)
    then have "events_ok (s\<lparr>pos := Top\<rparr>) []" by (rule events_ok_cong) simp_all
    then show ?thesis using assms that by (intro tap_ok_top) (simp_all add: tap_ok_def place_ok_def gesture_ok_def)
  qed
  with Spurious assms show ?thesis by (simp add: tap_step_def)
qed (use assms in \<open>simp_all add: tap_step_def tap_ok_start calls_ok tap_ok_call_step tap_ok_take
    tap_ok_run_top tap_ok_idle tap_ok_poll\<close>)

interpretation tap: step_invariant "tap_step K" tap_ok for K
  by unfold_locales (rule tap_ok_step)

abbreviation tap_after :: "sensors_hal \<Rightarrow> tap_event list \<Rightarrow> tap" where
  "tap_after K es \<equiv> run (tap_step K) initial_tap es"

lemma initial_tap_ok: "tap_ok initial_tap"
  by (simp add: initial_tap_def tap_ok_def events_ok_def lengths_ok_def sensor_ok_def held_ok_def count_fired_def
      count_posted_def count_events_def place_ok_def stop_ok_def served_def gesture_ok_def nth_Cons' split: nat.split)

lemmas tap_after_ok = tap.run_inv [OF initial_tap_ok]

section \<open>Properties\<close>

text \<open>
  C24. The sensors are one-shot. In every history, however the framework's calls fall between the
  steps of the thread, a sensor has delivered at most one event for each time it was activated,
  and strictly fewer while it is still active.
\<close>

theorem taps_one_shot:
  assumes "i < 2" "s = tap_after K es"
  shows "count_posted i s + (if mWantArmed s ! i then 1 else 0) \<le> activations s ! i"
proof -
  have "sensor_ok i s []" using tap_after_ok [of K es] sensor_cases [OF assms(1)] assms(2)
    by (auto simp: tap_ok_def events_ok_def)
  then show ?thesis by (simp add: sensor_ok_def)
qed

definition sample_K :: sensors_hal where
  "sample_K = \<lparr>DEVICE_PRIVATE_BASE = 65536, ONE_SHOT_MODE = 6, WAKE_UP = 1\<rparr>"

definition good_io :: arm_io where
  "good_io = \<lparr>report_opens = True, report_content = Some ''0'', node_opens = True, written = 1\<rparr>"

text \<open>The double tap sensor is activated, the thread turns its gesture on and sleeps.\<close>

definition armed_history :: "tap_event list" where
  "armed_history =
     [Initialize 7 True, CallStep 0, CallStep 0, RunTake None (\<lambda>i. good_io), Activate 2 True, CallStep 1, CallStep 1,
      RunTop 100 (\<lambda>i. 100) (\<lambda>i. (True, 2)), RunArm good_io, RunArm good_io, RunIdle 200 200 None (\<lambda>i. (True, 2)),
      RunPoll False True False None,
      RunTop 300 (\<lambda>i. 300) (\<lambda>i. (True, 2)), RunArm good_io, RunArm good_io, RunIdle 400 400 None (\<lambda>i. (True, 2))]"

definition tapped_history :: "tap_event list" where
  "tapped_history = armed_history @ [RunPoll False False True (Some ''2''), RunReport (\<lambda>i. 500)]"

theorem taps_one_shot_witness:
  "count_posted 1 (tap_after sample_K tapped_history) = 1 \<and> activations (tap_after sample_K tapped_history) ! 1 = 1 \<and>
   count_posted 1 (tap_after sample_K tapped_history) +
     (if mWantArmed (tap_after sample_K tapped_history) ! 1 then 1 else 0) \<le> activations (tap_after sample_K tapped_history) ! 1"
proof -
  have "count_posted 1 (tap_after sample_K tapped_history) = 1" "activations (tap_after sample_K tapped_history) ! 1 = 1"
    by code_simp+
  then show ?thesis using taps_one_shot [of 1 "tap_after sample_K tapped_history" sample_K tapped_history, OF _ refl] by simp
qed

text \<open>
  C25. Only a double tap is ever held for its sensor: an event that was not reported live while its
  sensor was active is a double tap, and goes out at most 1.6 s after it was seen (1 s of waiting
  for the sensor, 0.3 s of delay, and at most 0.3 s late). A single tap is never held.
\<close>

theorem held_taps_bounded:
  "list_all reason_ok (fired (tap_after K es)) \<and> mEarlyAt (tap_after K es) ! 0 = 0"
  using tap_after_ok [of K es] by (auto simp: tap_ok_def events_ok_def sensor_ok_def held_ok_def kSensors_nth)

text \<open>
  C26. No activation and no request to stop is lost, although a call wakes the thread only after it has released the mutex.
  Unless a call is just between its critical section and its wake-up: while the thread sleeps in \<^verbatim>\<open>poll\<close> with no wake-up to
  read, the gesture of every active sensor is on in the controller and nobody asked it to stop; it sleeps
  without a timeout only if no held tap is due and no gesture is on whose sensor it knew to be inactive; and while it sleeps
  on the condition variable no sensor is active, no gesture is on and nobody asked it to stop. If a call is just there,
  its next step ends either sleep.
\<close>

theorem sleeping_thread_serves:
  assumes "i < 2" "s = tap_after K es"
  shows "if wake_owed s
    then \<exists>k. let t = tap_step K s (CallStep k) in pos t \<noteq> Waiting \<and> (pos t = Polling \<longrightarrow> woken t)
    else (pos s = Polling \<and> \<not> woken s \<longrightarrow> \<not> mStop s \<and>
        (mWantArmed s ! i \<longrightarrow> armed s ! i \<and> gesture_on i (commands s)) \<and>
        (timeoutMs s < 0 \<longrightarrow> earlyDue s = 0 \<and> (armed s ! i \<longrightarrow> want s ! i)) \<and> timeoutMs s \<le> kIdleCheckMs) \<and>
      (pos s = Waiting \<longrightarrow> \<not> mStop s \<and> \<not> mWantArmed s ! i \<and> \<not> armed s ! i)"
proof (cases "wake_owed s")
  case True
  then obtain k where k: "k < length (calls s)" "calls s ! k \<noteq> []" "hd (calls s ! k) = Wake"
    by (auto simp: wake_owed_def list_ex_length)
  have "place_ok s" using tap_after_ok [of K es] assms(2) by (simp add: tap_ok_def)
  with k have "let t = tap_step K s (CallStep k) in pos t \<noteq> Waiting \<and> (pos t = Polling \<longrightarrow> woken t)"
    by (auto simp: tap_step_def call_step_def wakeThread_def woken_def place_ok_def Let_def)
  then show ?thesis using True by auto
next
  case False
  have "served i s" "gesture_ok i s" "place_ok s" "stop_ok s"
    using tap_after_ok [of K es] assms by (simp_all add: tap_ok_def)
  then show ?thesis using False
    by (auto simp: served_def gesture_ok_def place_ok_def stop_ok_def pending_def split: position.splits)
qed

theorem sleeping_thread_serves_witness:
  "pos (tap_after sample_K armed_history) = Polling \<and> \<not> woken (tap_after sample_K armed_history) \<and>
   \<not> wake_owed (tap_after sample_K armed_history) \<and>
   mWantArmed (tap_after sample_K armed_history) ! 1 \<and> armed (tap_after sample_K armed_history) ! 1 \<and>
   gesture_on 1 (commands (tap_after sample_K armed_history)) \<and> timeoutMs (tap_after sample_K armed_history) \<le> kIdleCheckMs"
proof -
  let ?s = "tap_after sample_K armed_history"
  have h: "pos ?s = Polling" "\<not> woken ?s" "\<not> wake_owed ?s" and w: "mWantArmed ?s ! 1" by code_simp+
  from sleeping_thread_serves [of 1, OF _ refl, of sample_K armed_history] h w show ?thesis by simp
qed

subsection \<open>When a gesture goes off\<close>

text \<open>The values that a step writes to the controller.\<close>

definition new_commands :: "tap \<Rightarrow> tap \<Rightarrow> (string \<times> bool) list" where
  "new_commands s s' = drop (length (commands s)) (commands s')"

definition only_on :: "tap \<Rightarrow> tap \<Rightarrow> bool" where
  "only_on s s' \<longleftrightarrow> (\<exists>c. commands s' = commands s @ c \<and> (\<forall>v\<in>fst ` set c. \<exists>j<2. v = on (kSensors ! j)))"

lemma only_on_refl: "commands s' = commands s \<Longrightarrow> only_on s s'"
  by (simp add: only_on_def)

lemma only_on_trans: "only_on s t \<Longrightarrow> only_on t u \<Longrightarrow> only_on s u"
  unfolding only_on_def by (force simp: ball_Un)

lemma only_on_no_off: "only_on s s' \<Longrightarrow> i < 2 \<Longrightarrow> (off (kSensors ! i), ok) \<notin> set (new_commands s s')"
  using on_off_distinct(4) [of i] unfolding only_on_def new_commands_def by force

lemma arm_only_on: "i < 2 \<Longrightarrow> only_on s (snd (arm io i any s))"
  by (cases rule: arm_eq [of io i any s]) (auto simp: only_on_def)

lemma take_one_only_on: "i < 2 \<Longrightarrow> only_on s (take_one ios m i s)"
  using arm_only_on [of i s "ios i" "anyOf (armed s)"]
  by (auto simp: take_one_def only_on_def split: prod.splits)

lemma run_take_only_on: "only_on s (run_take content ios s)"
proof (cases "readMode content")
  case (Some m)
  have "only_on s (take_one ios m 1 (take_one ios m 0 s))"
    by (rule only_on_trans [OF take_one_only_on take_one_only_on]) simp_all
  then show ?thesis using Some by (simp add: run_take_def fold_sensors only_on_def)
qed (simp add: run_take_def only_on_refl)

lemma run_arm_only_on:
  assumes "i < 2"
  shows "only_on s (run_arm io i s)"
  using arm_only_on [OF assms, of "s\<lparr>pos := (if Suc i < length kSensors then Arming (Suc i) else Idling)\<rparr>" io "anyOf (armed s)"]
  by (auto simp: run_arm_def Let_def only_on_def split: prod.splits)

lemma call_step_commands: "commands (call_step k s) = commands s"
proof -
  have "commands (snd (run_part x s)) = commands s" for x
    by (cases x) (simp_all add: initialize_locked_def activate_locked_def wakeThread_def Let_def)
  then show ?thesis
    by (auto simp: call_step_def split: prod.split option.split) (metis snd_conv)+
qed

lemma idle_one_commands:
  assumes "i < 2" "idle_one now low io i (s, b) = (s', b')"
  obtains c where "commands s' = commands s @ c" "want s' = want s" "\<And>j. j < 2 \<Longrightarrow> j \<noteq> i \<Longrightarrow> length (idleSince s) = 2 \<Longrightarrow> idleSince s' ! j = idleSince s ! j"
    "\<forall>v\<in>fst ` set c. v = off (kSensors ! i) \<and> low \<and> \<not> want s ! i \<and> idleSince s ! i \<noteq> 0 \<and> now - idleSince s ! i \<ge> kIdleNs"
  using assms(2) writeNode_eq [of "fst (io i)" "snd (io i)" "off (kSensors ! i)" s]
  by (auto simp: idle_one_def split: if_splits prod.splits)

lemma run_idle_off:
  assumes "length (idleSince s) = 2" "i < 2" "(off (kSensors ! i), ok) \<in> set (new_commands s (run_idle now now' content io s))"
  shows "low_power content \<and> \<not> want s ! i \<and> idleSince s ! i \<noteq> 0 \<and> now - idleSince s ! i \<ge> kIdleNs"
proof -
  let ?low = "low_power content"
  define f where "f = (lowPowerFailed s \<or> list_ex (\<lambda>i. armed s ! i \<and> \<not> want s ! i) [0..<length kSensors] \<and> readMode content = None)"
  let ?s = "s\<lparr>lowPowerFailed := f, passes := passes s @ [\<lparr>pass_now = now, pass_want = want s, pass_low = ?low\<rparr>]\<rparr>"
  obtain s1 b1 where 1: "idle_one now ?low io 0 (?s, False) = (s1, b1)" by fastforce
  obtain s2 b2 where 2: "idle_one now ?low io 1 (s1, b1) = (s2, b2)" by fastforce
  have fold: "fold (idle_one now ?low io) [0..<length kSensors] (?s, False) = (s2, b2)"
    unfolding kSensors_length fold_sensors 1 by (rule 2)
  have c: "commands (run_idle now now' content io s) = commands s2"
    unfolding run_idle_def Let_def f_def [symmetric] fold prod.case by simp
  obtain c1 where c1: "commands s1 = commands s @ c1" "want s1 = want s" "idleSince s1 ! 1 = idleSince s ! 1"
    "\<forall>v\<in>fst ` set c1. v = off (kSensors ! 0) \<and> ?low \<and> \<not> want s ! 0 \<and> idleSince s ! 0 \<noteq> 0 \<and> now - idleSince s ! 0 \<ge> kIdleNs"
  proof (rule idle_one_commands [OF _ 1])
    fix c
    assume h: "commands s1 = commands ?s @ c" "want s1 = want ?s"
      "\<And>j. j < 2 \<Longrightarrow> j \<noteq> 0 \<Longrightarrow> length (idleSince ?s) = 2 \<Longrightarrow> idleSince s1 ! j = idleSince ?s ! j"
      "\<forall>v\<in>fst ` set c. v = off (kSensors ! 0) \<and> ?low \<and> \<not> want ?s ! 0 \<and> idleSince ?s ! 0 \<noteq> 0 \<and> now - idleSince ?s ! 0 \<ge> kIdleNs"
    have "idleSince s1 ! 1 = idleSince s ! 1" using h(3) [of 1] assms(1) by simp
    then show thesis using h(1,2,4) by (intro that [of c]) simp_all
  qed simp
  obtain c2 where c2: "commands s2 = commands s1 @ c2"
    "\<forall>v\<in>fst ` set c2. v = off (kSensors ! 1) \<and> ?low \<and> \<not> want s1 ! 1 \<and> idleSince s1 ! 1 \<noteq> 0 \<and> now - idleSince s1 ! 1 \<ge> kIdleNs"
    by (rule idle_one_commands [OF _ 2]) auto
  have "(off (kSensors ! i), ok) \<in> set (c1 @ c2)" using assms(3) by (simp add: new_commands_def c c1(1) c2(1))
  with c1 c2(2) sensor_cases [OF assms(2)] on_off_distinct(2) [of 0 1] show ?thesis by force
qed

text \<open>
  C27. A gesture is turned off for two reasons only. A step that writes the off value to the controller ends the thread,
  which was asked to stop; or it is a pass over the idle gestures that is the last of a run of passes, the first of them at
  least \<^verbatim>\<open>kIdleNs\<close> earlier, which all saw the sensor inactive and the controller in low power.
\<close>

theorem gesture_off_after_idle:
  assumes "i < 2" "s = tap_after K es" "s' = tap_step K s e" "(off (kSensors ! i), ok) \<in> set (new_commands s s')"
  shows "pos s = Top \<and> mStop s \<and> pos s' = Stopped \<or>
    (\<exists>now now' content io old new. e = RunIdle now now' content io \<and> pos s = Idling \<and>
      passes s' = old @ new \<and> new \<noteq> [] \<and> pass_now (last new) = now \<and>
      pass_now (last new) - pass_now (hd new) \<ge> kIdleNs \<and> (\<forall>p\<in>set new. \<not> pass_want p ! i \<and> pass_low p))"
proof -
  have ok: "tap_ok s" using tap_after_ok assms(2) by simp
  then have l: "length (armed s) = 2" "length (idleSince s) = 2" and g: "gesture_ok i s" and pl: "place_ok s"
    using assms(1) by (simp_all add: tap_ok_def events_ok_def lengths_ok_def)
  have no: "\<not> only_on s s'" using only_on_no_off assms(1,4) by blast
  have quiet: "commands s' \<noteq> commands s" using no only_on_refl by blast
  show ?thesis
  proof (cases e)
    case (RunIdle now now' content io)
    then have p: "pos s = Idling" and r: "s' = run_idle now now' content io s"
      using quiet assms(3) by (auto simp: tap_step_def split: if_splits)
    let ?p = "\<lparr>pass_now = now, pass_want = want s, pass_low = low_power content\<rparr>"
    have i: "low_power content" "\<not> want s ! i" "idleSince s ! i \<noteq> 0" "now - idleSince s ! i \<ge> kIdleNs"
      using run_idle_off [OF l(2) assms(1), of ok now now' content io] assms(4) r by simp_all
    have ps: "passes s' = passes s @ [?p]"
    proof (rule run_idle_cases [OF l, of now content now' io])
      fix s2 b
      assume e2: "s2 = s\<lparr>lowPowerFailed := lowPowerFailed s2, armed := armed s2, idleSince := idleSince s2,
          commands := commands s2, passes := passes s @ [?p]\<rparr>"
        and "run_idle now now' content io s =
         (if \<not> anyOf (armed s2) then s2\<lparr>mArmed := armed s2, pos := Top\<rparr>
          else s2\<lparr>mArmed := armed s2, timeoutMs := wait_timeout b (earlyDue s) now', pos := Polling\<rparr>)"
      moreover have "passes s2 = passes s @ [?p]" by (subst e2) simp
      ultimately show "passes s' = passes s @ [?p]" using r by simp
    qed
    obtain old new where n: "passes s = old @ new" "new \<noteq> []" "pass_now (hd new) = idleSince s ! i"
      "\<forall>p\<in>set new. \<not> pass_want p ! i \<and> pass_low p" using g i(3) unfolding gesture_ok_def idle_since_def by blast
    have "passes s' = old @ (new @ [?p]) \<and> new @ [?p] \<noteq> [] \<and> pass_now (last (new @ [?p])) = now \<and>
        pass_now (last (new @ [?p])) - pass_now (hd (new @ [?p])) \<ge> kIdleNs \<and>
        (\<forall>p\<in>set (new @ [?p]). \<not> pass_want p ! i \<and> pass_low p)"
      using n i ps by auto
    then show ?thesis using RunIdle p by blast
  next
    case (RunTop now stamp io)
    then have p: "pos s = Top" and r: "s' = run_top K now stamp io s"
      using quiet assms(3) by (auto simp: tap_step_def split: if_splits)
    have "mStop s"
    proof (rule ccontr)
      assume n: "\<not> mStop s"
      obtain s1 early due where f: "fireEarly K now stamp s = (s1, early, due)" by (metis prod_cases3)
      have "commands s1 = commands s" by (rule only_firesD(5) [OF fireEarly_only [OF f]])
      then have "commands s' = commands s" using n f by (simp add: r run_top_def Let_def post_frame)
      with quiet show False by simp
    qed
    moreover have "pos s' = Stopped"
    proof -
      obtain c0 where "off_one io 0 (s\<lparr>pos := Stopped\<rparr>) = s\<lparr>pos := Stopped, commands := c0\<rparr>"
        using off_one_eq [of io 0 "s\<lparr>pos := Stopped\<rparr>"] by auto
      moreover obtain c1 where "off_one io 1 (s\<lparr>pos := Stopped, commands := c0\<rparr>) = s\<lparr>pos := Stopped, commands := c1\<rparr>"
        using off_one_eq [of io 1 "s\<lparr>pos := Stopped, commands := c0\<rparr>"] by auto
      ultimately show ?thesis using \<open>mStop s\<close> by (simp add: r run_top_def fold_sensors)
    qed
    ultimately show ?thesis using p by simp
  next
    case (RunTake content ios)
    then show ?thesis using no run_take_only_on [of s content ios] only_on_refl [of s s] assms(3)
      by (auto simp: tap_step_def split: if_splits)
  next
    case (RunArm io)
    then show ?thesis using no run_arm_only_on [of _ s io] only_on_refl [of s s] assms(3) pl
      by (auto simp: tap_step_def place_ok_def split: position.splits)
  next
    case (RunReport stamp)
    then show ?thesis using quiet assms(3) by (auto simp: tap_step_def report_only split: position.splits)
  next
    case (RunPoll error wk reported content)
    then show ?thesis using quiet assms(3) by (auto simp: tap_step_def run_poll_frame split: if_splits)
  qed (use quiet assms(3) in \<open>auto simp: tap_step_def start_call_def call_step_commands split: if_splits\<close>)
qed

text \<open>The sensor is released, and passes in low power five minutes apart follow.\<close>

definition idle_history :: "tap_event list" where
  "idle_history = armed_history @
     [Activate 2 False, CallStep 2, CallStep 2, RunPoll False True False None,
      RunTop 500 (\<lambda>i. 500) (\<lambda>i. (True, 2)), RunArm good_io, RunArm good_io,
      RunIdle 600 600 (Some ''1 mode[5]'') (\<lambda>i. (True, 2)), RunPoll False True False None,
      RunTop 700 (\<lambda>i. 700) (\<lambda>i. (True, 2)), RunArm good_io, RunArm good_io]"

theorem gesture_off_after_idle_witness:
  "pos (tap_after sample_K idle_history) = Idling \<and> armed (tap_after sample_K idle_history) ! 1 \<and>
   (\<exists>old new. passes (tap_step sample_K (tap_after sample_K idle_history)
        (RunIdle 300000000600 0 (Some ''1 mode[5]'') (\<lambda>i. (True, 2)))) = old @ new \<and> new \<noteq> [] \<and>
      pass_now (last new) = 300000000600 \<and> pass_now (last new) - pass_now (hd new) \<ge> kIdleNs \<and>
      (\<forall>p\<in>set new. \<not> pass_want p ! 1 \<and> pass_low p))"
proof -
  let ?s = "tap_after sample_K idle_history"
  let ?e = "RunIdle 300000000600 0 (Some ''1 mode[5]'') (\<lambda>i. (True, 2))"
  have h: "pos ?s = Idling" "armed ?s ! 1" "new_commands ?s (tap_step sample_K ?s ?e) = [(''-2'', True)]" by code_simp+
  then have "(off (kSensors ! 1), True) \<in> set (new_commands ?s (tap_step sample_K ?s ?e))" by (simp add: kSensors_nth)
  from gesture_off_after_idle [of 1, OF _ refl refl this] h(1,2) show ?thesis by auto
qed

end
