(* ===== verification/Handle_Library.thy ===== *)
theory Handle_Library
  imports FP6_Prelude
begin

text \<open>
  The contract of a library that gives out handles: its client creates, uses and releases them, and the library's memory is safe as long as the client uses only
  handles between their creation and release. The two audio effect libraries and the graphic
  buffers keep it.
\<close>

text \<open>
  What a client relies on, for any such library: \<open>lib_live\<close> tells the handles it may use.
  A creation yields a handle that was not live and makes it live, or an error and changes
  nothing; a release of a live handle succeeds and ends that handle only; operations on live
  handles return and keep them live. \<open>lib_create_args\<close> and \<open>lib_operate_args\<close> say which arguments a caller may pass. Then no sequence of calls that keeps to them ever has
  undefined behaviour.
\<close>

datatype ('h, 'c, 'o) lib_call = Create 'c | Release 'h | Operate 'h 'o

record ('h, 'c, 'o, 's) handle_lib =
  lib_create_op :: "'c \<Rightarrow> 's \<Rightarrow> ((int + 'h) \<times> 's) option"
  lib_release_op :: "'h \<Rightarrow> 's \<Rightarrow> (int \<times> 's) option"
  lib_operate_op :: "'h \<Rightarrow> 'o \<Rightarrow> 's \<Rightarrow> (int \<times> 's) option"
  lib_live :: "'s \<Rightarrow> 'h \<Rightarrow> bool"
  lib_create_args :: "'c \<Rightarrow> 's \<Rightarrow> bool"
  lib_operate_args :: "'o \<Rightarrow> bool"

fun perform :: "('h, 'c, 'o, 's) handle_lib \<Rightarrow> ('h, 'c, 'o) lib_call \<Rightarrow> 's \<Rightarrow> 's option" where
  "perform L (Create c) s = map_option snd (lib_create_op L c s)"
| "perform L (Release h) s = map_option snd (lib_release_op L h s)"
| "perform L (Operate h c) s = map_option snd (lib_operate_op L h c s)"

fun allowed :: "('h, 'c, 'o, 's) handle_lib \<Rightarrow> ('h, 'c, 'o) lib_call \<Rightarrow> 's \<Rightarrow> bool" where
  "allowed L (Create c) s \<longleftrightarrow> lib_create_args L c s"
| "allowed L (Release h) s \<longleftrightarrow> lib_live L s h"
| "allowed L (Operate h c) s \<longleftrightarrow> lib_live L s h \<and> lib_operate_args L c"

text \<open>A sequence of calls that uses only handles that are live when it does, and what it leads to.\<close>

fun well_behaved :: "('h, 'c, 'o, 's) handle_lib \<Rightarrow> ('h, 'c, 'o) lib_call list \<Rightarrow> 's \<Rightarrow> bool" where
  "well_behaved L [] s \<longleftrightarrow> True"
| "well_behaved L (x # xs) s \<longleftrightarrow>
     allowed L x s \<and> (case perform L x s of None \<Rightarrow> True | Some s' \<Rightarrow> well_behaved L xs s')"

fun performs :: "('h, 'c, 'o, 's) handle_lib \<Rightarrow> ('h, 'c, 'o) lib_call list \<Rightarrow> 's \<Rightarrow> 's option" where
  "performs L [] s = Some s"
| "performs L (x # xs) s = (case perform L x s of None \<Rightarrow> None | Some s' \<Rightarrow> performs L xs s')"

locale handle_library =
  fixes L :: "('h, 'c, 'o, 's) handle_lib"
    and ok :: "'s \<Rightarrow> bool"
  assumes create_ok: "ok s \<Longrightarrow> lib_create_args L c s \<Longrightarrow> \<exists>r s'. lib_create_op L c s = Some (r, s') \<and> ok s' \<and>
      (case r of Inl e \<Rightarrow> e < 0 \<and> lib_live L s' = lib_live L s
       | Inr h \<Rightarrow> \<not> lib_live L s h \<and> lib_live L s' = (lib_live L s)(h := True))"
    and release_ok: "ok s \<Longrightarrow> lib_live L s h \<Longrightarrow>
      \<exists>s'. lib_release_op L h s = Some (0, s') \<and> ok s' \<and> lib_live L s' = (lib_live L s)(h := False)"
    and operate_ok: "ok s \<Longrightarrow> lib_live L s h \<Longrightarrow> lib_operate_args L x \<Longrightarrow>
      \<exists>r s'. lib_operate_op L h x s = Some (r, s') \<and> ok s' \<and> lib_live L s' = lib_live L s"
begin

lemma perform_ok:
  assumes "ok s" "allowed L x s"
  shows "\<exists>s'. perform L x s = Some s' \<and> ok s'"
proof (cases x)
  case (Create c)
  then show ?thesis using create_ok [OF assms(1), of c] assms(2) by auto
next
  case (Release h)
  then show ?thesis using release_ok [OF assms(1), of h] assms(2) by auto
next
  case (Operate h c)
  then show ?thesis using operate_ok [OF assms(1), of h c] assms(2) by auto
qed

lemma performs_ok:
  assumes "ok s" "well_behaved L xs s"
  shows "\<exists>s'. performs L xs s = Some s' \<and> ok s'"
  using assms
proof (induction xs arbitrary: s)
  case (Cons x xs)
  from Cons.prems have "\<exists>s'. perform L x s = Some s' \<and> ok s'" by (intro perform_ok) auto
  then obtain s' where "perform L x s = Some s'" "ok s'" by blast
  with Cons.IH [of s'] Cons.prems(2) show ?case by simp
qed simp

text \<open>A sequence is well behaved by the handles alone, whatever the operations do.\<close>

lemma well_behaved_operate:
  assumes "ok s" "lib_live L s h" "lib_operate_args L x"
    and "\<And>s'. ok s' \<Longrightarrow> lib_live L s' = lib_live L s \<Longrightarrow> well_behaved L xs s'"
  shows "well_behaved L (Operate h x # xs) s"
  using operate_ok [OF assms(1-3)] assms(2-4) by auto

lemma well_behaved_release:
  assumes "ok s" "lib_live L s h"
    and "\<And>s'. ok s' \<Longrightarrow> lib_live L s' = (lib_live L s)(h := False) \<Longrightarrow> well_behaved L xs s'"
  shows "well_behaved L (Release h # xs) s"
  using release_ok [OF assms(1,2)] assms(2,3) by auto

end

end
