(* ===== verification/Effect_Api.thy ===== *)
theory Effect_Api
  imports Handle_Library
begin

text \<open>
  What the two audio effect libraries under \<^verbatim>\<open>audio/effects\<close> share: the types of
  \<^verbatim>\<open>hardware/audio_effect.h\<close> they use and the arguments of an effect command.

  That header is not part of the sources. Its constants, its struct sizes and the layout of the
  structs a command carries are fields of the parameter \<open>A\<close>; nothing is assumed of them except
  where a lemma says so. A command's data and reply are memory of some length, a pointer that may be NULL is an
  option, and every access checks the memory, not the sizes the caller says. A result \<open>None\<close> is an access to invalid memory: the code has undefined behaviour there.
\<close>

section \<open>Status codes\<close>

definition EINVAL :: int where "EINVAL = 22"
definition ENOSYS :: int where "ENOSYS = 38"
definition ENOMEM :: int where "ENOMEM = 12"
definition ENODATA :: int where "ENODATA = 61"

lemmas errno_defs = EINVAL_def ENOSYS_def ENOMEM_def ENODATA_def

section \<open>Types of the interface\<close>

record effect_uuid_t =
  timeLow :: u32
  timeMid :: u16
  timeHiAndVersion :: u16
  clockSeq :: u16
  node :: "u8 list"

record effect_descriptor_t =
  d_type :: effect_uuid_t
  d_uuid :: effect_uuid_t
  d_apiVersion :: u32
  d_flags :: u32
  d_cpuLoad :: u16
  d_memoryUsage :: u16
  d_name :: string
  d_implementor :: string

record buffer_config_t =
  samplingRate :: u32
  channels :: u32
  format :: u8
  accessMode :: u8
  cfg_mask :: u16

record effect_config_t =
  inputCfg :: buffer_config_t
  outputCfg :: buffer_config_t

text \<open>A configuration in zeroed memory.\<close>

definition zero_buffer_config :: buffer_config_t where
  "zero_buffer_config = \<lparr>samplingRate = 0, channels = 0, format = 0, accessMode = 0, cfg_mask = 0\<rparr>"

record effect_api =
  EFFECT_CONTROL_API_VERSION :: u32
  EFFECT_FLAG_TYPE_PRE_PROC :: u32
  EFFECT_FLAG_TYPE_INSERT :: u32
  EFFECT_FLAG_VOLUME_IND :: u32
  EFFECT_FLAG_DEVICE_IND :: u32
  EFFECT_FLAG_HW_ACC_TUNNEL :: u32
  EFFECT_FLAG_OFFLOAD_SUPPORTED :: u32
  EFFECT_FLAG_NO_PROCESS :: u32
  EFFECT_CONFIG_SMP_RATE :: u16
  EFFECT_CONFIG_CHANNELS :: u16
  EFFECT_CONFIG_FORMAT :: u16
  EFFECT_BUFFER_ACCESS_ACCUMULATE :: u8
  AUDIO_CHANNEL_IN_MONO :: u32
  AUDIO_FORMAT_PCM_16_BIT :: u8
  AUDIO_DEVICE_NONE :: u32
  AUDIO_DEVICE_OUT_EARPIECE :: u32
  AUDIO_DEVICE_OUT_SPEAKER :: u32
  AUDIO_DEVICE_OUT_WIRED_HEADSET :: u32
  AUDIO_DEVICE_OUT_WIRED_HEADPHONE :: u32
  AUDIO_DEVICE_OUT_SPEAKER_SAFE :: u32
  EFFECT_UUID_NULL :: effect_uuid_t
  FX_IID_AEC :: effect_uuid_t
  FX_IID_NS :: effect_uuid_t
  sizeof_effect_config :: nat
  sizeof_effect_param :: nat
  read_config :: "u8 list \<Rightarrow> effect_config_t"
  read_psize :: "u8 list \<Rightarrow> nat"
  write_status :: "int \<Rightarrow> u8 list \<Rightarrow> u8 list"

datatype effect_cmd =
    CMD_INIT
  | CMD_SET_CONFIG
  | CMD_GET_CONFIG
  | CMD_RESET
  | CMD_ENABLE
  | CMD_DISABLE
  | CMD_SET_PARAM
  | CMD_GET_PARAM
  | CMD_SET_DEVICE
  | CMD_SET_INPUT_DEVICE
  | CMD_SET_VOLUME
  | CMD_SET_AUDIO_MODE
  | CMD_OFFLOAD
  | CMD_OTHER nat

text \<open>
  The arguments of a command: \<open>cmd_data\<close>, the memory at the command's pointer; \<open>reply_size\<close>, the number the size's
  pointer points to; \<open>reply_room\<close>, how many bytes can be written at the reply's pointer. \<open>None\<close> is NULL.
\<close>

record command_args =
  cmd_size :: nat
  cmd_data :: "u8 list option"
  reply_size :: "nat option"
  reply_room :: "nat option"

datatype reply =
    NoReply
  | IntReply int
  | ConfigReply effect_config_t
  | BytesReply "u8 list"

definition sizeof_int :: nat where "sizeof_int = 4"

text \<open>The first \<open>k\<close> bytes of the command's data.\<close>

definition read_cmd :: "nat \<Rightarrow> command_args \<Rightarrow> u8 list option" where
  "read_cmd k c =
     (case cmd_data c of
        None \<Rightarrow> None
      | Some bytes \<Rightarrow> if k \<le> length bytes then Some (take k bytes) else None)"

text \<open>A result that comes with \<open>k\<close> bytes written to the reply.\<close>

definition put_reply :: "nat \<Rightarrow> command_args \<Rightarrow> 'a \<Rightarrow> 'a option" where
  "put_reply k c x = (case reply_room c of None \<Rightarrow> None | Some n \<Rightarrow> if k \<le> n then Some x else None)"

text \<open>The test \<^verbatim>\<open>pReplyData == NULL || *replySize != k\<close>, which reads through \<^verbatim>\<open>replySize\<close>.\<close>

definition bad_reply :: "nat \<Rightarrow> command_args \<Rightarrow> bool option" where
  "bad_reply k c =
     (if reply_room c = None then Some True
      else case reply_size c of None \<Rightarrow> None | Some n \<Rightarrow> Some (n \<noteq> k))"

text \<open>A little-endian 32 bit number at an offset of the data.\<close>

definition read_u32 :: "nat \<Rightarrow> u8 list \<Rightarrow> u32" where
  "read_u32 k bytes =
     ucast (bytes ! k) OR push_bit 8 (ucast (bytes ! (k + 1))) OR
     push_bit 16 (ucast (bytes ! (k + 2))) OR push_bit 24 (ucast (bytes ! (k + 3)))"

text \<open>What the caller of a command promises: the memory is as large as the sizes say.\<close>

definition args_ok :: "command_args \<Rightarrow> bool" where
  "args_ok c \<longleftrightarrow>
     (case reply_room c of None \<Rightarrow> True | Some m \<Rightarrow> (case reply_size c of None \<Rightarrow> False | Some n \<Rightarrow> n \<le> m)) \<and>
     (case cmd_data c of None \<Rightarrow> True | Some bytes \<Rightarrow> cmd_size c \<le> length bytes)"

lemma put_reply_SomeD: "put_reply k c x = Some y \<Longrightarrow> y = x"
  by (simp add: put_reply_def split: option.splits if_splits)

lemma read_cmd_defined: "args_ok c \<Longrightarrow> cmd_data c \<noteq> None \<Longrightarrow> k \<le> cmd_size c \<Longrightarrow> \<exists>bytes. read_cmd k c = Some bytes"
  by (auto simp: args_ok_def read_cmd_def split: option.splits)

text \<open>A test of the reply, as the commands use it.\<close>

lemma reply_cases:
  assumes "args_ok c"
  obtains "bad_reply k c = Some True" | m where "bad_reply k c = Some False" "reply_room c = Some m" "k \<le> m"
  using assms by (auto simp: args_ok_def bad_reply_def split: option.splits)

text \<open>An instance of the interface's constants, with the layout of the header.\<close>

definition sample_read_config :: "u8 list \<Rightarrow> effect_config_t" where
  "sample_read_config bytes =
     (let cfg = \<lparr>samplingRate = (case bytes of [] \<Rightarrow> 0 | b # bs \<Rightarrow> ucast b), channels = 16, format = 1, accessMode = 0, cfg_mask = 0\<rparr>
      in \<lparr>inputCfg = cfg, outputCfg = cfg\<rparr>)"

definition sample_uuid :: "u32 \<Rightarrow> effect_uuid_t" where
  "sample_uuid t = \<lparr>timeLow = t, timeMid = 0, timeHiAndVersion = 0, clockSeq = 0, node = []\<rparr>"

definition sample_effect_api :: effect_api where
  "sample_effect_api =
     \<lparr>EFFECT_CONTROL_API_VERSION = 0x20000, EFFECT_FLAG_TYPE_PRE_PROC = 3, EFFECT_FLAG_TYPE_INSERT = 0,
      EFFECT_FLAG_VOLUME_IND = 0x40, EFFECT_FLAG_DEVICE_IND = 0x100, EFFECT_FLAG_HW_ACC_TUNNEL = 0x8000,
      EFFECT_FLAG_OFFLOAD_SUPPORTED = 0x20000, EFFECT_FLAG_NO_PROCESS = 0x40000, EFFECT_CONFIG_SMP_RATE = 2,
      EFFECT_CONFIG_CHANNELS = 4, EFFECT_CONFIG_FORMAT = 8, EFFECT_BUFFER_ACCESS_ACCUMULATE = 2,
      AUDIO_CHANNEL_IN_MONO = 16, AUDIO_FORMAT_PCM_16_BIT = 1, AUDIO_DEVICE_NONE = 0, AUDIO_DEVICE_OUT_EARPIECE = 1,
      AUDIO_DEVICE_OUT_SPEAKER = 2, AUDIO_DEVICE_OUT_WIRED_HEADSET = 4, AUDIO_DEVICE_OUT_WIRED_HEADPHONE = 8,
      AUDIO_DEVICE_OUT_SPEAKER_SAFE = 0x400000, EFFECT_UUID_NULL = sample_uuid 0,
      FX_IID_AEC = \<lparr>timeLow = 0x7b491460, timeMid = 0x8d4d, timeHiAndVersion = 0x11e0, clockSeq = 0xbd61,
        node = [0x00, 0x02, 0xa5, 0xd5, 0xc5, 0x1b]\<rparr>,
      FX_IID_NS = \<lparr>timeLow = 0x58b4b260, timeMid = 0x8e06, timeHiAndVersion = 0x11e0, clockSeq = 0xaa8e,
        node = [0x00, 0x02, 0xa5, 0xd5, 0xc5, 0x1b]\<rparr>,
      sizeof_effect_config = 2, sizeof_effect_param = 12, read_config = sample_read_config,
      read_psize = (\<lambda>bytes. unat (bytes ! 4)), write_status = (\<lambda>st bytes. bytes)\<rparr>"

end
