(* ===== verification/Voice_Processing.thy ===== *)
theory Voice_Processing
  imports Effect_Api
begin

text \<open>
  The voice pre-processing descriptors, \<^verbatim>\<open>audio/effects/voice_processing.c\<close>: sessions with an echo
  canceler and a noise suppressor each, their state machine, commands, and the library's entry
  points.

  A session is allocated memory: \<open>heap\<close> maps addresses to sessions, \<open>session_list\<close> is the list of
  their nodes, and a handle is the address of a session with the index of one of its effects.
  Using a handle whose session was freed is \<open>None\<close>. An address that an allocation returns, or
  NULL, and the product's own descriptors are arguments. The states are enumerations, so the
  aborts on an unknown state have no counterpart.
\<close>

section \<open>Data\<close>

definition AEC_ID :: nat where "AEC_ID = 0"
definition NS_ID :: nat where "NS_ID = 1"
definition NUM_ID :: nat where "NUM_ID = 2"

datatype session_state = SESSION_STATE_INIT | SESSION_STATE_CONFIG

datatype effect_state = EFFECT_STATE_INIT | EFFECT_STATE_CREATED | EFFECT_STATE_CONFIG | EFFECT_STATE_ACTIVE

record effect_s =
  fx_id :: nat
  fx_state :: effect_state
  fx_session :: nat \<comment> \<open>address of the session the effect is on; 0 is NULL\<close>

record session_s =
  config :: effect_config_t
  effects :: "effect_s list"
  session_state :: session_state
  session_id :: int
  session_io :: int
  created_msk :: u32
  enabled_msk :: u32
  processed_msk :: u32

record voice =
  init_status :: int
  descriptors :: "effect_descriptor_t list"
  uuid_to_id_table :: "effect_uuid_t list"
  session_list :: "nat list"
  heap :: "nat \<Rightarrow> session_s option"

definition qcom_default_aec_descriptor :: "effect_api \<Rightarrow> effect_descriptor_t" where
  "qcom_default_aec_descriptor A =
     \<lparr>d_type = \<lparr>timeLow = 0x7b491460, timeMid = 0x8d4d, timeHiAndVersion = 0x11e0, clockSeq = 0xbd61,
        node = [0x00, 0x02, 0xa5, 0xd5, 0xc5, 0x1b]\<rparr>,
      d_uuid = \<lparr>timeLow = 0x0f8d0d2a, timeMid = 0x59e5, timeHiAndVersion = 0x45fe, clockSeq = 0xb6e4,
        node = [0x24, 0x8c, 0x8a, 0x79, 0x91, 0x09]\<rparr>,
      d_apiVersion = EFFECT_CONTROL_API_VERSION A,
      d_flags = EFFECT_FLAG_TYPE_PRE_PROC A OR EFFECT_FLAG_DEVICE_IND A OR EFFECT_FLAG_HW_ACC_TUNNEL A OR
        EFFECT_FLAG_OFFLOAD_SUPPORTED A,
      d_cpuLoad = 0, d_memoryUsage = 0, d_name = ''Acoustic Echo Canceler'',
      d_implementor = ''Qualcomm Fluence''\<rparr>"

definition qcom_default_ns_descriptor :: "effect_api \<Rightarrow> effect_descriptor_t" where
  "qcom_default_ns_descriptor A =
     \<lparr>d_type = \<lparr>timeLow = 0x58b4b260, timeMid = 0x8e06, timeHiAndVersion = 0x11e0, clockSeq = 0xaa8e,
        node = [0x00, 0x02, 0xa5, 0xd5, 0xc5, 0x1b]\<rparr>,
      d_uuid = \<lparr>timeLow = 0x1d97bb0b, timeMid = 0x9e2f, timeHiAndVersion = 0x4403, clockSeq = 0x9ae3,
        node = [0x58, 0xc2, 0x55, 0x43, 0x06, 0xf8]\<rparr>,
      d_apiVersion = EFFECT_CONTROL_API_VERSION A,
      d_flags = EFFECT_FLAG_TYPE_PRE_PROC A OR EFFECT_FLAG_DEVICE_IND A OR EFFECT_FLAG_HW_ACC_TUNNEL A OR
        EFFECT_FLAG_OFFLOAD_SUPPORTED A,
      d_cpuLoad = 0, d_memoryUsage = 0, d_name = ''Noise Suppression'',
      d_implementor = ''Qualcomm Fluence''\<rparr>"

definition initial_voice :: "effect_api \<Rightarrow> voice" where
  "initial_voice A =
     \<lparr>init_status = 1, descriptors = [qcom_default_aec_descriptor A, qcom_default_ns_descriptor A],
      uuid_to_id_table = [], session_list = [], heap = (\<lambda>a. None)\<rparr>"

section \<open>Helper functions\<close>

definition id_to_uuid :: "effect_api \<Rightarrow> voice \<Rightarrow> nat \<Rightarrow> effect_uuid_t" where
  "id_to_uuid A v i = (if i \<ge> NUM_ID then EFFECT_UUID_NULL A else uuid_to_id_table v ! i)"

fun first_index :: "('a \<Rightarrow> bool) \<Rightarrow> 'a list \<Rightarrow> nat" where
  "first_index p [] = 0"
| "first_index p (x # xs) = (if p x then 0 else Suc (first_index p xs))"

definition uuid_to_id :: "voice \<Rightarrow> effect_uuid_t \<Rightarrow> nat" where
  "uuid_to_id v uuid = first_index (\<lambda>u. u = uuid) (uuid_to_id_table v)"

section \<open>Effects and sessions\<close>

definition msk :: "nat \<Rightarrow> u32" where
  "msk i = push_bit i 1"

definition session_set_fx_enabled :: "nat \<Rightarrow> bool \<Rightarrow> session_s \<Rightarrow> session_s" where
  "session_set_fx_enabled i enabled ss =
     (if enabled then ss\<lparr>enabled_msk := enabled_msk ss OR msk i\<rparr>
      else ss\<lparr>enabled_msk := enabled_msk ss AND NOT (msk i)\<rparr>)\<lparr>processed_msk := 0\<rparr>"

text \<open>\<^verbatim>\<open>effect_set_state\<close> on effect \<open>i\<close> of a session: the status and the session.\<close>

definition leave_active :: "nat \<Rightarrow> session_s \<Rightarrow> session_s" where
  "leave_active i ss =
     (if fx_state (effects ss ! i) = EFFECT_STATE_ACTIVE
      then session_set_fx_enabled (fx_id (effects ss ! i)) False ss else ss)"

fun transition_ok :: "effect_state \<Rightarrow> effect_state \<Rightarrow> bool" where
  "transition_ok old EFFECT_STATE_INIT \<longleftrightarrow> True"
| "transition_ok old EFFECT_STATE_CREATED \<longleftrightarrow> old = EFFECT_STATE_INIT"
| "transition_ok old EFFECT_STATE_CONFIG \<longleftrightarrow> old \<noteq> EFFECT_STATE_INIT"
| "transition_ok old EFFECT_STATE_ACTIVE \<longleftrightarrow> old = EFFECT_STATE_ACTIVE \<or> old = EFFECT_STATE_CONFIG"

definition effect_set_state :: "nat \<Rightarrow> effect_state \<Rightarrow> session_s \<Rightarrow> int \<times> session_s" where
  "effect_set_state i state ss =
     (let old = fx_state (effects ss ! i);
          ss' = (case state of
             EFFECT_STATE_INIT \<Rightarrow> leave_active i ss
           | EFFECT_STATE_CREATED \<Rightarrow> ss
           | EFFECT_STATE_CONFIG \<Rightarrow> leave_active i ss
           | EFFECT_STATE_ACTIVE \<Rightarrow>
               if old = EFFECT_STATE_CONFIG then session_set_fx_enabled (fx_id (effects ss ! i)) True ss else ss)
      in if transition_ok old state
         then (0, ss'\<lparr>effects := (effects ss')[i := (effects ss' ! i)\<lparr>fx_state := state\<rparr>]\<rparr>)
         else (- ENOSYS, ss))"

definition effect_init :: "nat \<Rightarrow> effect_s \<Rightarrow> effect_s" where
  "effect_init i fx = fx\<lparr>fx_id := i, fx_state := EFFECT_STATE_INIT\<rparr>"

definition effect_create :: "nat \<Rightarrow> nat \<Rightarrow> session_s \<Rightarrow> int \<times> session_s" where
  "effect_create i a ss =
     effect_set_state i EFFECT_STATE_CREATED
       (ss\<lparr>effects := (effects ss)[i := (effects ss ! i)\<lparr>fx_session := a\<rparr>]\<rparr>)"

definition effect_release :: "nat \<Rightarrow> session_s \<Rightarrow> int \<times> session_s" where
  "effect_release i ss = effect_set_state i EFFECT_STATE_INIT ss"

definition session_init :: "session_s \<Rightarrow> session_s" where
  "session_init ss =
     ss\<lparr>session_state := SESSION_STATE_INIT, session_id := 0, session_io := 0, created_msk := 0,
        effects := map (\<lambda>i. effect_init i (effects ss ! i)) [0..<NUM_ID]\<rparr>"

definition default_buffer_config :: "effect_api \<Rightarrow> buffer_config_t \<Rightarrow> buffer_config_t" where
  "default_buffer_config A cfg =
     cfg\<lparr>samplingRate := 16000, channels := AUDIO_CHANNEL_IN_MONO A, format := AUDIO_FORMAT_PCM_16_BIT A\<rparr>"

definition session_create_effect :: "effect_api \<Rightarrow> nat \<Rightarrow> nat \<Rightarrow> session_s \<Rightarrow> int \<times> session_s" where
  "session_create_effect A a i ss =
     (let ss = (if created_msk ss = 0
                then ss\<lparr>config := \<lparr>inputCfg = default_buffer_config A (inputCfg (config ss)),
                                   outputCfg = default_buffer_config A (outputCfg (config ss))\<rparr>,
                        enabled_msk := 0, processed_msk := 0\<rparr>
                else ss)
      in case effect_create i a ss of (status, ss) \<Rightarrow>
           if status < 0 then (status, ss)
           else (status, ss\<lparr>created_msk := created_msk ss OR msk i\<rparr>))"

text \<open>Removing a session from the list and freeing it.\<close>

definition drop_session :: "nat \<Rightarrow> voice \<Rightarrow> voice" where
  "drop_session a v = v\<lparr>session_list := remove1 a (session_list v), heap := (heap v)(a := None)\<rparr>"

definition session_release_effect :: "nat \<Rightarrow> nat \<Rightarrow> session_s \<Rightarrow> voice \<Rightarrow> voice" where
  "session_release_effect a i ss v =
     (let ss = snd (effect_release i ss);
          ss = ss\<lparr>created_msk := created_msk ss AND NOT (msk (fx_id (effects ss ! i)))\<rparr>
      in if created_msk ss = 0 then drop_session a v else v\<lparr>heap := (heap v)(a := Some ss)\<rparr>)"

definition session_set_config :: "effect_api \<Rightarrow> effect_config_t \<Rightarrow> session_s \<Rightarrow> int \<times> session_s" where
  "session_set_config A cfg ss =
     (if samplingRate (inputCfg cfg) \<noteq> samplingRate (outputCfg cfg) \<or>
         format (inputCfg cfg) \<noteq> format (outputCfg cfg) \<or> format (inputCfg cfg) \<noteq> AUDIO_FORMAT_PCM_16_BIT A
      then (- EINVAL, ss)
      else if enabled_msk ss \<noteq> 0 then
        (if samplingRate (inputCfg (config ss)) \<noteq> samplingRate (inputCfg cfg) \<or>
            channels (inputCfg (config ss)) \<noteq> channels (inputCfg cfg) \<or>
            channels (outputCfg (config ss)) \<noteq> channels (outputCfg cfg)
         then (- ENOSYS, ss) else (0, ss))
      else (0, ss\<lparr>config := cfg, session_state := SESSION_STATE_CONFIG\<rparr>))"

definition session_get_config :: "effect_api \<Rightarrow> session_s \<Rightarrow> effect_config_t" where
  "session_get_config A ss =
     (let m = EFFECT_CONFIG_SMP_RATE A OR EFFECT_CONFIG_CHANNELS A OR EFFECT_CONFIG_FORMAT A
      in \<lparr>inputCfg = (inputCfg (config ss))\<lparr>cfg_mask := m\<rparr>, outputCfg = (outputCfg (config ss))\<lparr>cfg_mask := m\<rparr>\<rparr>)"

section \<open>The library's globals\<close>

text \<open>
  \<^verbatim>\<open>get_session\<close>. \<open>fresh\<close>: what \<^verbatim>\<open>calloc\<close> returns, should a session be allocated; \<open>zero_config\<close>
  is its zeroed configuration.
\<close>

definition zero_session :: session_s where
  "zero_session = \<lparr>config = \<lparr>inputCfg = zero_buffer_config, outputCfg = zero_buffer_config\<rparr>,
     effects = replicate NUM_ID \<lparr>fx_id = 0, fx_state = EFFECT_STATE_INIT, fx_session = 0\<rparr>,
     session_state = SESSION_STATE_INIT, session_id = 0, session_io = 0,
     created_msk = 0, enabled_msk = 0, processed_msk = 0\<rparr>"

fun find_session :: "(nat \<Rightarrow> session_s option) \<Rightarrow> int \<Rightarrow> nat list \<Rightarrow> (nat \<times> session_s) option" where
  "find_session h sid [] = None"
| "find_session h sid (a # as) =
     (case h a of
        None \<Rightarrow> None
      | Some ss \<Rightarrow> if session_id ss = sid then Some (a, ss) else find_session h sid as)"

definition get_session :: "nat option \<Rightarrow> nat \<Rightarrow> int \<Rightarrow> int \<Rightarrow> voice \<Rightarrow> (nat \<times> session_s) option \<times> voice" where
  "get_session fresh i sid ioId v =
     (case find_session (heap v) sid (session_list v) of
        Some (a, ss) \<Rightarrow> if created_msk ss AND msk i \<noteq> 0 then (None, v) else (Some (a, ss), v)
      | None \<Rightarrow>
          (case fresh of
             None \<Rightarrow> (None, v)
           | Some a \<Rightarrow>
               let ss = (session_init zero_session)\<lparr>session_id := sid, session_io := ioId\<rparr>
               in (Some (a, ss), v\<lparr>session_list := session_list v @ [a], heap := (heap v)(a := Some ss)\<rparr>)))"

text \<open>The product's descriptors, if its library is there and has them.\<close>

record product_library =
  qcom_product_aec_descriptor :: "effect_descriptor_t option"
  qcom_product_ns_descriptor :: "effect_descriptor_t option"

definition init :: "effect_api \<Rightarrow> product_library option \<Rightarrow> voice \<Rightarrow> voice" where
  "init A library v =
     (if init_status v \<le> 0 then v
      else let ds = (case library of
               None \<Rightarrow> descriptors v
             | Some p \<Rightarrow>
                 let ds = (case qcom_product_aec_descriptor p of None \<Rightarrow> descriptors v | Some d \<Rightarrow> (descriptors v)[AEC_ID := d])
                 in (case qcom_product_ns_descriptor p of None \<Rightarrow> ds | Some d \<Rightarrow> ds[NS_ID := d]))
        in v\<lparr>descriptors := ds, uuid_to_id_table := [FX_IID_AEC A, FX_IID_NS A], session_list := [], init_status := 0\<rparr>)"

definition get_descriptor :: "voice \<Rightarrow> effect_uuid_t \<Rightarrow> effect_descriptor_t option" where
  "get_descriptor v uuid = find (\<lambda>d. d_uuid d = uuid) (descriptors v)"

section \<open>Effect interface\<close>

type_synonym handle = "nat \<times> nat"

text \<open>The effect a handle points to, if its memory is still there.\<close>

definition deref :: "handle \<Rightarrow> voice \<Rightarrow> effect_s option" where
  "deref h v = map_option (\<lambda>ss. effects ss ! snd h) (heap v (fst h))"

definition fx_process :: "handle option \<Rightarrow> bool \<Rightarrow> bool \<Rightarrow> voice \<Rightarrow> (int \<times> voice) option" where
  "fx_process self in_ok out_ok v =
     (case self of
        None \<Rightarrow> Some (- EINVAL, v)
      | Some h \<Rightarrow>
          if \<not> in_ok \<or> \<not> out_ok then Some (- EINVAL, v)
          else (case deref h v of
            None \<Rightarrow> None
          | Some fx \<Rightarrow>
              (case heap v (fx_session fx) of
                 None \<Rightarrow> None
               | Some ss \<Rightarrow>
                   let ss = ss\<lparr>processed_msk := processed_msk ss OR msk (fx_id fx)\<rparr>
                   in if processed_msk ss AND enabled_msk ss = enabled_msk ss
                      then Some (0, v\<lparr>heap := (heap v)(fx_session fx := Some (ss\<lparr>processed_msk := 0\<rparr>))\<rparr>)
                      else Some (- ENODATA, v\<lparr>heap := (heap v)(fx_session fx := Some ss)\<rparr>))))"

text \<open>Setting the state of the effect a handle points to.\<close>

definition set_state :: "handle \<Rightarrow> effect_state \<Rightarrow> voice \<Rightarrow> (int \<times> voice) option" where
  "set_state h state v =
     (case heap v (fst h) of
        None \<Rightarrow> None
      | Some ss \<Rightarrow>
          (case effect_set_state (snd h) state ss of
             (status, ss) \<Rightarrow> Some (status, v\<lparr>heap := (heap v)(fst h := Some ss)\<rparr>)))"

definition cmd_set_config :: "effect_api \<Rightarrow> command_args \<Rightarrow> handle \<Rightarrow> effect_s \<Rightarrow> voice \<Rightarrow> (int \<times> reply \<times> voice) option" where
  "cmd_set_config A c h fx v =
     (if cmd_data c = None \<or> cmd_size c \<noteq> sizeof_effect_config A then Some (- EINVAL, NoReply, v)
      else case bad_reply sizeof_int c of
        None \<Rightarrow> None
      | Some bad \<Rightarrow>
          if bad then Some (- EINVAL, NoReply, v)
          else (case (read_cmd (sizeof_effect_config A) c, heap v (fx_session fx)) of
            (Some bytes, Some ss) \<Rightarrow>
              (case session_set_config A (read_config A bytes) ss of
                 (status, ss) \<Rightarrow>
                   let v = v\<lparr>heap := (heap v)(fx_session fx := Some ss)\<rparr>
                   in if status \<noteq> 0 then put_reply sizeof_int c (0, IntReply status, v)
                      else if fx_state fx \<noteq> EFFECT_STATE_ACTIVE
                      then (case set_state h EFFECT_STATE_CONFIG v of
                              None \<Rightarrow> None
                            | Some (status, v) \<Rightarrow> put_reply sizeof_int c (0, IntReply status, v))
                      else put_reply sizeof_int c (0, IntReply 0, v))
          | _ \<Rightarrow> None))"

definition cmd_get_config :: "effect_api \<Rightarrow> command_args \<Rightarrow> effect_s \<Rightarrow> voice \<Rightarrow> (int \<times> reply \<times> voice) option" where
  "cmd_get_config A c fx v =
     (case bad_reply (sizeof_effect_config A) c of
        None \<Rightarrow> None
      | Some bad \<Rightarrow>
          if bad then Some (- EINVAL, NoReply, v)
          else (case heap v (fx_session fx) of
            None \<Rightarrow> None
          | Some ss \<Rightarrow> put_reply (sizeof_effect_config A) c (0, ConfigReply (session_get_config A ss), v)))"

text \<open>
  \<^verbatim>\<open>EFFECT_CMD_GET_PARAM\<close> copies the header and the parameter to the reply. The sizes are
  unsigned, and the subtractions come after the tests that keep them from wrapping; the tests of the parameter's size
  read it from the data.
\<close>

definition cmd_get_param :: "effect_api \<Rightarrow> command_args \<Rightarrow> voice \<Rightarrow> (int \<times> reply \<times> voice) option" where
  "cmd_get_param A c v =
     (if cmd_data c = None \<or> cmd_size c < sizeof_effect_param A \<or> reply_room c = None then Some (- EINVAL, NoReply, v)
      else case reply_size c of
        None \<Rightarrow> None
      | Some n \<Rightarrow>
          if n < sizeof_effect_param A then Some (- EINVAL, NoReply, v)
          else (case read_cmd (sizeof_effect_param A) c of
            None \<Rightarrow> None
          | Some header \<Rightarrow>
              let psize = read_psize A header; k = sizeof_effect_param A + psize in
              if psize > n - sizeof_effect_param A \<or> psize > cmd_size c - sizeof_effect_param A
              then Some (- EINVAL, NoReply, v)
              else (case read_cmd k c of
                None \<Rightarrow> None
              | Some bytes \<Rightarrow> put_reply k c (0, BytesReply (write_status A (- ENOSYS) bytes), v))))"

definition cmd_set_param :: "effect_api \<Rightarrow> command_args \<Rightarrow> voice \<Rightarrow> (int \<times> reply \<times> voice) option" where
  "cmd_set_param A c v =
     (if cmd_data c = None \<or> cmd_size c < sizeof_effect_param A then Some (- EINVAL, NoReply, v)
      else case bad_reply 4 c of
        None \<Rightarrow> None
      | Some bad \<Rightarrow>
          if bad then Some (- EINVAL, NoReply, v)
          else (case read_cmd (sizeof_effect_param A) c of
            None \<Rightarrow> None
          | Some header \<Rightarrow>
              if read_psize A header \<noteq> 4 then Some (- EINVAL, NoReply, v)
              else put_reply sizeof_int c (0, IntReply (- ENOSYS), v)))"

definition cmd_state :: "command_args \<Rightarrow> handle \<Rightarrow> effect_state \<Rightarrow> voice \<Rightarrow> (int \<times> reply \<times> voice) option" where
  "cmd_state c h state v =
     (case bad_reply sizeof_int c of
        None \<Rightarrow> None
      | Some bad \<Rightarrow>
          if bad then Some (- EINVAL, NoReply, v)
          else (case set_state h state v of
            None \<Rightarrow> None
          | Some (status, v) \<Rightarrow> put_reply sizeof_int c (0, IntReply status, v)))"

text \<open>The commands whose value is only logged: the log line reads it.\<close>

definition cmd_value :: "command_args \<Rightarrow> voice \<Rightarrow> (int \<times> reply \<times> voice) option" where
  "cmd_value c v =
     (if cmd_data c = None \<or> cmd_size c \<noteq> 4 then Some (- EINVAL, NoReply, v)
      else case read_cmd sizeof_int c of None \<Rightarrow> None | Some bytes \<Rightarrow> Some (0, NoReply, v))"

definition fx_command :: "effect_api \<Rightarrow> handle option \<Rightarrow> effect_cmd \<Rightarrow> command_args \<Rightarrow> voice \<Rightarrow> (int \<times> reply \<times> voice) option" where
  "fx_command A self cmdCode c v =
     (case self of
        None \<Rightarrow> Some (- EINVAL, NoReply, v)
      | Some h \<Rightarrow>
          (case deref h v of
             None \<Rightarrow> None
           | Some fx \<Rightarrow>
               (case cmdCode of
                  CMD_INIT \<Rightarrow>
                    (case bad_reply sizeof_int c of
                       None \<Rightarrow> None
                     | Some bad \<Rightarrow> if bad then Some (- EINVAL, NoReply, v) else put_reply sizeof_int c (0, IntReply 0, v))
                | CMD_SET_CONFIG \<Rightarrow> cmd_set_config A c h fx v
                | CMD_GET_CONFIG \<Rightarrow> cmd_get_config A c fx v
                | CMD_RESET \<Rightarrow> Some (0, NoReply, v)
                | CMD_GET_PARAM \<Rightarrow> cmd_get_param A c v
                | CMD_SET_PARAM \<Rightarrow> cmd_set_param A c v
                | CMD_ENABLE \<Rightarrow> cmd_state c h EFFECT_STATE_ACTIVE v
                | CMD_DISABLE \<Rightarrow> cmd_state c h EFFECT_STATE_CONFIG v
                | CMD_SET_DEVICE \<Rightarrow> cmd_value c v
                | CMD_SET_INPUT_DEVICE \<Rightarrow> cmd_value c v
                | CMD_SET_VOLUME \<Rightarrow> cmd_value c v
                | CMD_SET_AUDIO_MODE \<Rightarrow> cmd_value c v
                | _ \<Rightarrow> Some (- EINVAL, NoReply, v))))"

definition fx_get_descriptor :: "handle option \<Rightarrow> bool \<Rightarrow> voice \<Rightarrow> (int \<times> effect_descriptor_t option) option" where
  "fx_get_descriptor self out_present v =
     (case self of
        None \<Rightarrow> Some (- EINVAL, None)
      | Some h \<Rightarrow>
          if \<not> out_present then Some (- EINVAL, None)
          else (case deref h v of None \<Rightarrow> None | Some fx \<Rightarrow> Some (0, Some (descriptors v ! fx_id fx))))"

section \<open>Library interface\<close>

definition lib_create ::
    "effect_api \<Rightarrow> product_library option \<Rightarrow> nat option \<Rightarrow> effect_uuid_t \<Rightarrow> int \<Rightarrow> int \<Rightarrow> voice \<Rightarrow> (int + handle) \<times> voice" where
  "lib_create A library fresh uuid sid ioId v =
     (let v = init A library v in
      if init_status v \<noteq> 0 then (Inl (init_status v), v)
      else case get_descriptor v uuid of
        None \<Rightarrow> (Inl (- EINVAL), v)
      | Some desc \<Rightarrow>
          let i = uuid_to_id v (d_type desc) in
          if i \<ge> NUM_ID then (Inl (- EINVAL), v)
          else (case get_session fresh i sid ioId v of
            (None, v) \<Rightarrow> (Inl (- EINVAL), v)
          | (Some (a, ss), v) \<Rightarrow>
              (case session_create_effect A a i ss of
                 (status, ss) \<Rightarrow>
                   if status < 0 \<and> created_msk ss = 0 then (Inl status, drop_session a v)
                   else (if status < 0 then Inl status else Inr (a, i), v\<lparr>heap := (heap v)(a := Some ss)\<rparr>))))"

definition lib_release :: "effect_api \<Rightarrow> product_library option \<Rightarrow> handle \<Rightarrow> voice \<Rightarrow> (int \<times> voice) option" where
  "lib_release A library h v =
     (let v = init A library v in
      if init_status v \<noteq> 0 then Some (init_status v, v)
      else case deref h v of
        None \<Rightarrow> if session_list v = [] then Some (- EINVAL, v) else None
      | Some fx \<Rightarrow>
          if fx_session fx \<in> set (session_list v)
          then (case heap v (fx_session fx) of
                  None \<Rightarrow> None
                | Some ss \<Rightarrow> Some (0, session_release_effect (fx_session fx) (snd h) ss v))
          else Some (- EINVAL, v))"

definition lib_get_descriptor ::
    "effect_api \<Rightarrow> product_library option \<Rightarrow> effect_uuid_t option \<Rightarrow> bool \<Rightarrow> voice \<Rightarrow> int \<times> effect_descriptor_t option \<times> voice" where
  "lib_get_descriptor A library uuid out_present v =
     (case uuid of
        None \<Rightarrow> (- EINVAL, None, v)
      | Some u \<Rightarrow>
          if \<not> out_present then (- EINVAL, None, v)
          else let v = init A library v in
            if init_status v \<noteq> 0 then (init_status v, None, v)
            else (case get_descriptor v u of None \<Rightarrow> (- EINVAL, None, v) | Some d \<Rightarrow> (0, Some d, v)))"

section \<open>Masks and states\<close>

lemma bit_msk: "i < 32 \<Longrightarrow> bit (msk i) j \<longleftrightarrow> j = i"
  by (auto simp: msk_def bit_exp_iff)

lemma bit_set_msk: "i < 32 \<Longrightarrow> bit (w OR msk i) j \<longleftrightarrow> bit w j \<or> j = i"
  by (simp add: bit_or_iff bit_msk)

lemma bit_clear_msk: "i < 32 \<Longrightarrow> bit (w AND NOT (msk i)) j \<longleftrightarrow> bit w j \<and> j \<noteq> i"
  using bit_imp_le_length [of w j] by (auto simp: bit_and_iff bit_not_iff bit_msk)

lemma test_msk: "i < 32 \<Longrightarrow> w AND msk i \<noteq> 0 \<longleftrightarrow> bit w i"
proof -
  assume i: "i < 32"
  have "w AND msk i = (if bit w i then msk i else 0)"
    by (rule bit_eqI) (auto simp: bit_and_iff bit_msk [OF i])
  moreover have "msk i \<noteq> 0" using bit_msk [OF i, of i] by auto
  ultimately show ?thesis by simp
qed

lemma mask_eq_0: "(w :: u32) = 0 \<longleftrightarrow> (\<forall>j. \<not> bit w j)"
  by (metis bit_0_eq bit_eqI bot_apply bot_bool_def)

text \<open>The masks of a session say what its effects' states are.\<close>

definition masks_ok :: "session_s \<Rightarrow> bool" where
  "masks_ok ss \<longleftrightarrow> length (effects ss) = 2 \<and>
     (\<forall>j. bit (created_msk ss) j \<longleftrightarrow> j < 2 \<and> fx_state (effects ss ! j) \<noteq> EFFECT_STATE_INIT) \<and>
     (\<forall>j. bit (enabled_msk ss) j \<longleftrightarrow> j < 2 \<and> fx_state (effects ss ! j) = EFFECT_STATE_ACTIVE) \<and>
     (\<forall>j<2. fx_id (effects ss ! j) = j)"

definition owner_ok :: "nat \<Rightarrow> session_s \<Rightarrow> bool" where
  "owner_ok a ss \<longleftrightarrow> (\<forall>j<2. fx_state (effects ss ! j) \<noteq> EFFECT_STATE_INIT \<longrightarrow> fx_session (effects ss ! j) = a)"

lemma masks_okD:
  assumes "masks_ok ss"
  shows "length (effects ss) = 2"
    "bit (created_msk ss) j \<longleftrightarrow> j < 2 \<and> fx_state (effects ss ! j) \<noteq> EFFECT_STATE_INIT"
    "bit (enabled_msk ss) j \<longleftrightarrow> j < 2 \<and> fx_state (effects ss ! j) = EFFECT_STATE_ACTIVE"
    "j < 2 \<Longrightarrow> fx_id (effects ss ! j) = j"
  using assms unfolding masks_ok_def by blast+

text \<open>What a change of state does.\<close>

lemma effect_set_state_spec:
  assumes ok: "masks_ok ss" and i: "i < 2" and r: "effect_set_state i st ss = (r, ss')"
  shows "\<not> transition_ok (fx_state (effects ss ! i)) st \<Longrightarrow> r = - ENOSYS \<and> ss' = ss"
    and "transition_ok (fx_state (effects ss ! i)) st \<Longrightarrow> r = 0 \<and> created_msk ss' = created_msk ss \<and>
      effects ss' = (effects ss)[i := (effects ss ! i)\<lparr>fx_state := st\<rparr>] \<and>
      config ss' = config ss \<and> session_id ss' = session_id ss \<and>
      (\<forall>j. bit (enabled_msk ss') j \<longleftrightarrow> (if j = i then st = EFFECT_STATE_ACTIVE else bit (enabled_msk ss) j))"
proof -
  have d: "fx_id (effects ss ! i) = i" "bit (enabled_msk ss) i \<longleftrightarrow> fx_state (effects ss ! i) = EFFECT_STATE_ACTIVE"
    using masks_okD(3,4) [OF ok, of i] i by simp_all
  show "r = - ENOSYS \<and> ss' = ss" if "\<not> transition_ok (fx_state (effects ss ! i)) st"
    using r that by (simp add: effect_set_state_def Let_def)
  show "r = 0 \<and> created_msk ss' = created_msk ss \<and>
      effects ss' = (effects ss)[i := (effects ss ! i)\<lparr>fx_state := st\<rparr>] \<and>
      config ss' = config ss \<and> session_id ss' = session_id ss \<and>
      (\<forall>j. bit (enabled_msk ss') j \<longleftrightarrow> (if j = i then st = EFFECT_STATE_ACTIVE else bit (enabled_msk ss) j))"
    if "transition_ok (fx_state (effects ss ! i)) st"
    using r that d i
    by (cases st; cases "fx_state (effects ss ! i)")
      (auto simp: effect_set_state_def Let_def leave_active_def session_set_fx_enabled_def bit_set_msk bit_clear_msk)
qed

text \<open>Changes of state among the created ones keep the masks in line.\<close>

lemma masks_ok_state:
  assumes ok: "masks_ok ss" and i: "i < 2" and r: "effect_set_state i st ss = (r, ss')"
    and st: "st = EFFECT_STATE_CONFIG \<or> st = EFFECT_STATE_ACTIVE"
  shows "masks_ok ss'" "created_msk ss' = created_msk ss" "owner_ok a ss \<Longrightarrow> owner_ok a ss'" "session_id ss' = session_id ss"
    "config ss' = config ss"
proof -
  have "masks_ok ss' \<and> created_msk ss' = created_msk ss \<and> (owner_ok a ss \<longrightarrow> owner_ok a ss') \<and> session_id ss' = session_id ss \<and>
    config ss' = config ss"
  proof (cases "transition_ok (fx_state (effects ss ! i)) st")
    case False
    then show ?thesis using effect_set_state_spec(1) [OF ok i r] ok by simp
  next
    case True
    note sp = effect_set_state_spec(2) [OF ok i r True]
    have old: "fx_state (effects ss ! i) \<noteq> EFFECT_STATE_INIT" using True st by auto
    have l: "length (effects ss) = 2" using masks_okD(1) [OF ok] .
    have e: "fx_state (effects ss' ! j) = (if j = i then st else fx_state (effects ss ! j))"
      "fx_id (effects ss' ! j) = fx_id (effects ss ! j)" "fx_session (effects ss' ! j) = fx_session (effects ss ! j)" if "j < 2" for j
      using sp l i that by (cases "j = i"; simp)+
    have "masks_ok ss'"
      unfolding masks_ok_def
    proof (intro conjI allI impI)
      show "length (effects ss') = 2" using sp l by simp
      fix j
      show "bit (created_msk ss') j \<longleftrightarrow> j < 2 \<and> fx_state (effects ss' ! j) \<noteq> EFFECT_STATE_INIT"
        using sp masks_okD(2) [OF ok, of j] e(1) [of j] old st by (cases "j < 2") auto
      show "bit (enabled_msk ss') j \<longleftrightarrow> j < 2 \<and> fx_state (effects ss' ! j) = EFFECT_STATE_ACTIVE"
        using sp masks_okD(3) [OF ok, of j] e(1) [of j] i by (cases "j < 2") auto
      show "j < 2 \<Longrightarrow> fx_id (effects ss' ! j) = j" using e(2) [of j] masks_okD(4) [OF ok] by simp
    qed
    moreover have "owner_ok a ss \<longrightarrow> owner_ok a ss'"
      using e old unfolding owner_ok_def by auto
    ultimately show ?thesis using sp by blast
  qed
  then show "masks_ok ss'" "created_msk ss' = created_msk ss" "owner_ok a ss \<Longrightarrow> owner_ok a ss'" "session_id ss' = session_id ss"
    "config ss' = config ss" by blast+
qed

section \<open>The invariant\<close>

definition session_ok :: "nat \<Rightarrow> session_s \<Rightarrow> bool" where
  "session_ok a ss \<longleftrightarrow> masks_ok ss \<and> owner_ok a ss \<and> created_msk ss \<noteq> 0"

definition sessions_ok :: "voice \<Rightarrow> bool" where
  "sessions_ok v \<longleftrightarrow> distinct (session_list v) \<and> (\<forall>a. a \<in> set (session_list v) \<longleftrightarrow> heap v a \<noteq> None) \<and>
     (\<forall>a ss. heap v a = Some ss \<longrightarrow> session_ok a ss) \<and>
     (\<forall>a b ss tt. heap v a = Some ss \<longrightarrow> heap v b = Some tt \<longrightarrow> session_id ss = session_id tt \<longrightarrow> a = b)"

definition voice_ok :: "voice \<Rightarrow> bool" where
  "voice_ok v \<longleftrightarrow> sessions_ok v \<and>
     (init_status v = 0 \<and> length (uuid_to_id_table v) = NUM_ID \<or> init_status v = 1 \<and> session_list v = [])"

definition live_effects :: "voice \<Rightarrow> handle set" where
  "live_effects v = {(a, i). i < 2 \<and> (\<exists>ss. heap v a = Some ss \<and> bit (created_msk ss) i)}"

lemma sessions_okD:
  assumes "sessions_ok v"
  shows "distinct (session_list v)" "a \<in> set (session_list v) \<longleftrightarrow> heap v a \<noteq> None"
    "heap v a = Some ss \<Longrightarrow> session_ok a ss"
    "heap v a = Some ss \<Longrightarrow> heap v b = Some tt \<Longrightarrow> session_id ss = session_id tt \<Longrightarrow> a = b"
  using assms unfolding sessions_ok_def by blast+

lemma sessions_ok_update:
  assumes "sessions_ok v" "heap v a = Some ss" "session_ok a ss'" "session_id ss' = session_id ss"
  shows "sessions_ok (v\<lparr>heap := (heap v)(a := Some ss')\<rparr>)"
  unfolding sessions_ok_def
proof (intro conjI allI impI)
  let ?v = "v\<lparr>heap := (heap v)(a := Some ss')\<rparr>"
  show "distinct (session_list ?v)" using sessions_okD(1) [OF assms(1)] by simp
  show "b \<in> set (session_list ?v) \<longleftrightarrow> heap ?v b \<noteq> None" for b
    using sessions_okD(2) [OF assms(1), of b] assms(2) by auto
  show "session_ok b tt" if "heap ?v b = Some tt" for b tt
    using that sessions_okD(3) [OF assms(1), of b tt] assms(3) by (auto split: if_splits)
  have old: "\<exists>tt'. heap v d = Some tt' \<and> session_id tt' = session_id tt" if "heap ?v d = Some tt" for d tt
    using that assms(2,4) by (cases "d = a") simp_all
  show "b = c" if bc: "heap ?v b = Some tt" "heap ?v c = Some uu" "session_id tt = session_id uu" for b c tt uu
  proof -
    obtain tt' uu' where "heap v b = Some tt'" "heap v c = Some uu'" "session_id tt' = session_id uu'"
      using old [OF bc(1)] old [OF bc(2)] bc(3) by auto
    then show ?thesis by (rule sessions_okD(4) [OF assms(1)])
  qed
qed

lemma sessions_ok_drop:
  assumes "sessions_ok v"
  shows "sessions_ok (drop_session a v)"
  unfolding sessions_ok_def
proof (intro conjI allI impI)
  let ?v = "drop_session a v"
  show "distinct (session_list ?v)" using sessions_okD(1) [OF assms] by (simp add: drop_session_def)
  show "b \<in> set (session_list ?v) \<longleftrightarrow> heap ?v b \<noteq> None" for b
    using sessions_okD(1) [OF assms] sessions_okD(2) [OF assms, of b] by (auto simp: drop_session_def)
  show "session_ok b tt" if "heap ?v b = Some tt" for b tt
    using that sessions_okD(3) [OF assms, of b tt] by (simp add: drop_session_def split: if_splits)
  show "b = c" if "heap ?v b = Some tt" "heap ?v c = Some uu" "session_id tt = session_id uu" for b c tt uu
    using that sessions_okD(4) [OF assms, of b tt c uu] by (simp add: drop_session_def split: if_splits)
qed

lemma sessions_ok_add:
  assumes "sessions_ok v" "heap v a = None" "session_ok a ss"
    and "\<And>b tt. heap v b = Some tt \<Longrightarrow> session_id tt \<noteq> session_id ss"
  shows "sessions_ok (v\<lparr>session_list := session_list v @ [a], heap := (heap v)(a := Some ss)\<rparr>)"
  unfolding sessions_ok_def
proof (intro conjI allI impI)
  let ?v = "v\<lparr>session_list := session_list v @ [a], heap := (heap v)(a := Some ss)\<rparr>"
  show "distinct (session_list ?v)"
    using sessions_okD(1) [OF assms(1)] sessions_okD(2) [OF assms(1), of a] assms(2) by simp
  show "b \<in> set (session_list ?v) \<longleftrightarrow> heap ?v b \<noteq> None" for b
    using sessions_okD(2) [OF assms(1), of b] by auto
  show "session_ok b tt" if "heap ?v b = Some tt" for b tt
    using that sessions_okD(3) [OF assms(1), of b tt] assms(3) by (simp split: if_splits)
  show "b = c" if "heap ?v b = Some tt" "heap ?v c = Some uu" "session_id tt = session_id uu" for b c tt uu
    using that sessions_okD(4) [OF assms(1), of b tt c uu] assms(4) [of b tt] assms(4) [of c uu] by (auto split: if_splits)
qed

lemma live_effects_update:
  assumes "heap v a = Some ss" "created_msk ss' = created_msk ss"
  shows "live_effects (v\<lparr>heap := (heap v)(a := Some ss')\<rparr>) = live_effects v"
  using assms by (auto simp: live_effects_def split: if_splits)

text \<open>A live handle points to a created effect of its own session.\<close>

lemma live_deref:
  assumes "voice_ok v" "(a, i) \<in> live_effects v"
  obtains ss where "heap v a = Some ss" "session_ok a ss" "i < 2" "deref (a, i) v = Some (effects ss ! i)"
    "fx_session (effects ss ! i) = a" "fx_id (effects ss ! i) = i" "fx_state (effects ss ! i) \<noteq> EFFECT_STATE_INIT"
    "init_status v = 0"
proof -
  obtain ss where h: "heap v a = Some ss" "i < 2" "bit (created_msk ss) i" using assms(2) by (auto simp: live_effects_def)
  have so: "sessions_ok v" using assms(1) by (simp add: voice_ok_def)
  have ok: "session_ok a ss" by (rule sessions_okD(3) [OF so h(1)])
  then have m: "masks_ok ss" "owner_ok a ss" by (simp_all add: session_ok_def)
  have st: "fx_state (effects ss ! i) \<noteq> EFFECT_STATE_INIT" using masks_okD(2) [OF m(1)] h(3) by simp
  have "a \<in> set (session_list v)" using sessions_okD(2) [OF so, of a] h(1) by simp
  then have "init_status v = 0" using assms(1) by (auto simp: voice_ok_def)
  moreover have "deref (a, i) v = Some (effects ss ! i)" using h(1) by (simp add: deref_def)
  moreover have "fx_session (effects ss ! i) = a" using m(2) st h(2) by (simp add: owner_ok_def)
  ultimately show ?thesis using that [OF h(1) ok h(2)] st masks_okD(4) [OF m(1) h(2)] by blast
qed

subsection \<open>Operations on live handles\<close>

lemma set_state_ok:
  assumes "voice_ok v" "(a, i) \<in> live_effects v" "st = EFFECT_STATE_CONFIG \<or> st = EFFECT_STATE_ACTIVE"
  shows "\<exists>r v'. set_state (a, i) st v = Some (r, v') \<and> voice_ok v' \<and> live_effects v' = live_effects v"
  using assms(1,2)
proof (rule live_deref)
  fix ss assume h: "heap v a = Some ss" "session_ok a ss" "i < 2"
  obtain r ss' where r: "effect_set_state i st ss = (r, ss')" by fastforce
  have m: "masks_ok ss" "owner_ok a ss" "created_msk ss \<noteq> 0" using h(2) by (simp_all add: session_ok_def)
  note sp = masks_ok_state [OF m(1) h(3) r assms(3)]
  have "session_ok a ss'" using sp(1,2) sp(3) [OF m(2)] m(3) by (simp add: session_ok_def)
  then have "sessions_ok (v\<lparr>heap := (heap v)(a := Some ss')\<rparr>)"
    using assms(1) h(1) sp(4) by (intro sessions_ok_update) (simp_all add: voice_ok_def)
  then show ?thesis using assms(1) h(1) r live_effects_update [OF h(1) sp(2)] by (simp add: set_state_def voice_ok_def)
qed

lemma heap_only_ok:
  assumes "voice_ok v" "heap v a = Some ss" "session_ok a ss'" "session_id ss' = session_id ss" "created_msk ss' = created_msk ss"
  shows "voice_ok (v\<lparr>heap := (heap v)(a := Some ss')\<rparr>)" "live_effects (v\<lparr>heap := (heap v)(a := Some ss')\<rparr>) = live_effects v"
  using assms sessions_ok_update [of v a ss ss'] live_effects_update [of v a ss ss'] by (simp_all add: voice_ok_def)

lemma fx_process_ok:
  assumes "voice_ok v" "(a, i) \<in> live_effects v"
  shows "\<exists>r v'. fx_process (Some (a, i)) p q v = Some (r, v') \<and> voice_ok v' \<and> live_effects v' = live_effects v"
  using assms
proof (rule live_deref)
  fix ss assume h: "heap v a = Some ss" "session_ok a ss" "deref (a, i) v = Some (effects ss ! i)" "fx_session (effects ss ! i) = a"
  have "session_ok a (ss\<lparr>processed_msk := m\<rparr>)" for m
    using h(2) by (simp add: session_ok_def masks_ok_def owner_ok_def)
  note k = heap_only_ok [OF assms(1) h(1) this]
  show ?thesis using h k assms(1) by (simp add: fx_process_def Let_def)
qed

lemma session_set_config_ok:
  assumes "session_set_config A cfg ss = (r, ss')" "session_ok a ss"
  shows "session_ok a ss'" "session_id ss' = session_id ss" "created_msk ss' = created_msk ss" "effects ss' = effects ss"
  using assms by (auto simp: session_set_config_def session_ok_def masks_ok_def owner_ok_def split: if_splits)

lemma cmd_get_param_ok:
  assumes "voice_ok v" "args_ok c"
  shows "\<exists>r y v'. cmd_get_param A c v = Some (r, y, v') \<and> voice_ok v' \<and> live_effects v' = live_effects v"
proof (cases "cmd_data c = None \<or> cmd_size c < sizeof_effect_param A \<or> reply_room c = None")
  case False
  then obtain n m where n: "reply_size c = Some n" "reply_room c = Some m" "n \<le> m"
    using assms(2) by (auto simp: args_ok_def split: option.splits)
  from False obtain header where h: "read_cmd (sizeof_effect_param A) c = Some header"
    using read_cmd_defined [OF assms(2), of "sizeof_effect_param A"] by auto
  let ?k = "sizeof_effect_param A + read_psize A header"
  have "\<exists>bytes. read_cmd ?k c = Some bytes \<and> (\<forall>x. put_reply ?k c x = Some (x :: int \<times> reply \<times> voice))"
    if "\<not> n < sizeof_effect_param A" "\<not> read_psize A header > n - sizeof_effect_param A"
      "\<not> read_psize A header > cmd_size c - sizeof_effect_param A"
  proof -
    have "?k \<le> cmd_size c" "?k \<le> m" using that False n(3) by linarith+
    with read_cmd_defined [OF assms(2), of ?k] False n(2) show ?thesis by (simp add: put_reply_def)
  qed
  with False n(1) h assms(1) show ?thesis by (auto simp: cmd_get_param_def Let_def)
qed (auto simp: cmd_get_param_def assms(1))

lemma fx_command_ok:
  assumes "voice_ok v" "(a, i) \<in> live_effects v" "args_ok c"
  shows "\<exists>r y v'. fx_command A (Some (a, i)) cmd c v = Some (r, y, v') \<and> voice_ok v' \<and> live_effects v' = live_effects v"
  using assms(1,2)
proof (rule live_deref)
  fix ss assume h: "heap v a = Some ss" "session_ok a ss" "deref (a, i) v = Some (effects ss ! i)" "fx_session (effects ss ! i) = a"
  let ?P = "\<lambda>x. \<exists>r y v'. x = Some (r, y, v') \<and> voice_ok v' \<and> live_effects v' = live_effects v"
  note rep = reply_cases [OF assms(3)]
  have init: "?P (case bad_reply sizeof_int c of None \<Rightarrow> None
      | Some bad \<Rightarrow> if bad then Some (- EINVAL, NoReply, v) else put_reply sizeof_int c (0, IntReply 0, v))"
    by (rule rep [of sizeof_int]) (simp_all add: assms(1) put_reply_def)
  have state: "?P (cmd_state c (a, i) st v)" if "st = EFFECT_STATE_CONFIG \<or> st = EFFECT_STATE_ACTIVE" for st
    using set_state_ok [OF assms(1,2) that] assms(1) by (rule_tac rep [of sizeof_int]) (auto simp: cmd_state_def put_reply_def)
  have set_config: "?P (cmd_set_config A c (a, i) (effects ss ! i) v)"
  proof (cases "cmd_data c = None \<or> cmd_size c \<noteq> sizeof_effect_config A")
    case False
    then obtain bytes where b: "read_cmd (sizeof_effect_config A) c = Some bytes"
      using read_cmd_defined [OF assms(3)] by fastforce
    obtain r ss' where r: "session_set_config A (read_config A bytes) ss = (r, ss')" by fastforce
    note sc = session_set_config_ok [OF r h(2)]
    let ?v = "v\<lparr>heap := (heap v)(a := Some ss')\<rparr>"
    note k = heap_only_ok [OF assms(1) h(1) sc(1) sc(2) sc(3)]
    have "(a, i) \<in> live_effects ?v" using k(2) assms(2) by simp
    from set_state_ok [OF k(1) this, of EFFECT_STATE_CONFIG] obtain r2 v2 where
      "set_state (a, i) EFFECT_STATE_CONFIG ?v = Some (r2, v2)" "voice_ok v2" "live_effects v2 = live_effects ?v" by auto
    then show ?thesis using False b r h k assms(1)
      by (rule_tac rep [of sizeof_int]) (auto simp: cmd_set_config_def put_reply_def Let_def)
  qed (auto simp: cmd_set_config_def assms(1))
  have get_config: "?P (cmd_get_config A c (effects ss ! i) v)"
    using h assms(1) by (rule_tac rep [of "sizeof_effect_config A"]) (auto simp: cmd_get_config_def put_reply_def)
  have set_param: "?P (cmd_set_param A c v)"
  proof (cases "cmd_data c = None \<or> cmd_size c < sizeof_effect_param A")
    case False
    with read_cmd_defined [OF assms(3), of "sizeof_effect_param A"] obtain header where
      "read_cmd (sizeof_effect_param A) c = Some header" by fastforce
    with False show ?thesis using assms(1)
      by (rule_tac rep [of 4]) (auto simp: cmd_set_param_def put_reply_def sizeof_int_def)
  qed (auto simp: cmd_set_param_def assms(1))
  have val: "?P (cmd_value c v)"
    using read_cmd_defined [OF assms(3), of sizeof_int] assms(1) by (auto simp: cmd_value_def sizeof_int_def)
  show ?thesis
    using h(3) init state [of EFFECT_STATE_CONFIG] state [of EFFECT_STATE_ACTIVE] set_config get_config
      cmd_get_param_ok [OF assms(1,3), of A] set_param val assms(1)
    by (cases cmd) (simp_all add: fx_command_def)
qed

subsection \<open>Creation and release\<close>

lemma create_effect_ok:
  assumes ok: "masks_ok ss" "owner_ok a ss" and i: "i < 2" and st: "fx_state (effects ss ! i) = EFFECT_STATE_INIT"
  shows "\<exists>ss'. session_create_effect A a i ss = (0, ss') \<and> session_ok a ss' \<and>
    created_msk ss' = created_msk ss OR msk i \<and> session_id ss' = session_id ss"
proof -
  define s1 where "s1 = (if created_msk ss = 0
                then ss\<lparr>config := \<lparr>inputCfg = default_buffer_config A (inputCfg (config ss)),
                                   outputCfg = default_buffer_config A (outputCfg (config ss))\<rparr>,
                        enabled_msk := 0, processed_msk := 0\<rparr>
                else ss)"
  define s2 where "s2 = s1\<lparr>effects := (effects s1)[i := (effects s1 ! i)\<lparr>fx_session := a\<rparr>]\<rparr>"
  have l: "length (effects ss) = 2" by (rule masks_okD(1) [OF ok(1)])
  have e1: "effects s1 = effects ss" "created_msk s1 = created_msk ss" "session_id s1 = session_id ss" by (simp_all add: s1_def)
  have en: "bit (enabled_msk s1) j = bit (enabled_msk ss) j" for j
  proof (cases "created_msk ss = 0")
    case True
    then have "\<not> bit (enabled_msk ss) j" using masks_okD(2,3) [OF ok(1), of j] by simp
    then show ?thesis using True by (simp add: s1_def)
  qed (simp add: s1_def)
  have e2: "fx_state (effects s2 ! j) = fx_state (effects ss ! j)" "fx_id (effects s2 ! j) = fx_id (effects ss ! j)"
    "fx_session (effects s2 ! j) = (if j = i then a else fx_session (effects ss ! j))" if "j < 2" for j
    using that i l by (cases "j = i"; simp add: s2_def e1)+
  have c2: "created_msk s2 = created_msk ss" "enabled_msk s2 = enabled_msk s1" "session_id s2 = session_id ss"
    by (simp_all add: s2_def e1)
  have m2: "masks_ok s2"
    unfolding masks_ok_def using masks_okD [OF ok(1)] e2(1,2) l by (auto simp: c2 en s2_def [THEN arg_cong [of _ _ effects]] e1)
  obtain r s3 where r: "effect_set_state i EFFECT_STATE_CREATED s2 = (r, s3)" by fastforce
  have "transition_ok (fx_state (effects s2 ! i)) EFFECT_STATE_CREATED" using e2(1) [OF i] st by simp
  note sp = effect_set_state_spec(2) [OF m2 i r this]
  let ?s4 = "s3\<lparr>created_msk := created_msk s3 OR msk i\<rparr>"
  have l2: "length (effects s2) = 2" by (rule masks_okD(1) [OF m2])
  have e3: "fx_state (effects s3 ! j) = (if j = i then EFFECT_STATE_CREATED else fx_state (effects ss ! j))"
    "fx_id (effects s3 ! j) = fx_id (effects ss ! j)"
    "fx_session (effects s3 ! j) = (if j = i then a else fx_session (effects ss ! j))" if "j < 2" for j
    using that i l2 sp e2 [OF that] by (cases "j = i"; simp)+
  have "masks_ok ?s4"
    unfolding masks_ok_def
  proof (intro conjI allI impI)
    show "length (effects ?s4) = 2" using sp l2 by simp
    fix j
    show "bit (created_msk ?s4) j \<longleftrightarrow> j < 2 \<and> fx_state (effects ?s4 ! j) \<noteq> EFFECT_STATE_INIT"
      using masks_okD(2) [OF ok(1), of j] sp e3(1) [of j] i by (cases "j < 2") (auto simp: bit_set_msk c2)
    show "bit (enabled_msk ?s4) j \<longleftrightarrow> j < 2 \<and> fx_state (effects ?s4 ! j) = EFFECT_STATE_ACTIVE"
      using masks_okD(3) [OF ok(1), of j] sp e3(1) [of j] i en [of j] by (cases "j < 2") (auto simp: c2)
    show "j < 2 \<Longrightarrow> fx_id (effects ?s4 ! j) = j" using e3(2) [of j] masks_okD(4) [OF ok(1), of j] by simp
  qed
  moreover have "owner_ok a ?s4" using ok(2) e3 by (auto simp: owner_ok_def)
  moreover have "created_msk ?s4 \<noteq> 0" using i bit_set_msk [of i "created_msk s3" i] mask_eq_0 by auto
  moreover have "session_create_effect A a i ss = (0, ?s4)"
    using r sp unfolding session_create_effect_def Let_def s1_def [symmetric] effect_create_def s2_def [symmetric] by simp
  moreover have "session_id s3 = session_id ss" using sp c2(3) by simp
  ultimately show ?thesis using sp by (intro exI [of _ ?s4]) (simp add: session_ok_def c2)
qed

lemma new_session_ok:
  "masks_ok ((session_init zero_session)\<lparr>session_id := x, session_io := y\<rparr>)"
  "owner_ok a ((session_init zero_session)\<lparr>session_id := x, session_io := y\<rparr>)"
  "i < 2 \<Longrightarrow> fx_state (effects ((session_init zero_session)\<lparr>session_id := x, session_io := y\<rparr>) ! i) = EFFECT_STATE_INIT"
  by (auto simp: masks_ok_def owner_ok_def session_init_def zero_session_def effect_init_def NUM_ID_def)

lemma find_session_Some:
  "find_session h sid as = Some (a, ss) \<Longrightarrow> a \<in> set as \<and> h a = Some ss \<and> session_id ss = sid"
  by (induction as) (auto split: option.splits if_splits)

lemma find_session_None:
  "find_session h sid as = None \<Longrightarrow> (\<forall>a\<in>set as. h a \<noteq> None) \<Longrightarrow> a \<in> set as \<Longrightarrow> h a = Some ss \<Longrightarrow> session_id ss \<noteq> sid"
  by (induction as) (auto split: option.splits if_splits)

lemma init_ok:
  assumes "voice_ok v"
  shows "voice_ok (init A library v)" "init_status (init A library v) = 0" "live_effects (init A library v) = live_effects v"
    "heap (init A library v) = heap v"
  using assms by (auto simp: voice_ok_def init_def Let_def sessions_ok_def live_effects_def NUM_ID_def split: option.splits)

lemma lib_create_ok:
  assumes ok: "voice_ok v" and fresh: "\<And>a. fresh = Some a \<Longrightarrow> heap v a = None"
    and r: "lib_create A library fresh uuid sid ioId v = (r, v')"
  shows "voice_ok v'" "case r of Inl e \<Rightarrow> e = - EINVAL \<and> live_effects v' = live_effects v
    | Inr h \<Rightarrow> h \<notin> live_effects v \<and> live_effects v' = insert h (live_effects v)"
proof -
  let ?v = "init A library v"
  note i0 = init_ok [OF ok, of A library]
  have so: "sessions_ok ?v" and tab: "length (uuid_to_id_table ?v) = NUM_ID"
    using i0(1,2) by (auto simp: voice_ok_def)
  have same: "voice_ok ?v \<and> live_effects ?v = live_effects v" using i0 by simp
  have main: "voice_ok v' \<and> (case r of Inl e \<Rightarrow> e = - EINVAL \<and> live_effects v' = live_effects v
    | Inr h \<Rightarrow> h \<notin> live_effects v \<and> live_effects v' = insert h (live_effects v))"
  proof (cases "get_descriptor ?v uuid")
    case None
    then show ?thesis using r i0(2) same by (auto simp: lib_create_def Let_def)
  next
    case (Some desc)
    let ?i = "uuid_to_id ?v (d_type desc)"
    show ?thesis
    proof (cases "?i \<ge> NUM_ID")
      case True
      then show ?thesis using r i0(2) same Some by (auto simp: lib_create_def Let_def)
    next
      case False
      then have i: "?i < 2" by (simp add: NUM_ID_def)
      have go: ?thesis if g: "get_session fresh ?i sid ioId ?v = (Some (a, ss), w)"
        and m: "masks_ok ss" "owner_ok a ss" "fx_state (effects ss ! ?i) = EFFECT_STATE_INIT"
        and w: "\<And>ss'. session_ok a ss' \<Longrightarrow> session_id ss' = session_id ss \<Longrightarrow> sessions_ok (w\<lparr>heap := (heap w)(a := Some ss')\<rparr>)"
        and f: "init_status w = init_status ?v" "uuid_to_id_table w = uuid_to_id_table ?v"
          "\<And>b. b \<noteq> a \<Longrightarrow> heap w b = heap v b"
          "\<And>j. (\<exists>tt. heap v a = Some tt \<and> bit (created_msk tt) j) \<longleftrightarrow> bit (created_msk ss) j" for a ss w
      proof -
        obtain ss' where c: "session_create_effect A a ?i ss = (0, ss')" "session_ok a ss'"
          "created_msk ss' = created_msk ss OR msk ?i" "session_id ss' = session_id ss"
          using create_effect_ok [OF m(1,2) i m(3)] by blast
        let ?w = "w\<lparr>heap := (heap w)(a := Some ss')\<rparr>"
        have rv: "r = Inr (a, ?i)" "v' = ?w"
          using r i0(2) Some False g c(1) by (auto simp: lib_create_def Let_def)
        have "voice_ok ?w" using w [OF c(2,4)] f(1,2) i0(2) tab by (simp add: voice_ok_def)
        moreover have nb: "\<not> bit (created_msk ss) ?i" using masks_okD(2) [OF m(1)] m(3) by simp
        then have "(a, ?i) \<notin> live_effects v" using f(4) by (auto simp: live_effects_def)
        moreover have "(b, j) \<in> live_effects ?w \<longleftrightarrow> (b, j) \<in> insert (a, ?i) (live_effects v)" for b j
        proof (cases "b = a")
          case True
          then show ?thesis using f(4) [of j] c(3) i by (auto simp: live_effects_def bit_set_msk)
        next
          case False
          then show ?thesis using f(3) [OF False] by (simp add: live_effects_def)
        qed
        ultimately show ?thesis using rv by auto
      qed
      show ?thesis
      proof (cases "find_session (heap ?v) sid (session_list ?v)")
        case (Some p)
        then obtain a ss where f: "find_session (heap ?v) sid (session_list ?v) = Some (a, ss)" by (cases p) simp
        from find_session_Some [OF f] have h: "heap ?v a = Some ss" "session_id ss = sid" by auto
        have sok: "session_ok a ss" by (rule sessions_okD(3) [OF so h(1)])
        then have m: "masks_ok ss" "owner_ok a ss" by (simp_all add: session_ok_def)
        have t: "created_msk ss AND msk ?i \<noteq> 0 \<longleftrightarrow> fx_state (effects ss ! ?i) \<noteq> EFFECT_STATE_INIT"
          using test_msk [of ?i "created_msk ss"] masks_okD(2) [OF m(1), of ?i] i by simp
        show ?thesis
        proof (cases "fx_state (effects ss ! ?i) = EFFECT_STATE_INIT")
          case True
          then show ?thesis
          proof (intro go [of a ss ?v])
            show "get_session fresh ?i sid ioId ?v = (Some (a, ss), ?v)" using f t True by (simp add: get_session_def)
            show "sessions_ok (?v\<lparr>heap := (heap ?v)(a := Some ss')\<rparr>)" if "session_ok a ss'" "session_id ss' = session_id ss" for ss'
              by (rule sessions_ok_update [OF so h(1) that])
          qed (use m h i0 in auto)
        next
          case False
          then have "get_session fresh ?i sid ioId ?v = (None, ?v)" using f t by (simp add: get_session_def)
          then show ?thesis using r i0(2) same \<open>get_descriptor ?v uuid = Some desc\<close> \<open>\<not> ?i \<ge> NUM_ID\<close>
            by (auto simp: lib_create_def Let_def)
        qed
      next
        case None
        show ?thesis
        proof (cases fresh)
          case None
          then have "get_session fresh ?i sid ioId ?v = (None, ?v)"
            using \<open>find_session (heap ?v) sid (session_list ?v) = None\<close> by (simp add: get_session_def)
          then show ?thesis using r i0(2) same \<open>get_descriptor ?v uuid = Some desc\<close> \<open>\<not> ?i \<ge> NUM_ID\<close>
            by (auto simp: lib_create_def Let_def)
        next
          case (Some a)
          have ha: "heap ?v a = None" using fresh [OF Some] i0(4) by simp
          let ?s = "(session_init zero_session)\<lparr>session_id := sid, session_io := ioId\<rparr>"
          let ?w = "?v\<lparr>session_list := session_list ?v @ [a], heap := (heap ?v)(a := Some ?s)\<rparr>"
          have other: "session_id tt \<noteq> sid" if "heap ?v b = Some tt" for b tt
            using find_session_None [OF None, of b tt] sessions_okD(2) [OF so] that by auto
          show ?thesis
          proof (intro go [of a ?s ?w])
            show "get_session fresh ?i sid ioId ?v = (Some (a, ?s), ?w)"
              using None Some by (simp add: get_session_def Let_def)
            show "sessions_ok (?w\<lparr>heap := (heap ?w)(a := Some ss')\<rparr>)" if "session_ok a ss'" "session_id ss' = session_id ?s" for ss'
              using sessions_ok_add [OF so ha that(1)] other that(2) by simp
            show "(\<exists>tt. heap v a = Some tt \<and> bit (created_msk tt) j) \<longleftrightarrow> bit (created_msk ?s) j" for j
              using ha i0(4) by (simp add: session_init_def)
          qed (use new_session_ok i i0(4) in simp_all)
        qed
      qed
    qed
  qed
  then show "voice_ok v'" "case r of Inl e \<Rightarrow> e = - EINVAL \<and> live_effects v' = live_effects v
    | Inr h \<Rightarrow> h \<notin> live_effects v \<and> live_effects v' = insert h (live_effects v)" by blast+
qed

lemma release_effect_ok:
  assumes ok: "masks_ok ss" "owner_ok a ss" and i: "i < 2" and r: "effect_release i ss = (r, s1)"
    and s2: "s2 = s1\<lparr>created_msk := created_msk s1 AND NOT (msk (fx_id (effects s1 ! i)))\<rparr>"
  shows "masks_ok s2" "owner_ok a s2" "session_id s2 = session_id ss" "bit (created_msk s2) j \<longleftrightarrow> bit (created_msk ss) j \<and> j \<noteq> i"
proof -
  note sp = effect_set_state_spec(2) [OF ok(1) i r [unfolded effect_release_def] transition_ok.simps(1) [THEN iffD2, OF TrueI]]
  have l: "length (effects ss) = 2" by (rule masks_okD(1) [OF ok(1)])
  have e: "fx_state (effects s1 ! j) = (if j = i then EFFECT_STATE_INIT else fx_state (effects ss ! j))"
    "fx_id (effects s1 ! j) = j" "fx_session (effects s1 ! j) = fx_session (effects ss ! j)" if "j < 2" for j
    using that i l sp masks_okD(4) [OF ok(1) that] by (cases "j = i"; simp)+
  have c: "bit (created_msk s2) j \<longleftrightarrow> bit (created_msk ss) j \<and> j \<noteq> i" for j
  proof -
    have "created_msk s1 = created_msk ss" using sp by blast
    then show ?thesis using i by (simp add: s2 e(2) bit_clear_msk)
  qed
  show "masks_ok s2"
    unfolding masks_ok_def
  proof (intro conjI allI impI)
    show "length (effects s2) = 2" using sp l by (simp add: s2)
    fix j
    show "bit (created_msk s2) j \<longleftrightarrow> j < 2 \<and> fx_state (effects s2 ! j) \<noteq> EFFECT_STATE_INIT"
      using c [of j] masks_okD(2) [OF ok(1), of j] e(1) [of j] by (cases "j < 2") (auto simp: s2)
    show "bit (enabled_msk s2) j \<longleftrightarrow> j < 2 \<and> fx_state (effects s2 ! j) = EFFECT_STATE_ACTIVE"
      using sp masks_okD(3) [OF ok(1), of j] e(1) [of j] i by (cases "j < 2") (auto simp: s2)
    show "j < 2 \<Longrightarrow> fx_id (effects s2 ! j) = j" using e(2) [of j] by (simp add: s2)
  qed
  show "owner_ok a s2" using ok(2) e by (auto simp: owner_ok_def s2)
  show "session_id s2 = session_id ss" using sp by (simp add: s2)
  show "bit (created_msk s2) j \<longleftrightarrow> bit (created_msk ss) j \<and> j \<noteq> i" by (rule c)
qed

lemma lib_release_ok:
  assumes "voice_ok v" "(a, i) \<in> live_effects v"
  shows "\<exists>v'. lib_release A library (a, i) v = Some (0, v') \<and> voice_ok v' \<and> live_effects v' = live_effects v - {(a, i)}"
  using assms
proof (rule live_deref)
  fix ss assume h: "heap v a = Some ss" "session_ok a ss" "i < 2" "deref (a, i) v = Some (effects ss ! i)"
    "fx_session (effects ss ! i) = a" "init_status v = 0"
  have iv: "init A library v = v" using h(6) by (simp add: init_def)
  have so: "sessions_ok v" using assms(1) by (simp add: voice_ok_def)
  have mem: "a \<in> set (session_list v)" using sessions_okD(2) [OF so, of a] h(1) by simp
  obtain r s1 where r: "effect_release i ss = (r, s1)" by fastforce
  define s2 where "s2 = s1\<lparr>created_msk := created_msk s1 AND NOT (msk (fx_id (effects s1 ! i)))\<rparr>"
  have m: "masks_ok ss" "owner_ok a ss" using h(2) by (simp_all add: session_ok_def)
  note rel = release_effect_ok [OF m h(3) r s2_def]
  define v' where "v' = (if created_msk s2 = 0 then drop_session a v else v\<lparr>heap := (heap v)(a := Some s2)\<rparr>)"
  have "lib_release A library (a, i) v = Some (0, v')"
    using h mem r by (simp add: lib_release_def iv session_release_effect_def Let_def v'_def s2_def)
  moreover have "sessions_ok v'"
    using sessions_ok_drop [OF so] sessions_ok_update [OF so h(1) _ rel(3)] rel(1,2)
    by (auto simp: v'_def session_ok_def)
  then have "voice_ok v'" using assms(1) h(6) by (auto simp: voice_ok_def v'_def drop_session_def)
  moreover have "(b, j) \<in> live_effects v' \<longleftrightarrow> (b, j) \<in> live_effects v - {(a, i)}" for b j
  proof (cases "b = a")
    case True
    have "created_msk s2 = 0 \<Longrightarrow> \<not> bit (created_msk s2) j" by simp
    then show ?thesis using True rel(4) [of j] h(1) by (auto simp: live_effects_def v'_def drop_session_def)
  next
    case False
    then show ?thesis by (auto simp: live_effects_def v'_def drop_session_def)
  qed
  ultimately show ?thesis by auto
qed

section \<open>The library's contract\<close>

record create_args =
  ca_library :: "product_library option"
  ca_fresh :: "nat option"
  ca_uuid :: effect_uuid_t
  ca_session :: int
  ca_io :: int

datatype operation = Command effect_cmd command_args | Process bool bool

text \<open>
  \<^verbatim>\<open>calloc\<close> returns memory that is not in use, or NULL; the sizes a command passes are those of its
  buffers.
\<close>

definition is_live :: "voice \<Rightarrow> handle \<Rightarrow> bool" where
  "is_live v h \<longleftrightarrow> snd h < 2 \<and> (case heap v (fst h) of None \<Rightarrow> False | Some ss \<Rightarrow> bit (created_msk ss) (snd h))"

lemma is_live_iff: "is_live v h \<longleftrightarrow> h \<in> live_effects v"
  by (auto simp: is_live_def live_effects_def split: option.splits)

lemma is_live_eq:
  "live_effects v' = live_effects v \<Longrightarrow> is_live v' = is_live v"
  "live_effects v' = insert h (live_effects v) \<Longrightarrow> is_live v' = (is_live v)(h := True)"
  "live_effects v' = live_effects v - {h} \<Longrightarrow> is_live v' = (is_live v)(h := False)"
  by (auto simp: fun_eq_iff is_live_iff)

definition voice_lib :: "effect_api \<Rightarrow> (handle, create_args, operation, voice) handle_lib" where
  "voice_lib A =
     \<lparr>lib_create_op = (\<lambda>c v. Some (lib_create A (ca_library c) (ca_fresh c) (ca_uuid c) (ca_session c) (ca_io c) v)),
      lib_release_op = (\<lambda>h v. lib_release A None h v),
      lib_operate_op = (\<lambda>h x v.
        case x of
          Command cmd c \<Rightarrow> (case fx_command A (Some h) cmd c v of None \<Rightarrow> None | Some (r, y, v) \<Rightarrow> Some (r, v))
        | Process p q \<Rightarrow> fx_process (Some h) p q v),
      lib_live = is_live,
      lib_create_args = (\<lambda>c v. case ca_fresh c of None \<Rightarrow> True | Some a \<Rightarrow> heap v a = None),
      lib_operate_args = (\<lambda>x. case x of Command cmd c \<Rightarrow> args_ok c | Process p q \<Rightarrow> True)\<rparr>"

interpretation voice_library: handle_library "voice_lib A" voice_ok for A
proof
  fix v assume ok: "voice_ok v"
  show "\<exists>r v'. lib_create_op (voice_lib A) c v = Some (r, v') \<and> voice_ok v' \<and>
      (case r of Inl e \<Rightarrow> e < 0 \<and> lib_live (voice_lib A) v' = lib_live (voice_lib A) v
       | Inr h \<Rightarrow> \<not> lib_live (voice_lib A) v h \<and> lib_live (voice_lib A) v' = (lib_live (voice_lib A) v)(h := True))"
    if "lib_create_args (voice_lib A) c v" for c
  proof -
    obtain r v' where r: "lib_create A (ca_library c) (ca_fresh c) (ca_uuid c) (ca_session c) (ca_io c) v = (r, v')" by fastforce
    have "heap v a = None" if "ca_fresh c = Some a" for a
      using \<open>lib_create_args (voice_lib A) c v\<close> that by (simp add: voice_lib_def)
    note lc = lib_create_ok [OF ok this r]
    have "case r of Inl e \<Rightarrow> e < 0 \<and> is_live v' = is_live v
       | Inr h \<Rightarrow> \<not> is_live v h \<and> is_live v' = (is_live v)(h := True)"
    proof (cases r)
      case (Inl e)
      then have e: "e = - EINVAL" "live_effects v' = live_effects v" using lc(2) by simp_all
      from is_live_eq(1) [OF e(2)] e(1) Inl show ?thesis by (simp add: EINVAL_def)
    next
      case (Inr h)
      then have h: "\<not> is_live v h" "live_effects v' = insert h (live_effects v)" using lc(2) by (simp_all add: is_live_iff)
      from is_live_eq(2) [OF h(2)] h(1) Inr show ?thesis by simp
    qed
    moreover have "lib_live (voice_lib A) = is_live" by (simp add: voice_lib_def)
    ultimately show ?thesis using lc(1) r by (simp add: voice_lib_def cong: sum.case_cong)
  qed
  show "\<exists>v'. lib_release_op (voice_lib A) h v = Some (0, v') \<and> voice_ok v' \<and>
      lib_live (voice_lib A) v' = (lib_live (voice_lib A) v)(h := False)" if "lib_live (voice_lib A) v h" for h
  proof -
    have "(fst h, snd h) \<in> live_effects v" using that by (simp add: voice_lib_def is_live_iff)
    from lib_release_ok [OF ok this, of A None] obtain v' where
      v': "lib_release A None h v = Some (0, v')" "voice_ok v'" "live_effects v' = live_effects v - {h}" by auto
    from is_live_eq(3) [OF v'(3)] v'(1,2) show ?thesis by (simp add: voice_lib_def)
  qed
  show "\<exists>r v'. lib_operate_op (voice_lib A) h x v = Some (r, v') \<and> voice_ok v' \<and>
      lib_live (voice_lib A) v' = lib_live (voice_lib A) v"
    if "lib_live (voice_lib A) v h" "lib_operate_args (voice_lib A) x" for h x
  proof -
    have h: "(fst h, snd h) \<in> live_effects v" using that(1) by (simp add: voice_lib_def is_live_iff)
    have "\<exists>r v'. lib_operate_op (voice_lib A) h x v = Some (r, v') \<and> voice_ok v' \<and> live_effects v' = live_effects v"
    proof (cases x)
      case (Command cmd c)
      have "args_ok c" using that(2) Command by (simp add: voice_lib_def)
      from fx_command_ok [OF ok h this, of A cmd] obtain r y v' where
        "fx_command A (Some h) cmd c v = Some (r, y, v')" "voice_ok v'" "live_effects v' = live_effects v" by auto
      then show ?thesis using Command by (simp add: voice_lib_def)
    next
      case (Process p q)
      then show ?thesis using fx_process_ok [OF ok h, of p q] by (simp add: voice_lib_def)
    qed
    then obtain r v' where v': "lib_operate_op (voice_lib A) h x v = Some (r, v')" "voice_ok v'" "live_effects v' = live_effects v"
      by blast
    from is_live_eq(1) [OF v'(3)] v'(1,2) show ?thesis by (simp add: voice_lib_def)
  qed
qed

lemma initial_voice_ok: "voice_ok (initial_voice A)"
  by (simp add: voice_ok_def sessions_ok_def initial_voice_def)

section \<open>Sessions with an enabled effect\<close>

text \<open>Every session with an enabled effect keeps its configuration.\<close>

definition keeps_config :: "voice \<Rightarrow> voice \<Rightarrow> bool" where
  "keeps_config v v' \<longleftrightarrow> (\<forall>a ss. heap v a = Some ss \<longrightarrow> enabled_msk ss \<noteq> 0 \<longrightarrow>
     (\<exists>ss'. heap v' a = Some ss' \<and> config ss' = config ss))"

lemma keeps_config_refl: "keeps_config v v"
  by (simp add: keeps_config_def)

lemma keeps_config_update:
  assumes "heap v b = Some ss" "enabled_msk ss \<noteq> 0 \<longrightarrow> config ss' = config ss"
  shows "keeps_config v (v\<lparr>heap := (heap v)(b := Some ss')\<rparr>)"
  using assms by (auto simp: keeps_config_def)

lemma set_state_config:
  assumes "voice_ok v" "(b, i) \<in> live_effects v" "st = EFFECT_STATE_CONFIG \<or> st = EFFECT_STATE_ACTIVE"
    and "set_state (b, i) st v = Some (r, v')"
  shows "\<exists>ss ss'. heap v b = Some ss \<and> v' = v\<lparr>heap := (heap v)(b := Some ss')\<rparr> \<and> config ss' = config ss"
  using assms(1,2)
proof (rule live_deref)
  fix ss assume h: "heap v b = Some ss" "session_ok b ss" "i < 2"
  obtain r1 ss' where r: "effect_set_state i st ss = (r1, ss')" by fastforce
  have "masks_ok ss" using h(2) by (simp add: session_ok_def)
  from masks_ok_state(5) [OF this h(3) r assms(3)] show ?thesis using assms(4) h(1) r by (auto simp: set_state_def)
qed

lemma fx_command_keeps_config:
  assumes "voice_ok v" "(b, i) \<in> live_effects v" "fx_command A (Some (b, i)) cmd c v = Some (r, y, v')"
  shows "keeps_config v v'"
  using assms(1,2)
proof (rule live_deref)
  fix ss assume h: "heap v b = Some ss" "session_ok b ss" "deref (b, i) v = Some (effects ss ! i)" "fx_session (effects ss ! i) = b"
  have state: "keeps_config v v'" if st: "cmd_state c (b, i) st v = Some (r, y, v')"
    "st = EFFECT_STATE_CONFIG \<or> st = EFFECT_STATE_ACTIVE" for st
  proof -
    consider "v' = v" | r1 where "set_state (b, i) st v = Some (r1, v')"
      using st(1) by (auto simp: cmd_state_def dest: put_reply_SomeD split: option.splits if_splits)
    then show ?thesis
    proof cases
      case (2 r1)
      with set_state_config [OF assms(1,2) st(2) 2] show ?thesis using keeps_config_update by force
    qed (simp add: keeps_config_refl)
  qed
  have conf: "keeps_config v v'" if sc: "cmd_set_config A c (b, i) (effects ss ! i) v = Some (r, y, v')"
  proof (cases "v' = v")
    case False
    then obtain bytes where bs: "read_cmd (sizeof_effect_config A) c = Some bytes"
      using sc by (auto simp: cmd_set_config_def split: option.splits if_splits)
    obtain r1 ss1 where r1: "session_set_config A (read_config A bytes) ss = (r1, ss1)" by fastforce
    have lock: "enabled_msk ss \<noteq> 0 \<longrightarrow> config ss1 = config ss"
      using r1 by (auto simp: session_set_config_def split: if_splits)
    note s1 = session_set_config_ok [OF r1 h(2)]
    let ?v = "v\<lparr>heap := (heap v)(b := Some ss1)\<rparr>"
    have k1: "keeps_config v ?v" by (rule keeps_config_update [OF h(1) lock])
    have "v' = ?v \<or> (\<exists>r2. set_state (b, i) EFFECT_STATE_CONFIG ?v = Some (r2, v'))"
      using sc False bs r1 h(1,4)
      by (auto simp: cmd_set_config_def Let_def dest!: put_reply_SomeD split: option.splits if_splits)
    then show ?thesis
    proof
      assume "\<exists>r2. set_state (b, i) EFFECT_STATE_CONFIG ?v = Some (r2, v')"
      then obtain r2 where r2: "set_state (b, i) EFFECT_STATE_CONFIG ?v = Some (r2, v')" by blast
      have vok: "voice_ok ?v" "(b, i) \<in> live_effects ?v"
        using heap_only_ok [OF assms(1) h(1) s1(1,2,3)] assms(2) by simp_all
      from set_state_config [OF vok _ r2] obtain ss2 where "v' = ?v\<lparr>heap := (heap ?v)(b := Some ss2)\<rparr>" "config ss2 = config ss1"
        by auto
      then have "v' = v\<lparr>heap := (heap v)(b := Some ss2)\<rparr>" "enabled_msk ss \<noteq> 0 \<longrightarrow> config ss2 = config ss" using lock by simp_all
      then show ?thesis using keeps_config_update [OF h(1)] by simp
    qed (use k1 in simp)
  qed (simp add: keeps_config_refl)
  have unchanged: "cmd \<notin> {CMD_SET_CONFIG, CMD_ENABLE, CMD_DISABLE} \<Longrightarrow> v' = v"
    using assms(3) h(3)
    by (cases cmd) (auto simp: fx_command_def cmd_get_config_def cmd_get_param_def cmd_set_param_def cmd_value_def Let_def
        dest!: put_reply_SomeD split: option.splits if_splits)
  show ?thesis
    using assms(3) h(3) conf state [of EFFECT_STATE_ACTIVE] state [of EFFECT_STATE_CONFIG] unchanged keeps_config_refl
    by (cases cmd) (auto simp: fx_command_def)
qed

section \<open>Properties\<close>

text \<open>
  C28. The voice library is memory safe, and its masks are right: every sequence of creations,
  commands, processing calls and releases that uses a handle only between its creation and its
  release, and buffers as large as the sizes it names, runs without touching freed memory, reading past a command's data
  or writing past a reply. Afterwards the listed sessions
  are exactly the allocated ones, each with at least one effect; a session's created mask has the
  bits of its created effects, its enabled mask those of its active ones.
\<close>

theorem voice_calls_safe:
  assumes "well_behaved (voice_lib A) xs (initial_voice A)"
  shows "\<exists>v. performs (voice_lib A) xs (initial_voice A) = Some v \<and> distinct (session_list v) \<and>
    (\<forall>a. a \<in> set (session_list v) \<longleftrightarrow> heap v a \<noteq> None) \<and>
    (\<forall>a ss. heap v a = Some ss \<longrightarrow> masks_ok ss \<and> created_msk ss \<noteq> 0)"
proof -
  obtain v where "performs (voice_lib A) xs (initial_voice A) = Some v" "voice_ok v"
    using voice_library.performs_ok [OF initial_voice_ok assms] by blast
  moreover from this(2) have "sessions_ok v" by (simp add: voice_ok_def)
  then have "distinct (session_list v)" "\<forall>a. a \<in> set (session_list v) \<longleftrightarrow> heap v a \<noteq> None"
    "\<forall>a ss. heap v a = Some ss \<longrightarrow> masks_ok ss \<and> created_msk ss \<noteq> 0"
    using sessions_okD(1-3) [OF \<open>sessions_ok v\<close>] by (simp, blast, auto simp: session_ok_def)
  ultimately show ?thesis by blast
qed

definition sample_create :: create_args where
  "sample_create = \<lparr>ca_library = None, ca_fresh = Some 1, ca_uuid = d_uuid (qcom_default_aec_descriptor sample_effect_api),
     ca_session = 7, ca_io = 3\<rparr>"

definition sample_int_args :: command_args where
  "sample_int_args = \<lparr>cmd_size = 2, cmd_data = Some [48, 0], reply_size = Some 4, reply_room = Some 4\<rparr>"

text \<open>The echo canceler is created, configured and enabled.\<close>

definition sample_calls :: "(handle, create_args, operation) lib_call list" where
  "sample_calls = [Create sample_create, Operate (1, 0) (Command CMD_SET_CONFIG sample_int_args),
     Operate (1, 0) (Command CMD_ENABLE sample_int_args)]"

theorem voice_calls_safe_witness:
  "well_behaved (voice_lib sample_effect_api) (sample_calls @ [Release (1, 0)]) (initial_voice sample_effect_api) \<and>
   (\<exists>v. performs (voice_lib sample_effect_api) (sample_calls @ [Release (1, 0)]) (initial_voice sample_effect_api) = Some v \<and>
      distinct (session_list v))"
proof -
  have "well_behaved (voice_lib sample_effect_api) (sample_calls @ [Release (1, 0)]) (initial_voice sample_effect_api)"
    by code_simp
  from this voice_calls_safe [OF this] show ?thesis by blast
qed

text \<open>
  C29. The configuration of a session is locked while it is in use: whatever command is given to any
  effect of any session, a session with an enabled effect is still there afterwards with the same
  configuration. A request that would change it is answered with an error.
\<close>

theorem voice_config_locked:
  assumes "well_behaved (voice_lib A) xs (initial_voice A)" "performs (voice_lib A) xs (initial_voice A) = Some v"
    and "is_live v (b, i)" "fx_command A (Some (b, i)) cmd c v = Some (r, y, v')"
    and "heap v a = Some ss" "enabled_msk ss \<noteq> 0"
  shows "\<exists>ss'. heap v' a = Some ss' \<and> config ss' = config ss"
proof -
  have "voice_ok v" using voice_library.performs_ok [OF initial_voice_ok assms(1)] assms(2) by auto
  then have "keeps_config v v'" using fx_command_keeps_config assms(3,4) by (simp add: is_live_iff)
  then show ?thesis using assms(5,6) by (simp add: keeps_config_def)
qed

definition sample_voice :: voice where
  "sample_voice = the (performs (voice_lib sample_effect_api) sample_calls (initial_voice sample_effect_api))"

definition sample_other_args :: command_args where
  "sample_other_args = \<lparr>cmd_size = 2, cmd_data = Some [8, 0], reply_size = Some 4, reply_room = Some 4\<rparr>"

theorem voice_config_locked_witness:
  "\<exists>r y v' ss'. fx_command sample_effect_api (Some (1, 0)) CMD_SET_CONFIG sample_other_args sample_voice = Some (r, y, v') \<and>
     heap v' 1 = Some ss' \<and> config ss' = config (the (heap sample_voice 1)) \<and> y = IntReply (- ENOSYS)"
proof -
  have w: "well_behaved (voice_lib sample_effect_api) sample_calls (initial_voice sample_effect_api)" by code_simp
  have "performs (voice_lib sample_effect_api) sample_calls (initial_voice sample_effect_api) \<noteq> None"
    using voice_library.performs_ok [OF initial_voice_ok w] by auto
  then have p: "performs (voice_lib sample_effect_api) sample_calls (initial_voice sample_effect_api) = Some sample_voice"
    by (auto simp: sample_voice_def)
  have l: "is_live sample_voice (1, 0)" "enabled_msk (the (heap sample_voice 1)) \<noteq> 0" by code_simp+
  have h: "heap sample_voice 1 = Some (the (heap sample_voice 1))"
    using l(1) by (auto simp: is_live_def split: option.splits)
  define f where "f = fx_command sample_effect_api (Some (1, 0)) CMD_SET_CONFIG sample_other_args sample_voice"
  have y: "map_option (fst \<circ> snd) f = Some (IntReply (- ENOSYS))" unfolding f_def by code_simp
  then obtain r v' where fc: "fx_command sample_effect_api (Some (1, 0)) CMD_SET_CONFIG sample_other_args sample_voice =
      Some (r, IntReply (- ENOSYS), v')" by (auto simp: f_def)
  from voice_config_locked [OF w p l(1) fc h l(2)] fc show ?thesis by blast
qed

end
