(* ===== verification/Volume_Listener.thy ===== *)
theory Volume_Listener
  imports Complex_Main Effect_Api
begin

text \<open>
  The volume listener, \<^verbatim>\<open>audio/effects/volume_listener.c\<close>: one context per stream effect, and the
  linear gain and calibration level that follow the volumes of the streams on the speaker.

  The contexts are the memory that \<open>vol_effect_list\<close> holds, by address; using one that is not there
  is \<open>None\<close>, as is a call through a null function pointer. A \<^verbatim>\<open>float\<close> is a real number, and every
  operation of the code rounds its result: to \<^verbatim>\<open>float\<close> by \<open>flt\<close>, to \<^verbatim>\<open>double\<close> by \<open>dbl\<close>. The
  volumes come from unsigned numbers, so there are no infinities or NaNs. The audio HAL's symbols, the
  answer of its calibration function, the properties and what \<^verbatim>\<open>calloc\<close> returns are arguments;
  \<open>hal_calls\<close> is a ghost list of the calls made to the HAL, newest first.
\<close>

section \<open>Data\<close>

record floating =
  flt :: "real \<Rightarrow> real"
  dbl :: "real \<Rightarrow> real"

definition MAX_VOLUME_CAL_STEPS :: nat where "MAX_VOLUME_CAL_STEPS = 15"
definition MAX_GAIN_LEVELS :: nat where "MAX_GAIN_LEVELS = 5"
definition DEFAULT_CAL_STEP :: int where "DEFAULT_CAL_STEP = 0"
definition LIN_VOLUME_QFACTOR_28 :: nat where "LIN_VOLUME_QFACTOR_28 = 28"

definition VOL_FLAG :: "effect_api \<Rightarrow> u32" where
  "VOL_FLAG A = EFFECT_FLAG_TYPE_INSERT A OR EFFECT_FLAG_VOLUME_IND A OR EFFECT_FLAG_DEVICE_IND A OR
     EFFECT_FLAG_OFFLOAD_SUPPORTED A OR EFFECT_FLAG_NO_PROCESS A"

datatype vol_listener_state =
    VOL_LISTENER_STATE_UNINITIALIZED
  | VOL_LISTENER_STATE_INITIALIZED
  | VOL_LISTENER_STATE_ACTIVE

definition MUSIC :: nat where "MUSIC = 0"
definition RING :: nat where "RING = 1"
definition ALARM :: nat where "ALARM = 2"
definition VC_CALL :: nat where "VC_CALL = 3"
definition NOTIFICATION :: nat where "NOTIFICATION = 4"
definition MAX_STREAM_TYPES :: nat where "MAX_STREAM_TYPES = 5"

record vol_listener_context_s =
  vol_config :: effect_config_t
  desc :: effect_descriptor_t
  stream_type :: nat
  vol_session_id :: u32
  state :: vol_listener_state
  dev_id :: u32
  left_vol :: real
  right_vol :: real

record pal_amp_db_and_gain_table =
  amp :: real
  db :: real
  level :: u32

datatype hal_call = LinearGain "u32 option" | GainDepCal int bool

record listener =
  initialized :: bool
  once :: bool
  init_status :: int
  current_gain_dep_cal_level :: int
  current_vol :: real
  total_volume_cal_step :: nat
  volume_curve_gain_mapping_table :: "pal_amp_db_and_gain_table list"
  send_gain_dep_cal :: bool \<comment> \<open>the pointer is not NULL; likewise the next\<close>
  send_linear_gain :: bool
  dumping_enabled :: bool
  headset_cal_enabled :: bool
  vol_effect_list :: "(nat \<times> vol_listener_context_s) list"
  hal_calls :: "hal_call list"

definition vol_uuid :: "u32 \<Rightarrow> u16 \<Rightarrow> effect_uuid_t" where
  "vol_uuid t c = \<lparr>timeLow = t, timeMid = 0x0590, timeHiAndVersion = 0x11e5, clockSeq = c,
     node = [0x00, 0x25, 0xb3, 0x26, 0x54, 0xa0]\<rparr>"

definition vol_listener_music_descriptor :: "effect_api \<Rightarrow> effect_descriptor_t" where
  "vol_listener_music_descriptor A =
     \<lparr>d_type = vol_uuid 0x08b8b058 0xac71, d_uuid = vol_uuid 0x08b8b058 0xac71,
      d_apiVersion = EFFECT_CONTROL_API_VERSION A, d_flags = VOL_FLAG A, d_cpuLoad = 0, d_memoryUsage = 1,
      d_name = ''Volume listener for Music'', d_implementor = ''Qualcomm Technologies Inc.''\<rparr>"

definition vol_listener_ring_descriptor :: "effect_api \<Rightarrow> effect_descriptor_t" where
  "vol_listener_ring_descriptor A =
     \<lparr>d_type = vol_uuid 0x0956df94 0xbdbe, d_uuid = vol_uuid 0x0956df94 0xbdbe,
      d_apiVersion = EFFECT_CONTROL_API_VERSION A, d_flags = VOL_FLAG A, d_cpuLoad = 0, d_memoryUsage = 1,
      d_name = ''Volume listener for ring'', d_implementor = ''Qualcomm Technologies Inc''\<rparr>"

definition vol_listener_alarm_descriptor :: "effect_api \<Rightarrow> effect_descriptor_t" where
  "vol_listener_alarm_descriptor A =
     \<lparr>d_type = vol_uuid 0x09f303e2 0x8fdb, d_uuid = vol_uuid 0x09f303e2 0x8fdb,
      d_apiVersion = EFFECT_CONTROL_API_VERSION A, d_flags = VOL_FLAG A, d_cpuLoad = 0, d_memoryUsage = 1,
      d_name = ''Volume listener for alarm'', d_implementor = ''Qualcomm Technologies Inc''\<rparr>"

definition vol_listener_voice_call_descriptor :: "effect_api \<Rightarrow> effect_descriptor_t" where
  "vol_listener_voice_call_descriptor A =
     \<lparr>d_type = vol_uuid 0x0ace5c08 0xae9e, d_uuid = vol_uuid 0x0ace5c08 0xae9e,
      d_apiVersion = EFFECT_CONTROL_API_VERSION A, d_flags = VOL_FLAG A, d_cpuLoad = 0, d_memoryUsage = 1,
      d_name = ''Volume listener for voice call'', d_implementor = ''Qualcomm Technologies Inc''\<rparr>"

definition vol_listener_notification_descriptor :: "effect_api \<Rightarrow> effect_descriptor_t" where
  "vol_listener_notification_descriptor A =
     \<lparr>d_type = vol_uuid 0x0b776dde 0x81ba, d_uuid = vol_uuid 0x0b776dde 0x81ba,
      d_apiVersion = EFFECT_CONTROL_API_VERSION A, d_flags = VOL_FLAG A, d_cpuLoad = 0, d_memoryUsage = 1,
      d_name = ''Volume listener for notification'', d_implementor = ''Qualcomm Technologies Inc''\<rparr>"

definition descriptors :: "effect_api \<Rightarrow> effect_descriptor_t list" where
  "descriptors A =
     [vol_listener_music_descriptor A, vol_listener_ring_descriptor A, vol_listener_alarm_descriptor A,
      vol_listener_voice_call_descriptor A, vol_listener_notification_descriptor A]"

definition no_gain :: pal_amp_db_and_gain_table where
  "no_gain = \<lparr>amp = 0, db = 0, level = - 1\<rparr>"

definition default_gain_table :: "floating \<Rightarrow> pal_amp_db_and_gain_table list" where
  "default_gain_table F =
     [\<lparr>amp = flt F 0.001774, db = - 55, level = 5\<rparr>, \<lparr>amp = flt F 0.501187, db = - 6, level = 4\<rparr>,
      \<lparr>amp = flt F 0.630957, db = - 4, level = 3\<rparr>, \<lparr>amp = flt F 0.794328, db = - 2, level = 2\<rparr>,
      \<lparr>amp = 1, db = 0, level = 1\<rparr>, no_gain, no_gain, no_gain, no_gain, no_gain, no_gain, no_gain,
      no_gain, no_gain, no_gain]"

definition initial_listener :: "floating \<Rightarrow> listener" where
  "initial_listener F =
     \<lparr>initialized = False, once = False, init_status = 0, current_gain_dep_cal_level = - 1, current_vol = 0,
      total_volume_cal_step = MAX_GAIN_LEVELS, volume_curve_gain_mapping_table = default_gain_table F,
      send_gain_dep_cal = False, send_linear_gain = False, dumping_enabled = False,
      headset_cal_enabled = False, vol_effect_list = [], hal_calls = []\<rparr>"

section \<open>Volume and gain\<close>

definition verify_context :: "effect_api \<Rightarrow> bool \<Rightarrow> vol_listener_context_s \<Rightarrow> bool" where
  "verify_context A headset_cal c \<longleftrightarrow>
     (if stream_type c = VC_CALL \<and> headset_cal \<and>
         (dev_id c = AUDIO_DEVICE_OUT_EARPIECE A \<or> dev_id c = AUDIO_DEVICE_OUT_WIRED_HEADSET A \<or>
          dev_id c = AUDIO_DEVICE_OUT_WIRED_HEADPHONE A)
      then True
      else dev_id c AND AUDIO_DEVICE_OUT_SPEAKER A \<noteq> 0 \<or> dev_id c AND AUDIO_DEVICE_OUT_SPEAKER_SAFE A \<noteq> 0)"

text \<open>The loop over the list: whether a context counted, and the sum.\<close>

fun sum_energy :: "floating \<Rightarrow> effect_api \<Rightarrow> bool \<Rightarrow> vol_listener_context_s list \<Rightarrow> bool \<times> real \<Rightarrow> bool \<times> real" where
  "sum_energy F A hs [] acc = acc"
| "sum_energy F A hs (c # cs) acc =
     sum_energy F A hs cs
       (if state c = VOL_LISTENER_STATE_ACTIVE \<and> verify_context A hs c
        then let temp_vol = flt F (max (left_vol c) (right_vol c))
             in (True, flt F (snd acc + flt F (temp_vol * temp_vol)))
        else acc)"

definition new_volume :: "floating \<Rightarrow> effect_api \<Rightarrow> listener \<Rightarrow> real" where
  "new_volume F A l =
     (case sum_energy F A (headset_cal_enabled l) (map snd (vol_effect_list l)) (False, 0) of
        (used, energy) \<Rightarrow> if used then flt F (min (dbl F (sqrt energy)) 1) else - 1)"

text \<open>
  \<^verbatim>\<open>round\<close>, and the conversion of a \<^verbatim>\<open>double\<close> with an integral value to \<^verbatim>\<open>uint32_t\<close>, which has no
  defined result for a negative one.
\<close>

definition round_away :: "real \<Rightarrow> int" where
  "round_away x = (if x \<ge> 0 then \<lfloor>x + 1 / 2\<rfloor> else \<lceil>x - 1 / 2\<rceil>)"

definition to_uint32 :: "int \<Rightarrow> u32 option" where
  "to_uint32 r = (if 0 \<le> r \<and> r < 2 ^ 32 then Some (word_of_int r) else None)"

definition linear_gain :: "floating \<Rightarrow> real \<Rightarrow> u32 option" where
  "linear_gain F vol = to_uint32 (round_away (flt F (vol * 2 ^ LIN_VOLUME_QFACTOR_28)))"

text \<open>The level for a volume, or \<open>-1\<close>. \<open>find_level\<close> is the loop from index \<open>k\<close>, with the entries from there.\<close>

fun find_level :: "real \<Rightarrow> pal_amp_db_and_gain_table list \<Rightarrow> int" where
  "find_level vol (x # y # xs) =
     (if vol < amp y \<and> vol \<ge> amp x then sint (level x) else find_level vol (y # xs))"
| "find_level vol xs = - 1"

definition gain_level :: "listener \<Rightarrow> real \<Rightarrow> int" where
  "gain_level l vol =
     (if vol \<ge> 1 \<and> total_volume_cal_step l > 0
      then sint (level (volume_curve_gain_mapping_table l ! (total_volume_cal_step l - 1)))
      else if vol = - 1 then DEFAULT_CAL_STEP
      else if vol = 0 then sint (level (volume_curve_gain_mapping_table l ! 0))
      else find_level vol (take (total_volume_cal_step l) (volume_curve_gain_mapping_table l)))"

definition set_gain_dep_cal :: "bool \<Rightarrow> real \<Rightarrow> listener \<Rightarrow> listener" where
  "set_gain_dep_cal cal_ok new_vol l =
     (let gain_dep_cal_level = gain_level l new_vol in
      if gain_dep_cal_level = - 1 \<or> gain_dep_cal_level = current_gain_dep_cal_level l then l
      else let l = l\<lparr>hal_calls := GainDepCal gain_dep_cal_level cal_ok # hal_calls l\<rparr>
        in if cal_ok then l\<lparr>current_gain_dep_cal_level := gain_dep_cal_level, current_vol := new_vol\<rparr> else l)"

definition check_and_set_gain_dep_cal :: "floating \<Rightarrow> effect_api \<Rightarrow> bool \<Rightarrow> listener \<Rightarrow> listener option" where
  "check_and_set_gain_dep_cal F A cal_ok l =
     (let new_vol = new_volume F A l in
      if \<not> send_linear_gain l then None
      else let l = l\<lparr>hal_calls := LinearGain (linear_gain F new_vol) # hal_calls l\<rparr>
        in Some (if new_vol \<noteq> current_vol l \<and> send_gain_dep_cal l
                 then set_gain_dep_cal cal_ok new_vol l else l))"

section \<open>Effect interface\<close>

definition clamp16 :: "32 word \<Rightarrow> 16 word" where
  "clamp16 sample =
     (if signed_drop_bit 15 sample XOR signed_drop_bit 31 sample \<noteq> 0
      then ucast (0x7FFF XOR signed_drop_bit 31 sample) else ucast sample)"

definition context_at :: "listener \<Rightarrow> nat \<Rightarrow> vol_listener_context_s option" where
  "context_at l h = map_of (vol_effect_list l) h"

text \<open>
  \<^verbatim>\<open>vol_effect_process\<close>: the status and the output buffer. \<open>same\<close>: the two buffers are one. Reading or
  writing past a buffer is \<open>None\<close>.
\<close>

definition vol_effect_process ::
    "effect_api \<Rightarrow> nat option \<Rightarrow> bool \<Rightarrow> u64 \<Rightarrow> 16 word list \<Rightarrow> 16 word list \<Rightarrow> listener \<Rightarrow> (int \<times> 16 word list) option" where
  "vol_effect_process A self same frameCount ins outs l =
     (case Option.bind self (context_at l) of
        None \<Rightarrow> None
      | Some c \<Rightarrow>
          if state c \<noteq> VOL_LISTENER_STATE_ACTIVE then Some (- EINVAL, outs)
          else if same then Some (0, outs)
          else if accessMode (outputCfg (vol_config c)) = EFFECT_BUFFER_ACCESS_ACCUMULATE A
          then let n = unat (frameCount * 2)
            in if n > length ins \<or> n > length outs then None
               else Some (0, map (\<lambda>(o16, i16). clamp16 (scast o16 + scast i16)) (zip (take n outs) (take n ins)) @ drop n outs)
          else let n = unat (frameCount * 2 * 2) div 2
            in if n > length ins \<or> n > length outs then None
               else Some (0, take n ins @ drop n outs))"

definition put_context :: "nat \<Rightarrow> vol_listener_context_s \<Rightarrow> listener \<Rightarrow> listener" where
  "put_context h c l = l\<lparr>vol_effect_list := map (\<lambda>(a, d). (a, if a = h then c else d)) (vol_effect_list l)\<rparr>"

definition recompute_if :: "floating \<Rightarrow> effect_api \<Rightarrow> bool \<Rightarrow> bool \<Rightarrow> listener \<Rightarrow> listener option" where
  "recompute_if F A cal_ok flag l = (if flag then check_and_set_gain_dep_cal F A cal_ok l else Some l)"

definition cmd_int_reply :: "command_args \<Rightarrow> listener \<Rightarrow> (int \<times> reply \<times> listener) option" where
  "cmd_int_reply a l =
     (case bad_reply sizeof_int a of
        None \<Rightarrow> None
      | Some bad \<Rightarrow> if bad then Some (- EINVAL, NoReply, l) else put_reply sizeof_int a (0, IntReply 0, l))"

definition cmd_set_vol_config :: "effect_api \<Rightarrow> command_args \<Rightarrow> nat \<Rightarrow> vol_listener_context_s \<Rightarrow> listener \<Rightarrow> (int \<times> reply \<times> listener) option" where
  "cmd_set_vol_config A a h c l =
     (if cmd_data a = None \<or> cmd_size a \<noteq> sizeof_effect_config A \<or> reply_room a = None \<or> reply_size a = None
      then Some (- EINVAL, NoReply, l)
      else case bad_reply sizeof_int a of
        None \<Rightarrow> None
      | Some bad \<Rightarrow>
          if bad then Some (- EINVAL, NoReply, l)
          else (case read_cmd (sizeof_effect_config A) a of
            None \<Rightarrow> None
          | Some bytes \<Rightarrow>
              put_reply sizeof_int a (0, IntReply 0, put_context h (c\<lparr>vol_config := read_config A bytes\<rparr>) l)))"

text \<open>\<^verbatim>\<open>EFFECT_CMD_ENABLE\<close> and \<^verbatim>\<open>EFFECT_CMD_DISABLE\<close>: from one state to the other.\<close>

definition cmd_switch ::
    "floating \<Rightarrow> effect_api \<Rightarrow> bool \<Rightarrow> vol_listener_state \<Rightarrow> vol_listener_state \<Rightarrow> command_args \<Rightarrow> nat \<Rightarrow> vol_listener_context_s \<Rightarrow>
     listener \<Rightarrow> (int \<times> reply \<times> listener) option" where
  "cmd_switch F A cal_ok old new a h c l =
     (case bad_reply sizeof_int a of
        None \<Rightarrow> None
      | Some bad \<Rightarrow>
          if bad then Some (- EINVAL, NoReply, l)
          else if state c \<noteq> old then Some (- ENOSYS, NoReply, l)
          else let c = c\<lparr>state := new\<rparr>
            in (case put_reply sizeof_int a (put_context h c l) of
                  None \<Rightarrow> None
                | Some l' \<Rightarrow>
                    map_option (\<lambda>l. (0, IntReply 0, l))
                      (recompute_if F A cal_ok (verify_context A (headset_cal_enabled l) c) l')))"

definition is_speaker :: "effect_api \<Rightarrow> u32 \<Rightarrow> bool" where
  "is_speaker A dev \<longleftrightarrow> dev AND AUDIO_DEVICE_OUT_SPEAKER A \<noteq> 0 \<or> dev AND AUDIO_DEVICE_OUT_SPEAKER_SAFE A \<noteq> 0"

definition cmd_set_device ::
    "floating \<Rightarrow> effect_api \<Rightarrow> bool \<Rightarrow> command_args \<Rightarrow> nat \<Rightarrow> vol_listener_context_s \<Rightarrow> listener \<Rightarrow> (int \<times> reply \<times> listener) option" where
  "cmd_set_device F A cal_ok a h c l =
     (if cmd_data a = None \<or> cmd_size a < 4 then Some (- EINVAL, NoReply, l)
      else case read_cmd 4 a of
        None \<Rightarrow> None
      | Some bytes \<Rightarrow>
          let new_device = read_u32 0 bytes
          in map_option (\<lambda>l. (0, NoReply, l))
               (recompute_if F A cal_ok (verify_context A (headset_cal_enabled l) c \<or> is_speaker A new_device)
                 (put_context h (c\<lparr>dev_id := new_device\<rparr>) l)))"

definition volume_of :: "floating \<Rightarrow> u32 \<Rightarrow> real" where
  "volume_of F w = flt F (flt F (real (unat w)) / 2 ^ 24)"

definition cmd_set_volume ::
    "floating \<Rightarrow> effect_api \<Rightarrow> bool \<Rightarrow> command_args \<Rightarrow> nat \<Rightarrow> vol_listener_context_s \<Rightarrow> listener \<Rightarrow> (int \<times> reply \<times> listener) option" where
  "cmd_set_volume F A cal_ok a h c l =
     (if cmd_data a = None \<or> cmd_size a \<noteq> 8 then Some (- EINVAL, NoReply, l)
      else case read_cmd 8 a of
        None \<Rightarrow> None
      | Some bytes \<Rightarrow>
          map_option (\<lambda>l. (0, NoReply, l))
            (recompute_if F A cal_ok (verify_context A (headset_cal_enabled l) c)
              (put_context h (c\<lparr>left_vol := volume_of F (read_u32 0 bytes), right_vol := volume_of F (read_u32 4 bytes)\<rparr>) l)))"

definition vol_effect_command ::
    "floating \<Rightarrow> effect_api \<Rightarrow> bool \<Rightarrow> nat option \<Rightarrow> effect_cmd \<Rightarrow> command_args \<Rightarrow> listener \<Rightarrow> (int \<times> reply \<times> listener) option" where
  "vol_effect_command F A cal_ok self cmd_code a l =
     (case self of
        None \<Rightarrow> Some (- EINVAL, NoReply, l)
      | Some h \<Rightarrow>
          (case context_at l h of
             None \<Rightarrow> None
           | Some c \<Rightarrow>
               if state c = VOL_LISTENER_STATE_UNINITIALIZED then Some (- EINVAL, NoReply, l)
               else (case cmd_code of
                  CMD_INIT \<Rightarrow> cmd_int_reply a l
                | CMD_SET_CONFIG \<Rightarrow> cmd_set_vol_config A a h c l
                | CMD_GET_CONFIG \<Rightarrow> Some (0, NoReply, l)
                | CMD_RESET \<Rightarrow> Some (0, NoReply, l)
                | CMD_SET_AUDIO_MODE \<Rightarrow> Some (0, NoReply, l)
                | CMD_OFFLOAD \<Rightarrow> cmd_int_reply a l
                | CMD_ENABLE \<Rightarrow>
                    cmd_switch F A cal_ok VOL_LISTENER_STATE_INITIALIZED VOL_LISTENER_STATE_ACTIVE a h c l
                | CMD_DISABLE \<Rightarrow>
                    cmd_switch F A cal_ok VOL_LISTENER_STATE_ACTIVE VOL_LISTENER_STATE_INITIALIZED a h c l
                | CMD_GET_PARAM \<Rightarrow> Some (0, NoReply, l)
                | CMD_SET_PARAM \<Rightarrow> Some (0, NoReply, l)
                | CMD_SET_DEVICE \<Rightarrow> cmd_set_device F A cal_ok a h c l
                | CMD_SET_VOLUME \<Rightarrow> cmd_set_volume F A cal_ok a h c l
                | _ \<Rightarrow> Some (- ENOSYS, NoReply, l))))"

definition vol_effect_get_descriptor :: "nat option \<Rightarrow> bool \<Rightarrow> listener \<Rightarrow> (int \<times> effect_descriptor_t option) option" where
  "vol_effect_get_descriptor self out_present l =
     (if \<not> out_present then Some (- EINVAL, None)
      else map_option (\<lambda>c. (0, Some (desc c))) (Option.bind self (context_at l)))"

section \<open>Library interface\<close>

text \<open>
  The symbols of the audio HAL that were found, \<open>None\<close> if it cannot be read or loaded;
  \<open>custom_gain_table\<close> gets the table and the number of its entries and returns a count and the table.
\<close>

record audio_hal =
  has_send_gain_dep_cal :: bool
  has_send_linear_gain :: bool
  custom_gain_table :: "(pal_amp_db_and_gain_table list \<Rightarrow> nat \<Rightarrow> int \<times> pal_amp_db_and_gain_table list) option"

fun clear_entries :: "nat \<Rightarrow> nat \<Rightarrow> pal_amp_db_and_gain_table list \<Rightarrow> pal_amp_db_and_gain_table list" where
  "clear_entries i 0 xs = xs"
| "clear_entries i (Suc n) xs = clear_entries (Suc i) n (xs[i := no_gain])"

definition use_custom_table :: "int \<times> pal_amp_db_and_gain_table list \<Rightarrow> listener \<Rightarrow> listener" where
  "use_custom_table r l =
     (case r of (max_table_ent, xs) \<Rightarrow>
        if max_table_ent > 0 \<and> max_table_ent \<le> int MAX_VOLUME_CAL_STEPS
        then l\<lparr>volume_curve_gain_mapping_table :=
                 clear_entries (nat max_table_ent) (total_volume_cal_step l - nat max_table_ent) xs,
               total_volume_cal_step := nat max_table_ent\<rparr>
        else l\<lparr>volume_curve_gain_mapping_table := xs\<rparr>)"

definition init_once :: "audio_hal option \<Rightarrow> int \<Rightarrow> bool \<Rightarrow> listener \<Rightarrow> listener" where
  "init_once hal dump headset_cal l =
     (if initialized l then l
      else let l = l\<lparr>send_gain_dep_cal := False, send_linear_gain := False\<rparr>;
               l = (case hal of
                      None \<Rightarrow> l
                    | Some p \<Rightarrow>
                        let l = l\<lparr>send_gain_dep_cal := has_send_gain_dep_cal p,
                                  send_linear_gain := has_send_linear_gain p\<rparr>
                        in (case custom_gain_table p of
                              None \<Rightarrow> l
                            | Some f \<Rightarrow> use_custom_table (f (volume_curve_gain_mapping_table l) MAX_VOLUME_CAL_STEPS) l))
        in l\<lparr>dumping_enabled := dumping_enabled l \<or> dump \<noteq> 0, headset_cal_enabled := headset_cal,
             init_status := 0, vol_effect_list := [], initialized := True\<rparr>)"

definition lib_init :: "audio_hal option \<Rightarrow> int \<Rightarrow> bool \<Rightarrow> listener \<Rightarrow> int \<times> listener" where
  "lib_init hal dump headset_cal l =
     (let l = (if once l then l else (init_once hal dump headset_cal l)\<lparr>once := True\<rparr>) in (init_status l, l))"

text \<open>The first descriptor with a UUID, and its index.\<close>

fun find_descriptor :: "nat \<Rightarrow> effect_descriptor_t list \<Rightarrow> effect_uuid_t \<Rightarrow> (nat \<times> effect_descriptor_t) option" where
  "find_descriptor i [] uuid = None"
| "find_descriptor i (d # ds) uuid = (if uuid = d_uuid d then Some (i, d) else find_descriptor (Suc i) ds uuid)"

text \<open>The environment of a call: what \<^verbatim>\<open>init_once\<close> reads, should it run.\<close>

record vol_env =
  env_hal :: "audio_hal option"
  env_dump :: int
  env_headset_cal :: bool

definition new_context :: "effect_api \<Rightarrow> nat \<Rightarrow> effect_descriptor_t \<Rightarrow> u32 \<Rightarrow> vol_listener_context_s" where
  "new_context A itt d sid =
     \<lparr>vol_config = \<lparr>inputCfg = zero_buffer_config, outputCfg = zero_buffer_config\<rparr>, desc = d, stream_type = itt,
      vol_session_id = sid, state = VOL_LISTENER_STATE_INITIALIZED, dev_id = AUDIO_DEVICE_NONE A,
      left_vol = 0, right_vol = 0\<rparr>"

definition vol_prc_lib_create ::
    "effect_api \<Rightarrow> vol_env \<Rightarrow> nat option \<Rightarrow> effect_uuid_t option \<Rightarrow> u32 \<Rightarrow> bool \<Rightarrow> listener \<Rightarrow> (int + nat) \<times> listener" where
  "vol_prc_lib_create A E fresh uuid sid handle_present l =
     (case lib_init (env_hal E) (env_dump E) (env_headset_cal E) l of
        (status, l) \<Rightarrow>
          if status \<noteq> 0 then (Inl (init_status l), l)
          else (case (handle_present, uuid, fresh) of
            (True, Some u, Some a) \<Rightarrow>
              (case find_descriptor 0 (descriptors A) u of
                 None \<Rightarrow> (Inl (- EINVAL), l)
               | Some (itt, d) \<Rightarrow>
                   (Inr a, l\<lparr>vol_effect_list := vol_effect_list l @ [(a, new_context A itt d sid)]\<rparr>))
          | _ \<Rightarrow> (Inl (- EINVAL), l)))"

text \<open>The loop of the release: how many contexts came before the one found, and that one.\<close>

fun find_context :: "nat \<Rightarrow> (nat \<times> vol_listener_context_s) list \<Rightarrow> nat \<Rightarrow> (nat \<times> vol_listener_context_s) option" where
  "find_context n [] h = None"
| "find_context n ((a, c) # xs) h = (if a = h then Some (n, c) else find_context (Suc n) xs h)"

definition remove_context :: "nat \<Rightarrow> listener \<Rightarrow> listener" where
  "remove_context h l = l\<lparr>vol_effect_list := filter (\<lambda>(a, c). a \<noteq> h) (vol_effect_list l)\<rparr>"

definition vol_prc_lib_release :: "floating \<Rightarrow> effect_api \<Rightarrow> bool \<Rightarrow> nat option \<Rightarrow> listener \<Rightarrow> (int \<times> listener) option" where
  "vol_prc_lib_release F A cal_ok handle l =
     (case handle of
        None \<Rightarrow> Some (- EINVAL, l)
      | Some h \<Rightarrow>
          (case find_context 0 (vol_effect_list l) h of
             None \<Rightarrow> Some (- EINVAL, l)
           | Some (active_stream_count, c) \<Rightarrow>
               let flag = verify_context A (headset_cal_enabled l) c;
                   l = remove_context h l;
                   l = (if active_stream_count = 0
                        then l\<lparr>current_gain_dep_cal_level := - 1, current_vol := 0\<rparr> else l)
               in map_option (Pair 0) (recompute_if F A cal_ok flag l)))"

definition vol_prc_lib_get_descriptor ::
    "effect_api \<Rightarrow> vol_env \<Rightarrow> effect_uuid_t option \<Rightarrow> bool \<Rightarrow> listener \<Rightarrow> int \<times> effect_descriptor_t option \<times> listener" where
  "vol_prc_lib_get_descriptor A E uuid out_present l =
     (case lib_init (env_hal E) (env_dump E) (env_headset_cal E) l of
        (status, l) \<Rightarrow>
          if status \<noteq> 0 then (init_status l, None, l)
          else (case (out_present, uuid) of
            (True, Some u) \<Rightarrow>
              (case find_descriptor 0 (descriptors A) u of
                 None \<Rightarrow> (- EINVAL, None, l)
               | Some (i, d) \<Rightarrow> (0, Some d, l))
          | _ \<Rightarrow> (- EINVAL, None, l)))"

section \<open>What is heard\<close>

text \<open>The volumes of a context that counts; the energy depends only on the list of them.\<close>

definition heard :: "effect_api \<Rightarrow> bool \<Rightarrow> vol_listener_context_s \<Rightarrow> (real \<times> real) option" where
  "heard A hs c =
     (if state c = VOL_LISTENER_STATE_ACTIVE \<and> verify_context A hs c then Some (left_vol c, right_vol c) else None)"

definition loudness :: "effect_api \<Rightarrow> listener \<Rightarrow> (real \<times> real) list" where
  "loudness A l = List.map_filter (heard A (headset_cal_enabled l)) (map snd (vol_effect_list l))"

definition add_energy :: "floating \<Rightarrow> real \<times> real \<Rightarrow> bool \<times> real \<Rightarrow> bool \<times> real" where
  "add_energy F v acc =
     (let temp_vol = flt F (max (fst v) (snd v)) in (True, flt F (snd acc + flt F (temp_vol * temp_vol))))"

lemma sum_energy_heard:
  "sum_energy F A hs cs acc = fold (add_energy F) (List.map_filter (heard A hs) cs) acc"
  by (induction cs arbitrary: acc) (simp_all add: heard_def add_energy_def List.map_filter_simps Let_def)

lemma new_volume_heard:
  "new_volume F A l =
     (case fold (add_energy F) (loudness A l) (False, 0) of
        (used, energy) \<Rightarrow> if used then flt F (min (dbl F (sqrt energy)) 1) else - 1)"
  by (simp add: new_volume_def sum_energy_heard loudness_def)

lemma new_volume_cong: "loudness A l = loudness A l' \<Longrightarrow> new_volume F A l = new_volume F A l'"
  by (simp add: new_volume_heard)

lemma used_add_energy: "fst (fold (add_energy F) vs acc) \<longleftrightarrow> vs \<noteq> [] \<or> fst acc"
  by (induction vs arbitrary: acc) (simp_all add: add_energy_def Let_def)

lemma loudness_frame [simp]:
  "loudness A (l\<lparr>hal_calls := x\<rparr>) = loudness A l"
  "loudness A (l\<lparr>current_gain_dep_cal_level := y\<rparr>) = loudness A l"
  "loudness A (l\<lparr>current_vol := z\<rparr>) = loudness A l"
  by (simp_all add: loudness_def)

lemma loudness_put:
  assumes "distinct (map fst (vol_effect_list l))" "context_at l h = Some c"
    and "heard A (headset_cal_enabled l) c' = heard A (headset_cal_enabled l) c"
  shows "loudness A (put_context h c' l) = loudness A l"
proof -
  have "List.map_filter (heard A hs) (map snd (map (\<lambda>(a, d). (a, if a = h then c' else d)) xs)) =
      List.map_filter (heard A hs) (map snd xs)"
    if "distinct (map fst xs)" "map_of xs h = Some c" "heard A hs c' = heard A hs c" for xs hs
    using that
  proof (induction xs)
    case (Cons x xs)
    obtain a d where x: "x = (a, d)" by (cases x)
    show ?case
    proof (cases "a = h")
      case True
      with Cons.prems x have "h \<notin> fst ` set xs" by simp
      then have "map (\<lambda>(a, d). (a, if a = h then c' else d)) xs = xs" by (intro map_idI) force
      with True Cons.prems x show ?thesis by (simp add: List.map_filter_simps)
    next
      case False
      with Cons x show ?thesis by (simp add: List.map_filter_simps split: option.split)
    qed
  qed simp
  from this [OF assms(1) assms(2) [unfolded context_at_def] assms(3)] show ?thesis
    by (simp add: loudness_def put_context_def)
qed

lemma find_context_map_of: "map_option snd (find_context n xs h) = map_of xs h"
  by (induction xs arbitrary: n) auto

lemma find_context_None: "find_context n xs h = None \<longleftrightarrow> h \<notin> fst ` set xs"
  by (induction xs arbitrary: n) (force split: if_splits)+

lemma find_contextD: "find_context n xs h = Some (k, c) \<Longrightarrow> map_of xs h = Some c"
  using find_context_map_of [of n xs h] by simp

lemma loudness_remove:
  assumes "distinct (map fst (vol_effect_list l))" "context_at l h = Some c"
    and "heard A (headset_cal_enabled l) c = None"
  shows "loudness A (remove_context h l) = loudness A l"
proof -
  have "List.map_filter (heard A hs) (map snd (filter (\<lambda>(a, d). a \<noteq> h) xs)) = List.map_filter (heard A hs) (map snd xs)"
    if "distinct (map fst xs)" "map_of xs h = Some c" "heard A hs c = None" for xs hs
    using that
  proof (induction xs)
    case (Cons x xs)
    obtain a d where x: "x = (a, d)" by (cases x)
    show ?case
    proof (cases "a = h")
      case True
      with Cons.prems x have "h \<notin> fst ` set xs" by simp
      then have "filter (\<lambda>(a, d). a \<noteq> h) xs = xs" by (intro filter_True) force
      with True Cons.prems x show ?thesis by (simp add: List.map_filter_simps)
    next
      case False
      with Cons x show ?thesis by (simp add: List.map_filter_simps split: option.split)
    qed
  qed simp
  from this [OF assms(1) assms(2) [unfolded context_at_def] assms(3)] show ?thesis
    by (simp add: loudness_def remove_context_def)
qed

section \<open>The invariant\<close>

fun last_linear_gain :: "hal_call list \<Rightarrow> u32 option option" where
  "last_linear_gain [] = None"
| "last_linear_gain (LinearGain g # xs) = Some g"
| "last_linear_gain (GainDepCal v answer # xs) = last_linear_gain xs"

fun last_level :: "hal_call list \<Rightarrow> int option" where
  "last_level [] = None"
| "last_level (LinearGain g # xs) = last_level xs"
| "last_level (GainDepCal v answer # xs) = (if answer then Some v else last_level xs)"

text \<open>The gain last sent is that of the streams now heard; before the first, nothing is heard.\<close>

definition gain_in_line :: "floating \<Rightarrow> effect_api \<Rightarrow> listener \<Rightarrow> bool" where
  "gain_in_line F A l \<longleftrightarrow>
     (case last_linear_gain (hal_calls l) of
        None \<Rightarrow> loudness A l = []
      | Some g \<Rightarrow> g = linear_gain F (new_volume F A l))"

text \<open>The recorded level is unset, or the last one the HAL took and that of the recorded volume.\<close>

definition level_in_line :: "listener \<Rightarrow> bool" where
  "level_in_line l \<longleftrightarrow>
     (if current_gain_dep_cal_level l = - 1 then current_vol l = 0
      else last_level (hal_calls l) = Some (current_gain_dep_cal_level l) \<and>
           current_gain_dep_cal_level l = gain_level l (current_vol l))"

definition listener_wf :: "listener \<Rightarrow> bool" where
  "listener_wf l \<longleftrightarrow>
     distinct (map fst (vol_effect_list l)) \<and>
     list_all (\<lambda>x. state (snd x) \<noteq> VOL_LISTENER_STATE_UNINITIALIZED) (vol_effect_list l) \<and>
     init_status l = 0 \<and> (once l \<longrightarrow> send_linear_gain l) \<and> initialized l = once l \<and>
     (once l \<or> vol_effect_list l = [] \<and> hal_calls l = [] \<and> current_gain_dep_cal_level l = - 1) \<and>
     0 < total_volume_cal_step l \<and> total_volume_cal_step l \<le> MAX_VOLUME_CAL_STEPS \<and>
     length (volume_curve_gain_mapping_table l) = MAX_VOLUME_CAL_STEPS"

definition listener_ok :: "floating \<Rightarrow> effect_api \<Rightarrow> listener \<Rightarrow> bool" where
  "listener_ok F A l \<longleftrightarrow>
     listener_wf l \<and> level_in_line l \<and> (\<not> headset_cal_enabled l \<longrightarrow> gain_in_line F A l)"

definition vol_live :: "listener \<Rightarrow> nat \<Rightarrow> bool" where
  "vol_live l h \<longleftrightarrow> h \<in> fst ` set (vol_effect_list l)"

lemma gain_level_frame [simp]:
  "gain_level (l\<lparr>hal_calls := x\<rparr>) = gain_level l"
  "gain_level (l\<lparr>current_gain_dep_cal_level := y\<rparr>) = gain_level l"
  "gain_level (l\<lparr>current_vol := z\<rparr>) = gain_level l"
  "gain_level (l\<lparr>vol_effect_list := u\<rparr>) = gain_level l"
  by (rule ext; simp add: gain_level_def)+

lemma put_context_frame [simp]:
  "hal_calls (put_context h c l) = hal_calls l"
  "headset_cal_enabled (put_context h c l) = headset_cal_enabled l"
  "map fst (vol_effect_list (put_context h c l)) = map fst (vol_effect_list l)"
  "vol_live (put_context h c l) = vol_live l"
  "level_in_line (put_context h c l) = level_in_line l"
  "once (put_context h c l) = once l"
  "send_linear_gain (put_context h c l) = send_linear_gain l"
proof -
  show "map fst (vol_effect_list (put_context h c l)) = map fst (vol_effect_list l)"
    by (simp add: put_context_def case_prod_unfold)
  then show "vol_live (put_context h c l) = vol_live l"
    by (simp add: vol_live_def fun_eq_iff flip: set_map)
qed (simp_all add: put_context_def level_in_line_def)

lemma put_context_wf:
  "listener_wf l \<Longrightarrow> state c \<noteq> VOL_LISTENER_STATE_UNINITIALIZED \<Longrightarrow> listener_wf (put_context h c l)"
  unfolding listener_wf_def put_context_frame
  by (auto simp: put_context_def list_all_iff split: if_splits)

lemma context_live:
  assumes "listener_wf l" "vol_live l h"
  obtains c where "context_at l h = Some c" "state c \<noteq> VOL_LISTENER_STATE_UNINITIALIZED" "send_linear_gain l" "once l"
proof -
  from assms(2) obtain c where c: "context_at l h = Some c"
    unfolding vol_live_def context_at_def by (metis domD dom_map_of_conv_image_fst)
  then have "(h, c) \<in> set (vol_effect_list l)" unfolding context_at_def by (rule map_of_SomeD)
  with assms(1) c show ?thesis by (intro that [of c]) (auto simp: listener_wf_def list_all_iff)
qed

section \<open>Recomputing\<close>

definition same_contexts :: "listener \<Rightarrow> listener \<Rightarrow> bool" where
  "same_contexts l l' \<longleftrightarrow>
     vol_effect_list l' = vol_effect_list l \<and> headset_cal_enabled l' = headset_cal_enabled l \<and>
     send_linear_gain l' = send_linear_gain l"

lemma check_ok:
  assumes "listener_wf l" "level_in_line l" "send_linear_gain l" "once l"
  obtains l' where "check_and_set_gain_dep_cal F A cal_ok l = Some l'" "listener_wf l'" "level_in_line l'"
    "gain_in_line F A l'" "same_contexts l l'"
proof -
  let ?v = "new_volume F A l"
  let ?m = "l\<lparr>hal_calls := LinearGain (linear_gain F ?v) # hal_calls l\<rparr>"
  let ?l = "if ?v \<noteq> current_vol l \<and> send_gain_dep_cal l then set_gain_dep_cal cal_ok ?v ?m else ?m"
  have loud: "loudness A ?l = loudness A l" and ctx: "same_contexts l ?l"
    by (simp_all add: set_gain_dep_cal_def Let_def same_contexts_def)
  have last: "last_linear_gain (hal_calls ?l) = Some (linear_gain F ?v)"
    by (simp add: set_gain_dep_cal_def Let_def)
  show ?thesis
  proof
    show "check_and_set_gain_dep_cal F A cal_ok l = Some ?l"
      using assms(3) by (simp add: check_and_set_gain_dep_cal_def Let_def)
    show "listener_wf ?l" using assms(1,4) by (simp add: listener_wf_def set_gain_dep_cal_def Let_def)
    show "level_in_line ?l" using assms(2) by (simp add: level_in_line_def set_gain_dep_cal_def Let_def)
    show "gain_in_line F A ?l" using last new_volume_cong [OF loud, of F] by (simp add: gain_in_line_def)
    show "same_contexts l ?l" by (rule ctx)
  qed
qed

lemma recompute_ok:
  assumes "listener_wf l" "level_in_line l" "send_linear_gain l" "once l"
    and flag: "flag \<or> headset_cal_enabled l \<or> gain_in_line F A l"
  shows "\<exists>l'. recompute_if F A cal_ok flag l = Some l' \<and> listener_ok F A l' \<and> vol_live l' = vol_live l"
proof (cases flag)
  case True
  from check_ok [OF assms(1-4)] obtain l' where "check_and_set_gain_dep_cal F A cal_ok l = Some l'"
    "listener_wf l'" "level_in_line l'" "gain_in_line F A l'" "same_contexts l l'" by blast
  with True show ?thesis
    by (intro exI [of _ l']) (simp add: recompute_if_def listener_ok_def same_contexts_def vol_live_def fun_eq_iff)
next
  case False
  with flag assms(1,2) show ?thesis by (auto simp: recompute_if_def listener_ok_def)
qed

section \<open>Commands\<close>

lemma listener_okD:
  assumes "listener_ok F A l"
  shows "listener_wf l" "level_in_line l" "headset_cal_enabled l \<or> gain_in_line F A l" "distinct (map fst (vol_effect_list l))"
  using assms by (auto simp: listener_ok_def listener_wf_def)

lemma gain_in_line_cong:
  "hal_calls l' = hal_calls l \<Longrightarrow> loudness A l' = loudness A l \<Longrightarrow> gain_in_line F A l' = gain_in_line F A l"
  using new_volume_cong [of A l' l F] by (simp add: gain_in_line_def cong: option.case_cong)

lemma verify_context_frame [simp]:
  "verify_context A hs (c\<lparr>state := s\<rparr>) = verify_context A hs c"
  "verify_context A hs (c\<lparr>left_vol := x, right_vol := y\<rparr>) = verify_context A hs c"
  "verify_context A hs (c\<lparr>vol_config := cfg\<rparr>) = verify_context A hs c"
  by (auto simp: verify_context_def)

text \<open>Replacing a context, with the gain computed again unless what is heard stays the same.\<close>

lemma put_recompute_ok:
  assumes ok: "listener_ok F A l" and h: "context_at l h = Some c" and "vol_live l h"
    and c': "state c' \<noteq> VOL_LISTENER_STATE_UNINITIALIZED"
    and flag: "flag \<or> headset_cal_enabled l \<or> heard A (headset_cal_enabled l) c' = heard A (headset_cal_enabled l) c"
  shows "\<exists>l'. recompute_if F A cal_ok flag (put_context h c' l) = Some l' \<and> listener_ok F A l' \<and> vol_live l' = vol_live l"
proof -
  note wf = listener_okD [OF ok]
  from context_live [OF wf(1) \<open>vol_live l h\<close>] have "send_linear_gain l" "once l" by blast+
  moreover have "flag \<or> headset_cal_enabled l \<or> gain_in_line F A (put_context h c' l)"
    using flag wf(3) gain_in_line_cong [OF put_context_frame(1) loudness_put [OF wf(4) h]] by blast
  ultimately show ?thesis
    using recompute_ok [of "put_context h c' l" flag F A cal_ok] put_context_wf [OF wf(1) c'] wf(2) by simp
qed

definition result_ok :: "floating \<Rightarrow> effect_api \<Rightarrow> listener \<Rightarrow> (int \<times> reply \<times> listener) option \<Rightarrow> bool" where
  "result_ok F A l r \<longleftrightarrow>
     (case r of None \<Rightarrow> False | Some (status, rep, l') \<Rightarrow> listener_ok F A l' \<and> vol_live l' = vol_live l)"

lemma result_ok_map:
  "\<exists>l'. r = Some l' \<and> listener_ok F A l' \<and> vol_live l' = vol_live l \<Longrightarrow> result_ok F A l (map_option (\<lambda>l. (st, rep, l)) r)"
  by (auto simp: result_ok_def)

lemma result_ok_same: "listener_ok F A l \<Longrightarrow> result_ok F A l (Some (st, rep, l))"
  by (simp add: result_ok_def)

lemma cmd_switch_ok:
  assumes ok: "listener_ok F A l" and h: "context_at l h = Some c" "vol_live l h" and a: "args_ok a"
    and new: "new \<noteq> VOL_LISTENER_STATE_UNINITIALIZED"
  shows "result_ok F A l (cmd_switch F A cal_ok old new a h c l)"
proof -
  let ?c = "c\<lparr>state := new\<rparr>"
  have "verify_context A hs ?c \<or> headset_cal_enabled l \<or> heard A hs ?c = heard A hs c" for hs
    by (simp add: heard_def)
  from put_recompute_ok [OF ok h _ this] new
  have "result_ok F A l (map_option (\<lambda>l. (0, IntReply 0, l))
      (recompute_if F A cal_ok (verify_context A (headset_cal_enabled l) ?c) (put_context h ?c l)))"
    by (intro result_ok_map) simp
  with ok show ?thesis
    by (rule_tac reply_cases [OF a, of sizeof_int]) (auto simp: cmd_switch_def result_ok_same put_reply_def Let_def)
qed

lemma cmd_set_device_ok:
  assumes ok: "listener_ok F A l" and h: "context_at l h = Some c" "vol_live l h"
    and c: "state c \<noteq> VOL_LISTENER_STATE_UNINITIALIZED" and a: "args_ok a"
  shows "result_ok F A l (cmd_set_device F A cal_ok a h c l)"
proof -
  have "(verify_context A hs c \<or> is_speaker A dev) \<or> headset_cal_enabled l \<or> heard A hs (c\<lparr>dev_id := dev\<rparr>) = heard A hs c"
    if "hs = headset_cal_enabled l" for dev hs
    using that by (auto simp: heard_def verify_context_def is_speaker_def)
  from put_recompute_ok [OF ok h _ this] c
  have "result_ok F A l (map_option (\<lambda>l. (0, NoReply, l))
      (recompute_if F A cal_ok (verify_context A (headset_cal_enabled l) c \<or> is_speaker A dev)
        (put_context h (c\<lparr>dev_id := dev\<rparr>) l)))" for dev
    by (intro result_ok_map) simp
  with a ok show ?thesis
    using read_cmd_defined [OF a, of 4] by (auto simp: cmd_set_device_def result_ok_same Let_def)
qed

lemma cmd_set_volume_ok:
  assumes ok: "listener_ok F A l" and h: "context_at l h = Some c" "vol_live l h"
    and c: "state c \<noteq> VOL_LISTENER_STATE_UNINITIALIZED" and a: "args_ok a"
  shows "result_ok F A l (cmd_set_volume F A cal_ok a h c l)"
proof -
  have "verify_context A hs c \<or> headset_cal_enabled l \<or> heard A hs (c\<lparr>left_vol := x, right_vol := y\<rparr>) = heard A hs c" for hs x y
    by (simp add: heard_def)
  from put_recompute_ok [OF ok h _ this] c
  have "result_ok F A l (map_option (\<lambda>l. (0, NoReply, l))
      (recompute_if F A cal_ok (verify_context A (headset_cal_enabled l) c)
        (put_context h (c\<lparr>left_vol := x, right_vol := y\<rparr>) l)))" for x y
    by (intro result_ok_map) simp
  with a ok show ?thesis
    using read_cmd_defined [OF a, of 8] by (auto simp: cmd_set_volume_def result_ok_same)
qed

lemma cmd_set_vol_config_ok:
  assumes ok: "listener_ok F A l" and h: "context_at l h = Some c" "vol_live l h"
    and c: "state c \<noteq> VOL_LISTENER_STATE_UNINITIALIZED" and a: "args_ok a"
  shows "result_ok F A l (cmd_set_vol_config A a h c l)"
proof -
  have "False \<or> headset_cal_enabled l \<or> heard A hs (c\<lparr>vol_config := cfg\<rparr>) = heard A hs c" for hs cfg
    by (simp add: heard_def)
  from put_recompute_ok [OF ok h _ this] c
  have "listener_ok F A (put_context h (c\<lparr>vol_config := cfg\<rparr>) l)" for cfg by (simp add: recompute_if_def)
  with ok show ?thesis
    using read_cmd_defined [OF a, of "sizeof_effect_config A"]
    by (rule_tac reply_cases [OF a, of sizeof_int]) (auto simp: cmd_set_vol_config_def result_ok_def put_reply_def)
qed

lemma vol_effect_command_ok:
  assumes ok: "listener_ok F A l" and h: "vol_live l h" and a: "args_ok a"
  shows "result_ok F A l (vol_effect_command F A cal_ok (Some h) cmd_code a l)"
proof -
  from context_live [OF listener_okD(1) [OF ok] h] obtain c where
    c: "context_at l h = Some c" "state c \<noteq> VOL_LISTENER_STATE_UNINITIALIZED" by blast
  have "result_ok F A l (cmd_int_reply a l)"
    using ok by (rule_tac reply_cases [OF a, of sizeof_int]) (auto simp: cmd_int_reply_def put_reply_def result_ok_same)
  then show ?thesis
    using c ok cmd_switch_ok [OF ok c(1) h a] cmd_set_device_ok [OF ok c(1) h c(2) a]
      cmd_set_volume_ok [OF ok c(1) h c(2) a] cmd_set_vol_config_ok [OF ok c(1) h c(2) a]
    by (cases cmd_code) (simp_all add: vol_effect_command_def result_ok_same)
qed

definition buffers_ok :: "u64 \<Rightarrow> 16 word list \<Rightarrow> 16 word list \<Rightarrow> bool" where
  "buffers_ok frameCount ins outs \<longleftrightarrow> 2 * unat frameCount \<le> length ins \<and> 2 * unat frameCount \<le> length outs"

lemma frames_le: "unat (n * 2 :: u64) \<le> 2 * unat n" "unat (n * 2 * 2 :: u64) div 2 \<le> 2 * unat n"
proof -
  have double: "unat (m * 2) \<le> unat m * 2" for m :: u64
    by (simp add: unat_word_ariths)
  from double [of n] double [of "n * 2"] show "unat (n * 2) \<le> 2 * unat n" "unat (n * 2 * 2) div 2 \<le> 2 * unat n" by linarith+
qed

lemma vol_effect_process_safe:
  assumes "listener_wf l" "vol_live l h" "buffers_ok frameCount ins outs"
  shows "\<exists>r. vol_effect_process A (Some h) same frameCount ins outs l = Some r"
proof -
  from context_live [OF assms(1,2)] obtain c where "context_at l h = Some c" by blast
  moreover from assms(3) frames_le [of frameCount]
  have "unat (frameCount * 2) \<le> length ins" "unat (frameCount * 2) \<le> length outs"
    "unat (frameCount * 2 * 2) div 2 \<le> length ins" "unat (frameCount * 2 * 2) div 2 \<le> length outs"
    unfolding buffers_ok_def by linarith+
  ultimately show ?thesis by (simp add: vol_effect_process_def Let_def)
qed

section \<open>Creation and release\<close>

text \<open>
  What the code needs of the audio HAL: it is there and has the gain function, and its table
  function writes within the table.
\<close>

definition hal_ok :: "audio_hal option \<Rightarrow> bool" where
  "hal_ok hal \<longleftrightarrow>
     (case hal of
        None \<Rightarrow> False
      | Some p \<Rightarrow> has_send_linear_gain p \<and>
          (case custom_gain_table p of None \<Rightarrow> True | Some f \<Rightarrow> \<forall>xs n. length (snd (f xs n)) = length xs))"

lemma length_clear_entries [simp]: "length (clear_entries i n xs) = length xs"
  by (induction i n xs rule: clear_entries.induct) simp_all

lemma use_custom_table_frame:
  "vol_effect_list (use_custom_table r l) = vol_effect_list l" "hal_calls (use_custom_table r l) = hal_calls l"
  "current_vol (use_custom_table r l) = current_vol l"
  "current_gain_dep_cal_level (use_custom_table r l) = current_gain_dep_cal_level l"
  "send_linear_gain (use_custom_table r l) = send_linear_gain l"
  by (simp_all add: use_custom_table_def split: prod.split)

lemma use_custom_table_steps:
  assumes "0 < total_volume_cal_step l" "total_volume_cal_step l \<le> MAX_VOLUME_CAL_STEPS"
    "length (snd r) = MAX_VOLUME_CAL_STEPS"
  shows "0 < total_volume_cal_step (use_custom_table r l)"
    "total_volume_cal_step (use_custom_table r l) \<le> MAX_VOLUME_CAL_STEPS"
    "length (volume_curve_gain_mapping_table (use_custom_table r l)) = MAX_VOLUME_CAL_STEPS"
  using assms by (auto simp: use_custom_table_def split: prod.splits)

lemma lib_init_ok:
  assumes ok: "listener_ok F A l" and hal: "hal_ok hal"
  obtains l' where "lib_init hal dump hs l = (0, l')" "listener_ok F A l'" "vol_live l' = vol_live l" "once l'"
    "vol_effect_list l' = vol_effect_list l" "send_linear_gain l'"
proof (cases "once l")
  case True
  with ok show ?thesis
    by (intro that [of l]) (auto simp: lib_init_def listener_ok_def listener_wf_def)
next
  case False
  from hal obtain p where p: "hal = Some p" "has_send_linear_gain p" by (auto simp: hal_ok_def split: option.splits)
  let ?l = "(init_once hal dump hs l)\<lparr>once := True\<rparr>"
  let ?k = "l\<lparr>send_gain_dep_cal := has_send_gain_dep_cal p, send_linear_gain := has_send_linear_gain p\<rparr>"
  from False ok have l: "\<not> initialized l" "vol_effect_list l = []" "hal_calls l = []" "current_gain_dep_cal_level l = - 1"
    "current_vol l = 0" "init_status l = 0" "0 < total_volume_cal_step l" "total_volume_cal_step l \<le> MAX_VOLUME_CAL_STEPS"
    "length (volume_curve_gain_mapping_table l) = MAX_VOLUME_CAL_STEPS"
    by (auto simp: listener_ok_def listener_wf_def level_in_line_def split: if_splits)
  obtain m where m: "m = (case custom_gain_table p of None \<Rightarrow> ?k
      | Some f \<Rightarrow> use_custom_table (f (volume_curve_gain_mapping_table l) MAX_VOLUME_CAL_STEPS) ?k)" by blast
  have i: "?l = m\<lparr>dumping_enabled := dumping_enabled m \<or> dump \<noteq> 0, headset_cal_enabled := hs,
      init_status := 0, vol_effect_list := [], initialized := True, once := True\<rparr>"
    using l(1) p by (simp add: init_once_def m Let_def split: option.split)
  have m': "hal_calls m = []" "current_gain_dep_cal_level m = - 1" "current_vol m = 0" "send_linear_gain m"
    "0 < total_volume_cal_step m" "total_volume_cal_step m \<le> MAX_VOLUME_CAL_STEPS"
    "length (volume_curve_gain_mapping_table m) = MAX_VOLUME_CAL_STEPS"
    using l p hal use_custom_table_steps
      [of ?k "the (custom_gain_table p) (volume_curve_gain_mapping_table l) MAX_VOLUME_CAL_STEPS"]
    unfolding m by (auto simp: hal_ok_def use_custom_table_frame split: option.split)
  show ?thesis
  proof (rule that [of ?l])
    show "lib_init hal dump hs l = (0, ?l)" using False unfolding lib_init_def i by (simp add: Let_def i)
    show "listener_ok F A ?l" unfolding i using m'
      by (simp add: listener_ok_def listener_wf_def level_in_line_def gain_in_line_def loudness_def List.map_filter_simps)
    show "vol_live ?l = vol_live l" unfolding i using l(2) by (simp add: vol_live_def fun_eq_iff)
    show "vol_effect_list ?l = vol_effect_list l" unfolding i using l(2) by simp
    show "send_linear_gain ?l" unfolding i using m' by simp
  qed (use False in simp_all)
qed

lemma created_ok:
  assumes ok: "listener_ok F A l" and "once l" "send_linear_gain l" and fresh: "\<not> vol_live l a"
    and c: "state c = VOL_LISTENER_STATE_INITIALIZED"
  defines "l' \<equiv> l\<lparr>vol_effect_list := vol_effect_list l @ [(a, c)]\<rparr>"
  shows "listener_ok F A l'" "vol_live l' = (vol_live l)(a := True)"
proof -
  have "loudness A l' = loudness A l"
    using c by (simp add: l'_def loudness_def List.map_filter_def heard_def)
  then have "gain_in_line F A l' = gain_in_line F A l" by (intro gain_in_line_cong) (simp_all add: l'_def)
  moreover have "listener_wf l'"
    using ok assms(2,3) fresh c by (auto simp: l'_def listener_ok_def listener_wf_def vol_live_def)
  ultimately show "listener_ok F A l'"
    using ok by (auto simp: listener_ok_def level_in_line_def l'_def)
  show "vol_live l' = (vol_live l)(a := True)" by (auto simp: l'_def vol_live_def fun_eq_iff)
qed

lemma vol_prc_lib_create_ok:
  assumes ok: "listener_ok F A l" and hal: "hal_ok (env_hal E)" and fresh: "\<And>a. fresh = Some a \<Longrightarrow> \<not> vol_live l a"
  obtains r l' where "vol_prc_lib_create A E fresh uuid sid present l = (r, l')" "listener_ok F A l'"
    "case r of Inl e \<Rightarrow> e < 0 \<and> vol_live l' = vol_live l
     | Inr h \<Rightarrow> \<not> vol_live l h \<and> vol_live l' = (vol_live l)(h := True)"
proof -
  from lib_init_ok [OF ok hal, of "env_dump E" "env_headset_cal E"] obtain m where
    m: "lib_init (env_hal E) (env_dump E) (env_headset_cal E) l = (0, m)" "listener_ok F A m"
      "vol_live m = vol_live l" "once m" "send_linear_gain m" by blast
  show ?thesis
  proof (cases "vol_prc_lib_create A E fresh uuid sid present l = (Inl (- EINVAL), m)")
    case True
    then show ?thesis using m by (intro that [OF True]) (simp_all add: errno_defs)
  next
    case False
    with m(1) obtain a u itt d where f: "fresh = Some a" "uuid = Some u" "present"
        "find_descriptor 0 (descriptors A) u = Some (itt, d)"
      unfolding vol_prc_lib_create_def by (cases present; cases uuid; cases fresh) (auto split: option.splits)
    with m(1) have "vol_prc_lib_create A E fresh uuid sid present l =
        (Inr a, m\<lparr>vol_effect_list := vol_effect_list m @ [(a, new_context A itt d sid)]\<rparr>)"
      by (simp add: vol_prc_lib_create_def)
    moreover have "state (new_context A itt d sid) = VOL_LISTENER_STATE_INITIALIZED" by (simp add: new_context_def)
    ultimately show ?thesis
      using created_ok [OF m(2,4,5), of a "new_context A itt d sid"] fresh [OF f(1)] unfolding m(3)
      by (intro that [of "Inr a" "m\<lparr>vol_effect_list := vol_effect_list m @ [(a, new_context A itt d sid)]\<rparr>"]) auto
  qed
qed

lemma vol_prc_lib_release_ok:
  assumes ok: "listener_ok F A l" and h: "vol_live l h"
  shows "\<exists>l'. vol_prc_lib_release F A cal_ok (Some h) l = Some (0, l') \<and> listener_ok F A l' \<and>
      vol_live l' = (vol_live l)(h := False)"
proof -
  note wf = listener_okD [OF ok]
  from context_live [OF wf(1) h] have l: "send_linear_gain l" "once l" by blast+
  from h obtain n c where c: "find_context 0 (vol_effect_list l) h = Some (n, c)"
    unfolding vol_live_def using find_context_None by fastforce
  have at: "context_at l h = Some c" using find_contextD [OF c] by (simp add: context_at_def)
  let ?flag = "verify_context A (headset_cal_enabled l) c"
  let ?r = "remove_context h l"
  let ?l = "if n = 0 then ?r\<lparr>current_gain_dep_cal_level := - 1, current_vol := 0\<rparr> else ?r"
  have "map fst (filter (\<lambda>(a, c). a \<noteq> h) xs) = filter (\<lambda>a. a \<noteq> h) (map fst xs)" for xs :: "(nat \<times> vol_listener_context_s) list"
    by (simp add: filter_map o_def case_prod_unfold)
  then have "listener_wf ?l" using wf(1) l by (auto simp: listener_wf_def remove_context_def list_all_iff)
  moreover have "level_in_line ?l" using wf(2) by (simp add: level_in_line_def remove_context_def)
  moreover have "?flag \<or> headset_cal_enabled ?l \<or> gain_in_line F A ?l"
  proof (cases ?flag)
    case False
    then have "loudness A ?l = loudness A l"
      using loudness_remove [OF wf(4) at, of A] by (simp add: heard_def)
    from gain_in_line_cong [OF _ this, of F] wf(3) show ?thesis by (simp add: remove_context_def split: if_splits)
  qed simp
  moreover have "vol_live ?l = (vol_live l)(h := False)"
    by (auto simp: vol_live_def remove_context_def fun_eq_iff)
  ultimately show ?thesis
    using recompute_ok [of ?l ?flag F A cal_ok] c l by (auto simp: vol_prc_lib_release_def Let_def remove_context_def)
qed

section \<open>The library contract\<close>

record vol_create_args =
  vc_env :: vol_env
  vc_fresh :: "nat option"
  vc_uuid :: "effect_uuid_t option"
  vc_session :: u32
  vc_handle :: bool

datatype vol_operation = VolCommand effect_cmd command_args | VolProcess bool u64 "16 word list" "16 word list"

text \<open>\<open>cal\<close>: the answer of the HAL's calibration function, by the calls made to it before.\<close>

definition vol_lib ::
    "floating \<Rightarrow> effect_api \<Rightarrow> (hal_call list \<Rightarrow> bool) \<Rightarrow> (nat, vol_create_args, vol_operation, listener) handle_lib" where
  "vol_lib F A cal =
     \<lparr>lib_create_op = (\<lambda>c l. Some (vol_prc_lib_create A (vc_env c) (vc_fresh c) (vc_uuid c) (vc_session c) (vc_handle c) l)),
      lib_release_op = (\<lambda>h l. vol_prc_lib_release F A (cal (hal_calls l)) (Some h) l),
      lib_operate_op = (\<lambda>h x l.
        case x of
          VolCommand cmd a \<Rightarrow>
            map_option (\<lambda>(status, rep, l). (status, l)) (vol_effect_command F A (cal (hal_calls l)) (Some h) cmd a l)
        | VolProcess same n ins outs \<Rightarrow>
            map_option (\<lambda>(status, outs). (status, l)) (vol_effect_process A (Some h) same n ins outs l)),
      lib_live = vol_live,
      lib_create_args = (\<lambda>c l. hal_ok (env_hal (vc_env c)) \<and>
        (case vc_fresh c of None \<Rightarrow> True | Some a \<Rightarrow> \<not> vol_live l a)),
      lib_operate_args = (\<lambda>x. case x of VolCommand cmd a \<Rightarrow> args_ok a | VolProcess same n ins outs \<Rightarrow> buffers_ok n ins outs)\<rparr>"

interpretation volume_library: handle_library "vol_lib F A cal" "listener_ok F A" for F A cal
proof
  fix c and l :: listener
  assume ok: "listener_ok F A l" and c: "lib_create_args (vol_lib F A cal) c l"
  then have "\<And>a. vc_fresh c = Some a \<Longrightarrow> \<not> vol_live l a" "hal_ok (env_hal (vc_env c))" by (simp_all add: vol_lib_def)
  from vol_prc_lib_create_ok [OF ok this(2), of "vc_fresh c" "vc_uuid c" "vc_session c" "vc_handle c", OF this(1)]
  obtain r l' where "vol_prc_lib_create A (vc_env c) (vc_fresh c) (vc_uuid c) (vc_session c) (vc_handle c) l = (r, l')"
    "listener_ok F A l'"
    "case r of Inl e \<Rightarrow> e < 0 \<and> vol_live l' = vol_live l
     | Inr h \<Rightarrow> \<not> vol_live l h \<and> vol_live l' = (vol_live l)(h := True)" by blast
  then show "\<exists>r s'. lib_create_op (vol_lib F A cal) c l = Some (r, s') \<and> listener_ok F A s' \<and>
      (case r of Inl e \<Rightarrow> e < 0 \<and> lib_live (vol_lib F A cal) s' = lib_live (vol_lib F A cal) l
       | Inr h \<Rightarrow> \<not> lib_live (vol_lib F A cal) l h \<and> lib_live (vol_lib F A cal) s' = (lib_live (vol_lib F A cal) l)(h := True))"
    by (simp add: vol_lib_def cong: sum.case_cong)
next
  fix h and l :: listener
  assume "listener_ok F A l" "lib_live (vol_lib F A cal) l h"
  then show "\<exists>s'. lib_release_op (vol_lib F A cal) h l = Some (0, s') \<and> listener_ok F A s' \<and>
      lib_live (vol_lib F A cal) s' = (lib_live (vol_lib F A cal) l)(h := False)"
    using vol_prc_lib_release_ok [of F A l h "cal (hal_calls l)"] by (simp add: vol_lib_def)
next
  fix h x and l :: listener
  assume ok: "listener_ok F A l" and h: "lib_live (vol_lib F A cal) l h" and x: "lib_operate_args (vol_lib F A cal) x"
  show "\<exists>r s'. lib_operate_op (vol_lib F A cal) h x l = Some (r, s') \<and> listener_ok F A s' \<and>
      lib_live (vol_lib F A cal) s' = lib_live (vol_lib F A cal) l"
  proof (cases x)
    case (VolCommand cmd a)
    with h x vol_effect_command_ok [OF ok, of h a "cal (hal_calls l)" cmd] show ?thesis
      by (auto simp: vol_lib_def result_ok_def split: option.splits)
  next
    case (VolProcess same n ins outs)
    with h x vol_effect_process_safe [OF listener_okD(1) [OF ok], of h n ins outs A same] ok show ?thesis
      by (auto simp: vol_lib_def)
  qed
qed

lemma initial_listener_ok: "listener_ok F A (initial_listener F)"
  by (simp add: listener_ok_def listener_wf_def level_in_line_def gain_in_line_def loudness_def initial_listener_def
      List.map_filter_simps MAX_VOLUME_CAL_STEPS_def MAX_GAIN_LEVELS_def default_gain_table_def)

section \<open>Bounds of the gain\<close>

text \<open>What the arithmetic of \<^verbatim>\<open>float\<close> and \<^verbatim>\<open>double\<close> gives: rounding is monotonic and keeps the numbers it has.\<close>

definition rounding :: "floating \<Rightarrow> bool" where
  "rounding F \<longleftrightarrow>
     mono (flt F) \<and> mono (dbl F) \<and> (\<forall>x. flt F (flt F x) = flt F x) \<and> dbl F 0 = 0 \<and> dbl F 1 = 1 \<and>
     (\<forall>k \<le> 28. flt F (2 ^ k) = 2 ^ k \<and> flt F (- (2 ^ k)) = - (2 ^ k)) \<and> flt F 0 = 0"

lemma roundingD:
  assumes "rounding F"
  shows "x \<le> y \<Longrightarrow> flt F x \<le> flt F y" "x \<le> y \<Longrightarrow> dbl F x \<le> dbl F y" "flt F (flt F x) = flt F x"
    "flt F 0 = 0" "dbl F 0 = 0" "flt F 1 = 1" "flt F (2 ^ 28) = 2 ^ 28" "flt F (- (2 ^ 28)) = - (2 ^ 28)"
proof -
  from assms have k: "flt F (2 ^ k) = 2 ^ k" "flt F (- (2 ^ k)) = - (2 ^ k)" if "k \<le> 28" for k
    using that unfolding rounding_def by blast+
  from k(1) [of 0] k(1) [of 28] k(2) [of 28]
  show "flt F 1 = 1" "flt F (2 ^ 28) = 2 ^ 28" "flt F (- (2 ^ 28)) = - (2 ^ 28)" by simp_all
qed (use assms in \<open>auto simp: rounding_def mono_def\<close>)

text \<open>The energy of one stream, and that of several is no less than any of them.\<close>

definition energy_of :: "floating \<Rightarrow> real \<times> real \<Rightarrow> real" where
  "energy_of F v = flt F (flt F (max (fst v) (snd v)) * flt F (max (fst v) (snd v)))"

lemma energy_of_nonneg: "rounding F \<Longrightarrow> 0 \<le> energy_of F v"
  using roundingD(1) [of F 0] roundingD(4) [of F] by (simp add: energy_of_def)

lemma fold_energy_bounds:
  assumes F: "rounding F" and "0 \<le> e" "flt F e = e"
  shows "e \<le> snd (fold (add_energy F) vs (u, e)) \<and>
      (\<forall>v\<in>set vs. energy_of F v \<le> snd (fold (add_energy F) vs (u, e)))"
  using assms(2,3)
proof (induction vs arbitrary: u e)
  case (Cons v vs)
  let ?e = "flt F (e + energy_of F v)"
  have add: "add_energy F v (u, e) = (True, ?e)" by (simp add: add_energy_def energy_of_def Let_def)
  have "flt F e \<le> ?e" "flt F (energy_of F v) \<le> ?e"
    using energy_of_nonneg [OF F, of v] Cons.prems(1) by (intro roundingD(1) [OF F]; simp)+
  moreover have "flt F (energy_of F v) = energy_of F v" by (simp add: energy_of_def roundingD(3) [OF F])
  ultimately have e: "e \<le> ?e" "energy_of F v \<le> ?e" using Cons.prems(2) by simp_all
  with Cons.IH [of ?e True] Cons.prems roundingD(3) [OF F] show ?case by (auto simp: add)
qed simp

definition volume_from :: "floating \<Rightarrow> real \<Rightarrow> real" where
  "volume_from F e = flt F (min (dbl F (sqrt e)) 1)"

lemma volume_from_mono: "rounding F \<Longrightarrow> e \<le> e' \<Longrightarrow> volume_from F e \<le> volume_from F e'"
  unfolding volume_from_def by (intro roundingD(1) min.mono roundingD(2)) simp_all

lemma volume_from_bounds:
  assumes "rounding F" "0 \<le> e" shows "0 \<le> volume_from F e" "volume_from F e \<le> 1"
proof -
  from roundingD(2) [OF assms(1), of 0 "sqrt e"] assms have "0 \<le> min (dbl F (sqrt e)) 1" by (simp add: roundingD(5))
  from roundingD(1) [OF assms(1) this] show "0 \<le> volume_from F e" by (simp add: volume_from_def roundingD(4) [OF assms(1)])
  from roundingD(1) [OF assms(1), of "min (dbl F (sqrt e)) 1" 1] show "volume_from F e \<le> 1"
    by (simp add: volume_from_def roundingD(6) [OF assms(1)])
qed

lemma linear_gain_defined:
  assumes F: "rounding F" and v: "0 \<le> v" "v \<le> 1"
  shows "\<exists>g. linear_gain F v = Some g \<and> uint g = round_away (flt F (v * 2 ^ 28)) \<and> uint g \<le> 2 ^ 28"
proof -
  let ?x = "flt F (v * 2 ^ 28)"
  from roundingD(1) [OF F, of 0 "v * 2 ^ 28"] roundingD(1) [OF F, of "v * 2 ^ 28" "2 ^ 28"] v
  have "0 \<le> ?x" "?x \<le> 2 ^ 28" by (simp_all add: roundingD(4) [OF F] roundingD(7) [OF F, simplified])
  then have r: "0 \<le> round_away ?x" "round_away ?x \<le> 2 ^ 28" unfolding round_away_def by (simp_all add: floor_le_iff)
  then have "uint (word_of_int (round_away ?x) :: u32) = round_away ?x" by (simp add: uint_word_of_int)
  with r show ?thesis by (simp add: linear_gain_def to_uint32_def LIN_VOLUME_QFACTOR_28_def)
qed

lemma round_away_mono: "0 \<le> x \<Longrightarrow> x \<le> y \<Longrightarrow> round_away x \<le> round_away y"
  by (simp add: round_away_def floor_mono)

lemma new_volume_heard_from:
  "loudness A l \<noteq> [] \<Longrightarrow> new_volume F A l = volume_from F (snd (fold (add_energy F) (loudness A l) (False, 0)))"
  using used_add_energy [of F "loudness A l" "(False, 0)"]
  by (cases "fold (add_energy F) (loudness A l) (False, 0)") (simp add: new_volume_heard volume_from_def)

section \<open>Saturation\<close>

lemma xor_zero: "x XOR y = 0 \<longleftrightarrow> x = y" for x y :: "'a :: len word"
  by (auto simp: bit_eq_iff bit_xor_iff)

lemma sint_inj: "sint x = sint y \<Longrightarrow> x = y" for x y :: "'a :: len word"
  by (rule signed_word_eqI)

lemma clamp16_saturates: "sint (clamp16 x) = max (- 32768) (min 32767 (sint x))"
proof -
  let ?s = "sint x"
  have bounds: "- (2 ^ 31) \<le> ?s" "?s < 2 ^ 31" using sint_range_size [of x] by (simp_all add: word_size)
  have s15: "sint (signed_drop_bit 15 x) = ?s div 2 ^ 15" and s31: "sint (signed_drop_bit 31 x) = ?s div 2 ^ 31"
    by (simp_all add: sint_signed_drop_bit_eq drop_bit_eq_div)
  have sign: "signed_drop_bit 31 x = (if ?s < 0 then - 1 else 0)"
    using bounds s31 by (intro sint_inj) (auto simp: div_eq_dividend_iff)
  show ?thesis
  proof (cases "- (2 ^ 15) \<le> ?s \<and> ?s < 2 ^ 15")
    case True
    then have "?s div 2 ^ 15 = (if ?s < 0 then - 1 else 0)" by auto
    with s15 have "signed_drop_bit 15 x = signed_drop_bit 31 x"
      unfolding sign by (intro sint_inj) simp
    moreover have "sint (ucast x :: 16 word) = ?s"
    proof -
      have "sint (ucast x :: 16 word) = signed_take_bit 15 (uint x)" by (simp add: signed_ucast_eq)
      also have "\<dots> = signed_take_bit 15 (sint x)" by (simp add: sint_uint)
      also have "\<dots> = ?s" using True by (intro signed_take_bit_int_eq_self) simp_all
      finally show ?thesis .
    qed
    ultimately show ?thesis using True by (simp add: clamp16_def)
  next
    case False
    then have "signed_drop_bit 15 x \<noteq> signed_drop_bit 31 x" using s15 unfolding sign by auto
    with False show ?thesis unfolding clamp16_def xor_zero sign by auto
  qed
qed

lemma sint_sum_fits: "sint (scast a + scast b :: 32 word) = sint a + sint b" for a b :: "16 word"
proof -
  have up: "sint (scast w :: 32 word) = sint w" for w :: "16 word" by (rule sint_up_scast) (simp add: is_up)
  have "- (2 ^ 15) \<le> sint w" "sint w < 2 ^ 15" for w :: "16 word" using sint_range_size [of w] by (simp_all add: word_size)
  from this [of a] this [of b] have "sint (scast a + scast b :: 32 word) = sint (scast a :: 32 word) + sint (scast b :: 32 word)"
    unfolding up by (subst sint_word_ariths) (simp add: up signed_take_bit_int_eq_self)
  then show ?thesis by (simp add: up)
qed

section \<open>Properties\<close>

text \<open>
  C30. The volume listener is memory safe and its gain right: every sequence of creations, releases,
  commands and buffers that uses handles between their creation and release, and memory as large as the sizes it names,
  runs without touching freed memory, reading past a command's data, writing past a reply, leaving a buffer or calling a missing function, for any answers of the HAL. After it, unless
  headset calibration is on, the linear gain last sent to the HAL is the one of the streams that now
  are active on the speaker, and before the first there is none. The
  calibration level on record is unset, or it is the level the HAL last took and that of the volume on record.
\<close>
theorem volume_gain_in_line:
  assumes "well_behaved (vol_lib F A cal) calls (initial_listener F)"
  shows "\<exists>l. performs (vol_lib F A cal) calls (initial_listener F) = Some l \<and>
      (headset_cal_enabled l \<or>
       (case last_linear_gain (hal_calls l) of
          None \<Rightarrow> loudness A l = []
        | Some g \<Rightarrow> g = linear_gain F (new_volume F A l))) \<and>
      (if current_gain_dep_cal_level l = - 1 then current_vol l = 0
       else last_level (hal_calls l) = Some (current_gain_dep_cal_level l) \<and>
            current_gain_dep_cal_level l = gain_level l (current_vol l))"
  using volume_library.performs_ok [OF initial_listener_ok assms]
  by (auto simp: listener_ok_def gain_in_line_def level_in_line_def)

definition exact_floating :: floating where
  "exact_floating = \<lparr>flt = id, dbl = id\<rparr>"

definition sample_env :: vol_env where
  "sample_env = \<lparr>env_hal = Some \<lparr>has_send_gain_dep_cal = True, has_send_linear_gain = True,
      custom_gain_table = Some (\<lambda>xs n. (3, xs))\<rparr>, env_dump = 0, env_headset_cal = False\<rparr>"

definition vol_int_args :: command_args where
  "vol_int_args = \<lparr>cmd_size = 0, cmd_data = None, reply_size = Some 4, reply_room = Some 4\<rparr>"

definition vol_data_args :: "u8 list \<Rightarrow> command_args" where
  "vol_data_args bytes = \<lparr>cmd_size = length bytes, cmd_data = Some bytes, reply_size = None, reply_room = None\<rparr>"

text \<open>A music stream is created, moved to the speaker, enabled and released.\<close>

definition sample_vol_calls :: "(nat, vol_create_args, vol_operation) lib_call list" where
  "sample_vol_calls =
     [Create \<lparr>vc_env = sample_env, vc_fresh = Some 1, vc_uuid = Some (vol_uuid 0x08b8b058 0xac71), vc_session = 9, vc_handle = True\<rparr>,
      Operate 1 (VolCommand CMD_SET_DEVICE (vol_data_args [2, 0, 0, 0])),
      Operate 1 (VolCommand CMD_ENABLE vol_int_args),
      Release 1]"

definition created_listener :: listener where
  "created_listener = (initial_listener exact_floating)\<lparr>initialized := True, once := True,
     volume_curve_gain_mapping_table := clear_entries 3 2 (default_gain_table exact_floating),
     total_volume_cal_step := 3, send_gain_dep_cal := True, send_linear_gain := True,
     vol_effect_list := [(1, new_context sample_effect_api MUSIC (vol_listener_music_descriptor sample_effect_api) 9)]\<rparr>"

lemma sample_lib_init:
  "lib_init (env_hal sample_env) (env_dump sample_env) (env_headset_cal sample_env) (initial_listener exact_floating) =
     (0, created_listener\<lparr>vol_effect_list := []\<rparr>)"
  by (simp add: lib_init_def init_once_def sample_env_def initial_listener_def created_listener_def use_custom_table_def
      MAX_GAIN_LEVELS_def MAX_VOLUME_CAL_STEPS_def Let_def)

lemma sample_create:
  "perform (vol_lib exact_floating sample_effect_api cal) (hd sample_vol_calls) (initial_listener exact_floating) =
     Some created_listener"
proof -
  let ?A = sample_effect_api
  have "find_descriptor 0 (descriptors ?A) (vol_uuid 0x08b8b058 0xac71) = Some (MUSIC, vol_listener_music_descriptor ?A)"
    by (simp add: descriptors_def vol_listener_music_descriptor_def MUSIC_def)
  then have "vol_prc_lib_create ?A sample_env (Some 1) (Some (vol_uuid 0x08b8b058 0xac71)) 9 True (initial_listener exact_floating) =
      (Inr 1, created_listener\<lparr>vol_effect_list := [(1, new_context ?A MUSIC (vol_listener_music_descriptor ?A) 9)]\<rparr>)"
    by (simp add: vol_prc_lib_create_def sample_lib_init)
  then show ?thesis by (simp add: sample_vol_calls_def vol_lib_def) (simp add: created_listener_def)
qed

lemma created_listener_ok:
  "listener_ok exact_floating sample_effect_api created_listener" "vol_live created_listener = (\<lambda>h. h = 1)"
proof -
  show live: "vol_live created_listener = (\<lambda>h. h = 1)" by (simp add: fun_eq_iff vol_live_def created_listener_def)
  have "allowed (vol_lib exact_floating sample_effect_api (\<lambda>xs. True)) (hd sample_vol_calls) (initial_listener exact_floating)"
    by (simp add: sample_vol_calls_def vol_lib_def sample_env_def hal_ok_def initial_listener_def vol_live_def)
  from volume_library.perform_ok [OF initial_listener_ok this] sample_create
  show "listener_ok exact_floating sample_effect_api created_listener" by simp
qed

theorem volume_gain_in_line_witness:
  "\<exists>l. performs (vol_lib exact_floating sample_effect_api (\<lambda>xs. True)) sample_vol_calls (initial_listener exact_floating) = Some l"
proof -
  let ?L = "vol_lib exact_floating sample_effect_api (\<lambda>xs. True)"
  have live: "lib_live ?L = vol_live" by (simp add: vol_lib_def)
  have args: "lib_operate_args ?L (VolCommand cmd vol_int_args)" "lib_operate_args ?L (VolCommand cmd (vol_data_args bytes))"
    for cmd bytes by (simp_all add: vol_lib_def args_ok_def vol_int_args_def vol_data_args_def)
  have "well_behaved ?L (tl sample_vol_calls) created_listener"
    unfolding sample_vol_calls_def list.sel
    by (intro volume_library.well_behaved_operate volume_library.well_behaved_release created_listener_ok(1) args)
      (simp_all add: live created_listener_ok)
  moreover have "allowed ?L (hd sample_vol_calls) (initial_listener exact_floating)"
    by (simp add: sample_vol_calls_def vol_lib_def sample_env_def hal_ok_def initial_listener_def vol_live_def)
  ultimately have "well_behaved ?L (hd sample_vol_calls # tl sample_vol_calls) (initial_listener exact_floating)"
    unfolding well_behaved.simps sample_create by simp
  then have "well_behaved ?L sample_vol_calls (initial_listener exact_floating)" by (simp add: sample_vol_calls_def)
  from volume_gain_in_line [OF this] show ?thesis by blast
qed

text \<open>
  C31. The linear gain is in range: when a stream is heard, the conversion to \<^verbatim>\<open>uint32_t\<close> is defined, the gain is at
  most 1.0 in the Q28 format, and no less than any of the streams would get alone. When none is heard the code
  converts a negative number, which has no defined result.
\<close>
theorem linear_gain_bounds:
  assumes "rounding F"
  shows "if loudness A l = [] then linear_gain F (new_volume F A l) = None
    else \<exists>g. linear_gain F (new_volume F A l) = Some g \<and> uint g \<le> 2 ^ 28 \<and>
      (\<forall>v\<in>set (loudness A l). \<exists>g1. linear_gain F (volume_from F (energy_of F v)) = Some g1 \<and> g1 \<le> g)"
proof (cases "loudness A l = []")
  case True
  then have "new_volume F A l = - 1" by (simp add: new_volume_heard)
  with True roundingD(8) [OF assms] show ?thesis
    by (simp add: linear_gain_def LIN_VOLUME_QFACTOR_28_def round_away_def to_uint32_def)
next
  case False
  let ?e = "snd (fold (add_energy F) (loudness A l) (False, 0))"
  have e: "0 \<le> ?e" "\<And>v. v \<in> set (loudness A l) \<Longrightarrow> energy_of F v \<le> ?e"
    using fold_energy_bounds [OF assms, of 0] roundingD(4) [OF assms] by simp_all
  note v = new_volume_heard_from [OF False, of F]
  from linear_gain_defined [OF assms volume_from_bounds [OF assms e(1)]] obtain g where
    g: "linear_gain F (new_volume F A l) = Some g" "uint g \<le> 2 ^ 28"
      "uint g = round_away (flt F (volume_from F ?e * 2 ^ 28))" unfolding v by blast
  have "\<exists>g1. linear_gain F (volume_from F (energy_of F x)) = Some g1 \<and> g1 \<le> g" if "x \<in> set (loudness A l)" for x
  proof -
    note x = volume_from_bounds [OF assms energy_of_nonneg [OF assms, of x]]
    from linear_gain_defined [OF assms x] obtain g1 where g1: "linear_gain F (volume_from F (energy_of F x)) = Some g1"
      "uint g1 = round_away (flt F (volume_from F (energy_of F x) * 2 ^ 28))" by blast
    have "0 \<le> flt F (volume_from F (energy_of F x) * 2 ^ 28)"
      using roundingD(1) [OF assms, of 0 "volume_from F (energy_of F x) * 2 ^ 28"] x(1) by (simp add: roundingD(4) [OF assms])
    moreover have "flt F (volume_from F (energy_of F x) * 2 ^ 28) \<le> flt F (volume_from F ?e * 2 ^ 28)"
      using volume_from_mono [OF assms e(2) [OF that]] by (intro roundingD(1) [OF assms]) simp
    ultimately have "uint g1 \<le> uint g" unfolding g(3) g1(2) by (rule round_away_mono)
    with g1(1) show ?thesis by (simp add: word_le_def)
  qed
  with False g(1,2) show ?thesis by auto
qed

definition sample_context :: "effect_api \<Rightarrow> vol_listener_context_s" where
  "sample_context A = (new_context A MUSIC (vol_listener_music_descriptor A) 7)
     \<lparr>state := VOL_LISTENER_STATE_ACTIVE, dev_id := 2, left_vol := 1, right_vol := 1 / 2\<rparr>"

lemma exact_rounding: "rounding exact_floating"
  by (simp add: rounding_def exact_floating_def mono_def)

lemma sample_loudness:
  "loudness sample_effect_api ((initial_listener F)\<lparr>vol_effect_list := [(1, sample_context sample_effect_api)]\<rparr>) = [(1, 1 / 2)]"
  by (simp add: loudness_def initial_listener_def heard_def verify_context_def sample_context_def sample_effect_api_def
      new_context_def List.map_filter_simps)

theorem linear_gain_bounds_witness:
  "\<exists>g. linear_gain exact_floating (new_volume exact_floating sample_effect_api
      ((initial_listener exact_floating)\<lparr>vol_effect_list := [(1, sample_context sample_effect_api)]\<rparr>)) = Some g \<and>
    uint g \<le> 2 ^ 28"
  using linear_gain_bounds [OF exact_rounding, of sample_effect_api
      "(initial_listener exact_floating)\<lparr>vol_effect_list := [(1, sample_context sample_effect_api)]\<rparr>"]
  unfolding sample_loudness by auto

text \<open>
  C32. Accumulating adds and saturates: with an active effect in that mode and two buffers, every sample of the
  frames becomes the sum of the two, limited to 16 bits, the rest of the output stays, and the state does not change.
\<close>
theorem accumulate_saturates:
  assumes "context_at l h = Some c" "state c = VOL_LISTENER_STATE_ACTIVE"
    and "accessMode (outputCfg (vol_config c)) = EFFECT_BUFFER_ACCESS_ACCUMULATE A"
    and "buffers_ok frameCount ins outs" "unat frameCount < 2 ^ 63"
  shows "\<exists>res. vol_effect_process A (Some h) False frameCount ins outs l = Some (0, res) \<and>
      length res = length outs \<and>
      (\<forall>i < length outs. sint (res ! i) =
        (if i < 2 * unat frameCount then max (- 32768) (min 32767 (sint (outs ! i) + sint (ins ! i))) else sint (outs ! i)))"
proof -
  have n: "unat (frameCount * 2) = 2 * unat frameCount" using assms(5) by (simp add: unat_word_ariths)
  let ?n = "2 * unat frameCount"
  let ?res = "map (\<lambda>(o16, i16). clamp16 (scast o16 + scast i16)) (zip (take ?n outs) (take ?n ins)) @ drop ?n outs"
  from assms(4) have len: "?n \<le> length ins" "?n \<le> length outs" by (simp_all add: buffers_ok_def)
  have "vol_effect_process A (Some h) False frameCount ins outs l = Some (0, ?res)"
    using assms(1-3) len n by (simp add: vol_effect_process_def Let_def)
  moreover have "sint (?res ! i) = (if i < ?n then max (- 32768) (min 32767 (sint (outs ! i) + sint (ins ! i))) else sint (outs ! i))"
    if "i < length outs" for i
    using that len by (auto simp: nth_append clamp16_saturates sint_sum_fits min_def)
  moreover have "length ?res = length outs" using len by simp
  ultimately show ?thesis by blast
qed

definition sample_mixer :: listener where
  "sample_mixer = (initial_listener exact_floating)\<lparr>vol_effect_list :=
     [(1, (sample_context sample_effect_api)\<lparr>vol_config := \<lparr>inputCfg = zero_buffer_config,
        outputCfg = zero_buffer_config\<lparr>accessMode := 2\<rparr>\<rparr>\<rparr>)]\<rparr>"

theorem accumulate_saturates_witness:
  "\<exists>res. vol_effect_process sample_effect_api (Some 1) False 1 [30000, 5] [30000, 6, 7] sample_mixer = Some (0, res) \<and>
    sint (res ! 0) = 32767 \<and> sint (res ! 1) = 11 \<and> sint (res ! 2) = 7"
proof -
  let ?c = "(sample_context sample_effect_api)\<lparr>vol_config := \<lparr>inputCfg = zero_buffer_config,
        outputCfg = zero_buffer_config\<lparr>accessMode := 2\<rparr>\<rparr>\<rparr>"
  have "context_at sample_mixer 1 = Some ?c" "state ?c = VOL_LISTENER_STATE_ACTIVE"
    "accessMode (outputCfg (vol_config ?c)) = EFFECT_BUFFER_ACCESS_ACCUMULATE sample_effect_api"
    by (simp_all add: context_at_def sample_mixer_def sample_context_def sample_effect_api_def)
  from accumulate_saturates [OF this, of 1 "[30000, 5]" "[30000, 6, 7]"] obtain res where
    r: "vol_effect_process sample_effect_api (Some 1) False 1 [30000, 5] [30000, 6, 7] sample_mixer = Some (0, res)"
    "\<forall>i < 3. sint (res ! i) = (if i < 2 then max (- 32768) (min 32767 (sint (([30000, 6, 7] :: 16 word list) ! i) + sint (([30000, 5] :: 16 word list) ! i)))
       else sint (([30000, 6, 7] :: 16 word list) ! i))"
    by (auto simp: buffers_ok_def)
  have "sint (res ! 0) = 32767" "sint (res ! 1) = 11" "sint (res ! 2) = 7"
    using r(2) [rule_format, of 0] r(2) [rule_format, of 1] r(2) [rule_format, of 2] by simp_all
  with r(1) show ?thesis by blast
qed

text \<open>
  C33. When the calibration is computed again, it follows the volume. This is about the listener right after
  \<^verbatim>\<open>check_and_set_gain_dep_cal\<close>, called after any well-behaved calls, with three conditions: the HAL has the calibration function,
  it takes the level, and the table has a level for the volume. Then the level on record and the one last taken by the
  HAL are that of the volume. The exception is a volume of 0 after a start or a reset: it equals the
  volume the record starts with, and no level is sent. Between two such computations the record may be behind: a release of
  the oldest stream resets it (\<open>release_oldest_resets\<close>).
\<close>
theorem calibration_follows_volume:
  assumes "well_behaved (vol_lib F A cal) calls (initial_listener F)"
    and "performs (vol_lib F A cal) calls (initial_listener F) = Some l"
    and "check_and_set_gain_dep_cal F A True l = Some l'" "send_gain_dep_cal l"
    and "gain_level l (new_volume F A l) \<noteq> - 1"
  shows "if new_volume F A l = 0 \<and> current_vol l = 0 \<and> current_gain_dep_cal_level l = - 1
    then current_gain_dep_cal_level l' = - 1 \<and> last_level (hal_calls l') = last_level (hal_calls l)
    else current_gain_dep_cal_level l' = gain_level l (new_volume F A l) \<and>
         last_level (hal_calls l') = Some (gain_level l (new_volume F A l))"
proof -
  from volume_library.performs_ok [OF initial_listener_ok assms(1)] assms(2)
  have "level_in_line l" by (auto simp: listener_ok_def)
  with assms(3-5) show ?thesis
    by (auto simp: check_and_set_gain_dep_cal_def set_gain_dep_cal_def level_in_line_def Let_def split: if_splits)
qed

theorem calibration_follows_volume_witness:
  "\<exists>l'. check_and_set_gain_dep_cal exact_floating sample_effect_api True created_listener = Some l' \<and>
    current_gain_dep_cal_level l' = 0 \<and> last_level (hal_calls l') = Some 0"
proof -
  let ?L = "vol_lib exact_floating sample_effect_api (\<lambda>xs. True)"
  have "allowed ?L (hd sample_vol_calls) (initial_listener exact_floating)"
    by (simp add: sample_vol_calls_def vol_lib_def sample_env_def hal_ok_def initial_listener_def vol_live_def)
  then have calls: "well_behaved ?L [hd sample_vol_calls] (initial_listener exact_floating)"
    "performs ?L [hd sample_vol_calls] (initial_listener exact_floating) = Some created_listener"
    by (simp_all del: perform.simps allowed.simps add: sample_create)
  have vol: "new_volume exact_floating sample_effect_api created_listener = - 1"
    by (simp add: new_volume_def created_listener_def new_context_def)
  have level: "gain_level created_listener (- 1) = 0" by (simp add: gain_level_def DEFAULT_CAL_STEP_def)
  have sends: "send_gain_dep_cal created_listener" "send_linear_gain created_listener" by (simp_all add: created_listener_def)
  then obtain l' where c: "check_and_set_gain_dep_cal exact_floating sample_effect_api True created_listener = Some l'"
    by (simp add: check_and_set_gain_dep_cal_def Let_def)
  from calibration_follows_volume [OF calls c sends(1)] c show ?thesis by (simp add: vol level)
qed

section \<open>Where the record and the gain are wrong\<close>

text \<open>
  With headset calibration on, a call that moves from another device to the earpiece or a headset is heard,
  but the gain is not computed: nothing is sent.
\<close>

lemma headset_move_sends_nothing:
  assumes "cmd_data a \<noteq> None" "cmd_size a \<ge> 4" "read_cmd 4 a = Some bytes" "read_u32 0 bytes = dev"
    and "\<not> verify_context A (headset_cal_enabled l) c" "\<not> is_speaker A dev"
  shows "cmd_set_device F A cal_ok a h c l = Some (0, NoReply, put_context h (c\<lparr>dev_id := dev\<rparr>) l) \<and>
    hal_calls (put_context h (c\<lparr>dev_id := dev\<rparr>) l) = hal_calls l"
  using assms by (auto simp: cmd_set_device_def recompute_if_def Let_def)

lemma headset_move_heard:
  assumes "state c = VOL_LISTENER_STATE_ACTIVE" "stream_type c = VC_CALL" "dev = AUDIO_DEVICE_OUT_WIRED_HEADSET A"
  shows "heard A True (c\<lparr>dev_id := dev\<rparr>) = Some (left_vol c, right_vol c)"
  using assms by (simp add: heard_def verify_context_def)

text \<open>
  Releasing the oldest context resets the recorded level and volume, though other streams remain: the
  count stops at the context found.
\<close>

lemma release_oldest_resets:
  assumes "vol_effect_list l = (h, c) # others" "h \<notin> fst ` set others" "\<not> verify_context A (headset_cal_enabled l) c"
  shows "\<exists>l'. vol_prc_lib_release F A cal_ok (Some h) l = Some (0, l') \<and> vol_effect_list l' = others \<and>
    current_gain_dep_cal_level l' = - 1 \<and> current_vol l' = 0"
proof -
  from assms(2) have "filter (\<lambda>(a, c). a \<noteq> h) others = others" by (intro filter_True) force
  with assms(1,3) show ?thesis by (simp add: vol_prc_lib_release_def remove_context_def recompute_if_def Let_def)
qed

end
