(* ===== verification/Seccomp.thy ===== *)
theory Seccomp
  imports FP6_Prelude
begin

text \<open>
  What the three seccomp loaders share (\<^verbatim>\<open>media/seccomp/c2hwjail_check.cpp\<close>,
  \<^verbatim>\<open>camera/seccomp/camxjail.c\<close> and \<^verbatim>\<open>bluetooth/service.cpp\<close>): the process they confine, the options they
  give the policy compiler, and the contract they keep.

  libminijail's \<^verbatim>\<open>compile_filter\<close> and the kernel are not part of the sources. The compiler is a
  function of the path and the options that gives a result and a program; the results of
  \<^verbatim>\<open>fopen\<close>, \<^verbatim>\<open>prctl\<close> and \<^verbatim>\<open>seccomp\<close> are given by the environment. Filters and no_new_privs belong to a thread, as in
  the kernel: \<^verbatim>\<open>prctl\<close> changes the calling thread, and \<^verbatim>\<open>seccomp\<close> too unless the flags have
  \<^verbatim>\<open>SECCOMP_FILTER_FLAG_TSYNC\<close>, which brings every thread of the process in line with it. \<open>allocated\<close> is a ghost count of the compiled programs not freed.
\<close>

section \<open>Programs and processes\<close>

record sock_filter =
  code :: u16
  jt :: u8
  jf :: u8
  k :: u32

datatype block_action = ACTION_RET_LOG | ACTION_RET_TRAP

record filter_options =
  action :: block_action
  allow_logging :: bool
  allow_syscalls_for_logging :: bool
  allow_duplicate_syscalls :: bool
  include_libc_compatibility_allowlist :: bool

record seccomp_env =
  fopen_ok :: bool
  compile_filter :: "string \<Rightarrow> filter_options \<Rightarrow> int \<times> sock_filter list"
  prctl_result :: int
  seccomp_result :: int

record thread =
  no_new_privs :: bool
  filters :: "sock_filter list list" \<comment> \<open>the newest first\<close>

record process =
  caller :: thread \<comment> \<open>the thread that runs the code\<close>
  others :: "thread list"
  filter_flags :: "u32 list" \<comment> \<open>the flags of each installation, the newest first\<close>
  allocated :: nat
  sigpipe_ignored :: bool

definition threads :: "process \<Rightarrow> thread list" where
  "threads p = caller p # others p"

datatype outcome = Continues bool | Aborts

text \<open>\<^verbatim>\<open>prctl\<close> and \<^verbatim>\<open>seccomp\<close>, with what they change.\<close>

definition SECCOMP_FILTER_FLAG_TSYNC :: u32 where "SECCOMP_FILTER_FLAG_TSYNC = 1"

definition set_no_new_privs :: "seccomp_env \<Rightarrow> process \<Rightarrow> int \<times> process" where
  "set_no_new_privs E p =
     (prctl_result E, if prctl_result E = 0 then p\<lparr>caller := (caller p)\<lparr>no_new_privs := True\<rparr>\<rparr> else p)"

definition sync_thread :: "thread \<Rightarrow> thread \<Rightarrow> thread" where
  "sync_thread c t = \<lparr>no_new_privs = (no_new_privs t \<or> no_new_privs c), filters = filters c\<rparr>"

definition sys_seccomp :: "seccomp_env \<Rightarrow> u32 \<Rightarrow> sock_filter list \<Rightarrow> process \<Rightarrow> int \<times> process" where
  "sys_seccomp E flags prog p =
     (seccomp_result E,
      if seccomp_result E = 0
      then let c = (caller p)\<lparr>filters := prog # filters (caller p)\<rparr>
        in p\<lparr>caller := c,
             others := (if flags AND SECCOMP_FILTER_FLAG_TSYNC \<noteq> 0 then map (sync_thread c) (others p) else others p),
             filter_flags := flags # filter_flags p\<rparr>
      else p)"

section \<open>The contract\<close>

text \<open>The program of a policy file, if the file can be opened and the compiler reports success.\<close>

definition compiled_policy :: "seccomp_env \<Rightarrow> string \<Rightarrow> filter_options \<Rightarrow> sock_filter list option" where
  "compiled_policy E path options =
     (case compile_filter E path options of
        (result, prog) \<Rightarrow> if fopen_ok E \<and> result = 0 then Some prog else None)"

text \<open>
  The process \<open>p'\<close> is the process \<open>p\<close> with one more filter, installed with these flags: every thread has the caller's filters,
  the new one first, and cannot gain privileges.
\<close>

definition filter_added :: "u32 \<Rightarrow> sock_filter list \<Rightarrow> process \<Rightarrow> process \<Rightarrow> bool" where
  "filter_added flags prog p p' \<longleftrightarrow>
     length (threads p') = length (threads p) \<and>
     list_all (\<lambda>t. no_new_privs t \<and> filters t = prog # filters (caller p)) (threads p') \<and>
     filter_flags p' = flags # filter_flags p"

text \<open>
  A loader gets as far as to say that the filter is in place if and only if the policy compiles to a program
  and the two system calls succeed. Then every thread of the process has that program on top, cannot gain privileges, and the
  program's memory was given back. Otherwise no thread's filters change.
\<close>

locale seccomp_loader =
  fixes install :: "seccomp_env \<Rightarrow> process \<Rightarrow> outcome \<times> process"
    and policy :: "seccomp_env \<Rightarrow> sock_filter list option"
    and flags :: u32
  assumes install_iff: "fst (install E p) = Continues True \<longleftrightarrow>
      policy E \<noteq> None \<and> prctl_result E = 0 \<and> seccomp_result E = 0"
    and install_true: "install E p = (Continues True, p') \<Longrightarrow> policy E = Some prog \<Longrightarrow>
      filter_added flags prog p p' \<and> allocated p' = allocated p"
    and install_other: "install E p = (r, p') \<Longrightarrow> r \<noteq> Continues True \<Longrightarrow>
      map filters (threads p') = map filters (threads p) \<and> (r = Aborts \<or> allocated p' = allocated p)"
begin

text \<open>Every thread runs under the policy of the environment \<open>E\<close>.\<close>

definition confined :: "seccomp_env \<Rightarrow> process \<Rightarrow> bool" where
  "confined E p \<longleftrightarrow>
     (case policy E of
        None \<Rightarrow> False
      | Some prog \<Rightarrow> list_all (\<lambda>t. no_new_privs t \<and> prog \<in> set (filters t)) (threads p))"

lemma install_policy:
  assumes "install E p = (Continues True, p')"
  obtains prog where "policy E = Some prog" "filter_added flags prog p p'" "allocated p' = allocated p"
  using install_iff [of E p] install_true [OF assms] assms by (cases "policy E") auto

lemma install_confined:
  assumes "install E p = (Continues True, p')"
  shows "confined E p'"
  by (rule install_policy [OF assms]) (auto simp: confined_def filter_added_def list_all_iff)

text \<open>A loader that never says it failed: it aborts, or what runs after it is confined.\<close>

lemma past_loader:
  assumes "\<And>E p. fst (install E p) \<noteq> Continues False"
  shows "case install E p of
      (Aborts, p') \<Rightarrow> (policy E = None \<or> prctl_result E \<noteq> 0 \<or> seccomp_result E \<noteq> 0) \<and>
        map filters (threads p') = map filters (threads p)
    | (Continues ok, p') \<Rightarrow> ok \<and> allocated p' = allocated p \<and> (\<exists>prog. policy E = Some prog \<and> filter_added flags prog p p')"
proof -
  obtain r p' where i: "install E p = (r, p')" by fastforce
  show ?thesis
  proof (cases r)
    case (Continues ok)
    with i assms [of E p] have "ok" by (cases ok) auto
    with i Continues show ?thesis using install_policy [of E p p'] by auto
  next
    case Aborts
    with i install_iff [of E p] install_other [OF i] show ?thesis by auto
  qed
qed

end

text \<open>A program that returns one constant, and an environment in which everything succeeds.\<close>

definition sample_program :: "sock_filter list" where
  "sample_program = [\<lparr>code = 6, jt = 0, jf = 0, k = 0x00030000\<rparr>]"

definition sample_seccomp_env :: seccomp_env where
  "sample_seccomp_env = \<lparr>fopen_ok = True, compile_filter = (\<lambda>path options. (0, sample_program)), prctl_result = 0, seccomp_result = 0\<rparr>"

definition new_process :: process where
  "new_process = \<lparr>caller = \<lparr>no_new_privs = False, filters = []\<rparr>, others = [\<lparr>no_new_privs = False, filters = []\<rparr>],
     filter_flags = [], allocated = 0, sigpipe_ignored = False\<rparr>"

end
