(* ===== verification/Codec_Jail.thy ===== *)
theory Codec_Jail
  imports Seccomp
begin

text \<open>
  The filter and codec gate of the video codec service, \<^verbatim>\<open>media/seccomp\<close>: the configuration check and the
  filter installation (\<^verbatim>\<open>c2hwjail_check.cpp\<close>), the filtering store (\<^verbatim>\<open>c2hwjail_store.cpp\<close>) and the functions the
  service calls through them (\<^verbatim>\<open>c2hwjail.cpp\<close>).

  The JSON reader, the Qualcomm store and libraries and the constants of the
  Android user ids are parameters. The text of a reason is a value of the type \<open>reason\<close>, one constructor
  per message. The service is a sequence of calls, in any order, on the process and the library's globals.
\<close>

section \<open>The configuration check\<close>

datatype json =
    JNull
  | JBool bool
  | JNumber int
  | JString string
  | JArray "json list"
  | JObject "(string \<times> json) list"

record stat_t =
  st_mode :: u32
  st_uid :: u32
  st_gid :: u32

record Platform =
  getProperty :: "string \<Rightarrow> string"
  readFile :: "string \<Rightarrow> string option"
  statPath :: "string \<Rightarrow> int + stat_t" \<comment> \<open>the errno, or the status\<close>
  parse :: "string \<Rightarrow> json option"
  AID_ROOT :: u32
  AID_MEDIA_CODEC :: u32

datatype reason =
    BadMode string
  | BadVariant string string
  | CannotRead string
  | TooLarge string
  | CannotParse string
  | NoVideo string
  | NoCodecs string
  | NotAList string
  | NotAName string
  | WrongCodecs string nat nat
  | CannotStat int
  | WrongNode u32 u32 u32 u32 u32
  | EncodersAndDecoders
  | EncodersOnly
  | NoFilter
  | NoStore

definition kModeProperty :: string where "kModeProperty = ''ro.vendor.diamaneos.hw_video_decode''"
definition kVariantProperty :: string where "kVariantProperty = ''vendor.media.target_variant''"
definition kEncodersOnlyVariant :: string where "kEncodersOnlyVariant = ''_volcano_v1''"
definition kDecodersVariant :: string where "kDecodersVariant = ''_volcano_v1_hwdec''"
definition kDecoderNode :: string where "kDecoderNode = ''/dev/video32''"
definition kMaxSpecBytes :: int where "kMaxSpecBytes = 1048576"

definition kEncoders :: "string list" where
  "kEncoders =
     [''c2.qti.avc.encoder'', ''c2.qti.hevc.encoder'', ''c2.qti.hevc.encoder.cq'',
      ''c2.qti.hevc.encoder.hdr'', ''c2.qti.heic.encoder'']"

definition kDecoders :: "string list" where
  "kDecoders = [''c2.qti.avc.decoder'', ''c2.qti.hevc.decoder'', ''c2.qti.vp9.decoder'']"

text \<open>Indexing a JSON object; a missing member is null. The code indexes objects only.\<close>

fun member :: "json \<Rightarrow> string \<Rightarrow> json" where
  "member (JObject ms) key = (case map_of ms key of None \<Rightarrow> JNull | Some v \<Rightarrow> v)"
| "member _ key = JNull"

fun isObject :: "json \<Rightarrow> bool" where
  "isObject (JObject ms) = True"
| "isObject _ = False"

fun add_names :: "string \<Rightarrow> json list \<Rightarrow> string set \<Rightarrow> reason + string set" where
  "add_names what [] names = Inr names"
| "add_names what (JString s # xs) names = add_names what xs (insert s names)"
| "add_names what (_ # xs) names = Inl (NotAName what)"

fun AddCodecNames :: "json \<Rightarrow> string \<Rightarrow> string set \<Rightarrow> reason + string set" where
  "AddCodecNames JNull what names = Inr names"
| "AddCodecNames (JArray xs) what names = add_names what xs names"
| "AddCodecNames _ what names = Inl (NotAList what)"

text \<open>The three lists, in the order of the code; the first bad one gives the reason.\<close>

definition listed_codecs :: "json \<Rightarrow> json \<Rightarrow> reason + string set" where
  "listed_codecs video available =
     (case AddCodecNames (member available ''decoders'') ''codecs-available.decoders'' {} of
        Inl r \<Rightarrow> Inl r
      | Inr names \<Rightarrow>
          (case AddCodecNames (member available ''encoders'') ''codecs-available.encoders'' names of
             Inl r \<Rightarrow> Inl r
           | Inr names \<Rightarrow> AddCodecNames (member video ''OptionalCodecs'') ''OptionalCodecs'' names))"

definition spec_path :: "string \<Rightarrow> string" where
  "spec_path variant = ''/vendor/etc/media'' @ variant @ ''/video_system_specs.json''"

definition read_spec :: "Platform \<Rightarrow> string \<Rightarrow> reason + string set" where
  "read_spec P path =
     (case readFile P path of
        None \<Rightarrow> Inl (CannotRead path)
      | Some content \<Rightarrow>
          if int (length content) > kMaxSpecBytes then Inl (TooLarge path)
          else (case parse P content of
            None \<Rightarrow> Inl (CannotParse path)
          | Some root \<Rightarrow>
              if \<not> isObject root then Inl (CannotParse path)
              else let video = member root ''Video'' in
                if \<not> isObject video then Inl (NoVideo path)
                else let available = member video ''codecs-available'' in
                  if \<not> isObject available then Inl (NoCodecs path)
                  else listed_codecs video available))"

definition ENOENT :: int where "ENOENT = 2"

definition S_ISCHR :: "u32 \<Rightarrow> bool" where
  "S_ISCHR m \<longleftrightarrow> m AND 0xF000 = 0x2000"

definition check_node :: "Platform \<Rightarrow> bool \<Rightarrow> reason option" where
  "check_node P decoders =
     (case statPath P kDecoderNode of
        Inl error \<Rightarrow> if error \<noteq> ENOENT then Some (CannotStat error) else None
      | Inr nd \<Rightarrow>
          let group = (if decoders then AID_MEDIA_CODEC P else AID_ROOT P);
              acc = (if decoders then 0x1B0 else 0x180)
          in if \<not> S_ISCHR (st_mode nd) \<or> st_uid nd \<noteq> AID_ROOT P \<or> st_gid nd \<noteq> group \<or> st_mode nd AND 0xFFF \<noteq> acc
             then Some (WrongNode (st_uid nd) (st_gid nd) (st_mode nd AND 0xFFF) group acc) else None)"

definition boot_codecs :: "bool \<Rightarrow> string set" where
  "boot_codecs decoders = set kEncoders \<union> (if decoders then set kDecoders else {})"

definition AllowedCodecs :: "Platform \<Rightarrow> string set \<times> reason" where
  "AllowedCodecs P =
     (let mode = getProperty P kModeProperty in
      if mode \<noteq> '''' \<and> mode \<noteq> ''0'' \<and> mode \<noteq> ''1'' then ({}, BadMode mode)
      else let decoders = (mode = ''1'');
               expected = (if decoders then kDecodersVariant else kEncodersOnlyVariant);
               variant = getProperty P kVariantProperty
        in if variant \<noteq> expected then ({}, BadVariant variant expected)
           else let path = spec_path variant in
             (case read_spec P path of
                Inl r \<Rightarrow> ({}, r)
              | Inr listed \<Rightarrow>
                  let allowed = boot_codecs decoders in
                  if listed \<noteq> allowed then ({}, WrongCodecs path (card listed) (card allowed))
                  else (case check_node P decoders of
                    Some r \<Rightarrow> ({}, r)
                  | None \<Rightarrow> (allowed, if decoders then EncodersAndDecoders else EncodersOnly))))"

definition KeepAllowedCodecs :: "string set \<Rightarrow> string set \<Rightarrow> string set" where
  "KeepAllowedCodecs codecs allowed =
     (let kept = codecs \<inter> allowed in if kept = {} then {''c2hwjail.none''} else kept)"

section \<open>The filter\<close>

definition BPF_RET_K :: u16 where "BPF_RET_K = 6"
definition SECCOMP_RET_ACTION_FULL :: u32 where "SECCOMP_RET_ACTION_FULL = 0xffff0000"
definition SECCOMP_RET_TRAP :: u32 where "SECCOMP_RET_TRAP = 0x00030000"
definition SECCOMP_RET_ERRNO :: u32 where "SECCOMP_RET_ERRNO = 0x00050000"
definition SECCOMP_RET_DATA :: u32 where "SECCOMP_RET_DATA = 0xffff"
definition EPERM :: u32 where "EPERM = 1"

definition is_trap :: "sock_filter \<Rightarrow> bool" where
  "is_trap insn \<longleftrightarrow> code insn = BPF_RET_K \<and> k insn AND SECCOMP_RET_ACTION_FULL = SECCOMP_RET_TRAP"

fun TrapsToErrno :: "sock_filter list \<Rightarrow> nat \<times> sock_filter list" where
  "TrapsToErrno [] = (0, [])"
| "TrapsToErrno (insn # xs) =
     (case TrapsToErrno xs of (changed, ys) \<Rightarrow>
        if is_trap insn then (Suc changed, insn\<lparr>k := SECCOMP_RET_ERRNO OR (EPERM AND SECCOMP_RET_DATA)\<rparr> # ys)
        else (changed, insn # ys))"

datatype install_detail =
    CannotOpen string
  | CannotCompile string
  | NoTrapResult
  | CannotSetNoNewPrivs
  | ThreadNotSynchronised
  | CannotInstall
  | Instructions nat

definition install_options :: "bool \<Rightarrow> filter_options" where
  "install_options logOnly =
     \<lparr>action = (if logOnly then ACTION_RET_LOG else ACTION_RET_TRAP), allow_logging = logOnly,
      allow_syscalls_for_logging = False, allow_duplicate_syscalls = False,
      include_libc_compatibility_allowlist = False\<rparr>"

definition InstallFilter :: "string \<Rightarrow> bool \<Rightarrow> seccomp_env \<Rightarrow> process \<Rightarrow> bool \<times> install_detail \<times> process" where
  "InstallFilter path logOnly E p =
     (if \<not> fopen_ok E then (False, CannotOpen path, p)
      else case compile_filter E path (install_options logOnly) of (compiled, prog) \<Rightarrow>
        if compiled \<noteq> 0 then (False, CannotCompile path, p)
        else let p = p\<lparr>allocated := allocated p + 1\<rparr>;
                 (changed, prog) = (if logOnly then (0, prog) else TrapsToErrno prog)
          in if \<not> logOnly \<and> changed = 0 then (False, NoTrapResult, p\<lparr>allocated := allocated p - 1\<rparr>)
             else case set_no_new_privs E p of (result, p) \<Rightarrow>
               if result \<noteq> 0 then (False, CannotSetNoNewPrivs, p\<lparr>allocated := allocated p - 1\<rparr>)
               else case sys_seccomp E SECCOMP_FILTER_FLAG_TSYNC prog p of (result, p) \<Rightarrow>
                 if result \<noteq> 0
                 then (False, if result > 0 then ThreadNotSynchronised else CannotInstall, p\<lparr>allocated := allocated p - 1\<rparr>)
                 else (True, Instructions (length prog), p\<lparr>allocated := allocated p - 1\<rparr>))"

section \<open>The filtering store\<close>

datatype c2_status = C2_OK | C2_NOT_FOUND | C2_OMITTED | C2_OTHER int

record Traits =
  name :: string
  aliases :: "string list"

text \<open>
  A store, as far as the gate calls it: a component, an interface, and the answers of the other calls
  for their arguments, here numbers that stand for buffers and parameters.
\<close>

record ('c, 'i) C2ComponentStore =
  getName :: string
  listComponents :: "Traits option list" \<comment> \<open>the pointers may be null\<close>
  createComponent :: "string \<Rightarrow> c2_status \<times> 'c option"
  createInterface :: "string \<Rightarrow> c2_status \<times> 'i option"
  copyBuffer :: "nat \<Rightarrow> nat \<Rightarrow> c2_status"
  query_sm :: "nat list \<Rightarrow> nat list \<Rightarrow> c2_status \<times> nat list"
  config_sm :: "nat list \<Rightarrow> c2_status \<times> nat list"
  getParamReflector :: "nat option"
  querySupportedParams_nb :: "c2_status \<times> nat list"
  querySupportedValues_sm :: "nat list \<Rightarrow> c2_status \<times> nat list"

record ('c, 'i) FilteringStore =
  mStore :: "('c, 'i) C2ComponentStore option"
  mAllowed :: "string set"
  mNames :: "string set"
  mListed :: "Traits list"

definition allowed_traits :: "string set \<Rightarrow> Traits option list \<Rightarrow> Traits list" where
  "allowed_traits allowed ts = filter (\<lambda>t. name t \<in> allowed) (List.map_filter id ts)"

definition FilterStore :: "('c, 'i) C2ComponentStore option \<Rightarrow> string set \<Rightarrow> ('c, 'i) FilteringStore" where
  "FilterStore store allowed =
     (case store of
        None \<Rightarrow> \<lparr>mStore = None, mAllowed = {}, mNames = {}, mListed = []\<rparr>
      | Some st \<Rightarrow>
          if allowed = {} then \<lparr>mStore = Some st, mAllowed = {}, mNames = {}, mListed = []\<rparr>
          else let ts = allowed_traits allowed (listComponents st)
            in \<lparr>mStore = Some st, mAllowed = allowed,
                mNames = (\<Union>t\<in>set ts. insert (name t) (set (aliases t))), mListed = ts\<rparr>)"

definition fs_getName :: "('c, 'i) FilteringStore \<Rightarrow> string" where
  "fs_getName f = (case mStore f of None \<Rightarrow> '''' | Some st \<Rightarrow> getName st)"

text \<open>Calling through a null store is undefined: \<open>None\<close>.\<close>

definition fs_createComponent :: "('c, 'i) FilteringStore \<Rightarrow> string \<Rightarrow> (c2_status \<times> 'c option) option" where
  "fs_createComponent f n =
     (if n \<notin> mNames f then Some (C2_NOT_FOUND, None)
      else case mStore f of None \<Rightarrow> None | Some st \<Rightarrow> Some (createComponent st n))"

definition fs_createInterface :: "('c, 'i) FilteringStore \<Rightarrow> string \<Rightarrow> (c2_status \<times> 'i option) option" where
  "fs_createInterface f n =
     (if n \<notin> mNames f then Some (C2_NOT_FOUND, None)
      else case mStore f of None \<Rightarrow> None | Some st \<Rightarrow> Some (createInterface st n))"

definition fs_listComponents :: "('c, 'i) FilteringStore \<Rightarrow> Traits list" where
  "fs_listComponents f = mListed f"

definition fs_copyBuffer :: "('c, 'i) FilteringStore \<Rightarrow> nat \<Rightarrow> nat \<Rightarrow> c2_status" where
  "fs_copyBuffer f src dst = (case mStore f of None \<Rightarrow> C2_OMITTED | Some st \<Rightarrow> copyBuffer st src dst)"

definition fs_query_sm :: "('c, 'i) FilteringStore \<Rightarrow> nat list \<Rightarrow> nat list \<Rightarrow> c2_status \<times> nat list" where
  "fs_query_sm f stack heap = (case mStore f of None \<Rightarrow> (C2_OMITTED, []) | Some st \<Rightarrow> query_sm st stack heap)"

definition fs_config_sm :: "('c, 'i) FilteringStore \<Rightarrow> nat list \<Rightarrow> c2_status \<times> nat list" where
  "fs_config_sm f params = (case mStore f of None \<Rightarrow> (C2_OMITTED, []) | Some st \<Rightarrow> config_sm st params)"

definition fs_getParamReflector :: "('c, 'i) FilteringStore \<Rightarrow> nat option" where
  "fs_getParamReflector f = (case mStore f of None \<Rightarrow> None | Some st \<Rightarrow> getParamReflector st)"

definition fs_querySupportedParams_nb :: "('c, 'i) FilteringStore \<Rightarrow> c2_status \<times> nat list" where
  "fs_querySupportedParams_nb f = (case mStore f of None \<Rightarrow> (C2_OK, []) | Some st \<Rightarrow> querySupportedParams_nb st)"

definition fs_querySupportedValues_sm :: "('c, 'i) FilteringStore \<Rightarrow> nat list \<Rightarrow> c2_status \<times> nat list" where
  "fs_querySupportedValues_sm f fs =
     (case mStore f of None \<Rightarrow> (C2_OK, fs) | Some st \<Rightarrow> querySupportedValues_sm st fs)"

section \<open>The service\<close>

definition kPolicy :: string where "kPolicy = ''/vendor/etc/seccomp_policy/codec2-service.policy''"

text \<open>
  The process and the library's globals. \<open>filter_env\<close> is the environment in which the filter was tried, a ghost; \<open>stacked\<close>, \<open>plugin\<close> and \<open>stores\<close> are ghost lists of the stock policies stacked, of the
  sets given to the codec plugin and of the stores given to the real constructor, with what the platform
  was then; \<open>alive\<close> is false after an abort.
\<close>

record ('c, 'i) codec_service =
  proc :: process
  gFilterOnce :: bool
  gFilterInstalled :: bool
  filter_env :: "seccomp_env option"
  stacked :: "(string \<times> string) list"
  plugin :: "string set list"
  stores :: "(Platform \<times> ('c, 'i) FilteringStore) list"
  alive :: bool

definition EnsureFilter :: "bool \<Rightarrow> seccomp_env \<Rightarrow> ('c, 'i) codec_service \<Rightarrow> ('c, 'i) codec_service" where
  "EnsureFilter kLogOnly E s =
     (if gFilterOnce s then s
      else case InstallFilter kPolicy kLogOnly E (proc s) of
        (ok, detail, p) \<Rightarrow> s\<lparr>gFilterOnce := True, gFilterInstalled := ok, filter_env := Some E, proc := p\<rparr>)"

text \<open>A library the service has loaded and a symbol in it: \<open>None\<close> if either is missing.\<close>

definition RealSymbol :: "'a option option \<Rightarrow> 'a option" where
  "RealSymbol library = (case library of None \<Rightarrow> None | Some address \<Rightarrow> address)"

definition SetUpMinijail ::
    "bool \<Rightarrow> seccomp_env \<Rightarrow> string \<Rightarrow> string \<Rightarrow> bool \<Rightarrow> unit option option \<Rightarrow> ('c, 'i) codec_service \<Rightarrow> ('c, 'i) codec_service" where
  "SetUpMinijail kLogOnly E base_policy additional readable library s =
     (let s = EnsureFilter kLogOnly E s in
      if \<not> readable then s
      else case RealSymbol library of
        None \<Rightarrow> s
      | Some real \<Rightarrow> s\<lparr>stacked := stacked s @ [(base_policy, additional)]\<rparr>)"

definition getSupportedCodecs ::
    "Platform \<Rightarrow> (unit \<Rightarrow> string set) option option \<Rightarrow> ('c, 'i) codec_service \<Rightarrow> string set \<times> ('c, 'i) codec_service" where
  "getSupportedCodecs P library s =
     (let codecs = (case RealSymbol library of None \<Rightarrow> {} | Some real \<Rightarrow> real ());
          kept = KeepAllowedCodecs codecs (fst (AllowedCodecs P))
      in (kept, s\<lparr>plugin := plugin s @ [kept]\<rparr>))"

definition c2hwjailStoreCtor ::
    "bool \<Rightarrow> seccomp_env \<Rightarrow> Platform \<Rightarrow> ('c, 'i) C2ComponentStore option \<Rightarrow> unit option option \<Rightarrow>
     ('c, 'i) codec_service \<Rightarrow> ('c, 'i) codec_service" where
  "c2hwjailStoreCtor kLogOnly E P store library s =
     (let s = EnsureFilter kLogOnly E s;
          (allowed, reason) =
            (if \<not> gFilterInstalled s then ({}, NoFilter)
             else if Option.is_none store then ({}, NoStore)
             else AllowedCodecs P);
          filtered = FilterStore store allowed
      in case RealSymbol library of
           None \<Rightarrow> s\<lparr>alive := False\<rparr>
         | Some real \<Rightarrow> s\<lparr>stores := stores s @ [(P, filtered)]\<rparr>)"

section \<open>Traps become errors\<close>

lemma TrapsToErrno_map:
  "TrapsToErrno prog =
     (length (filter is_trap prog),
      map (\<lambda>insn. if is_trap insn then insn\<lparr>k := SECCOMP_RET_ERRNO OR (EPERM AND SECCOMP_RET_DATA)\<rparr> else insn) prog)"
  by (induction prog) simp_all

lemmas seccomp_codes = BPF_RET_K_def SECCOMP_RET_ACTION_FULL_def SECCOMP_RET_TRAP_def SECCOMP_RET_ERRNO_def
  SECCOMP_RET_DATA_def EPERM_def

lemma errno_no_trap: "\<not> is_trap (insn\<lparr>k := SECCOMP_RET_ERRNO OR (EPERM AND SECCOMP_RET_DATA)\<rparr>)"
  by (simp add: is_trap_def seccomp_codes)

lemma TrapsToErrno_no_trap: "insn \<in> set (snd (TrapsToErrno prog)) \<Longrightarrow> \<not> is_trap insn"
  using errno_no_trap by (auto simp: TrapsToErrno_map split: if_splits)

text \<open>
  How the kernel runs a program: it picks an instruction that returns a constant, by everything in the
  program but those constants, and gives its constant.
\<close>

definition hide_results :: "sock_filter list \<Rightarrow> sock_filter list" where
  "hide_results prog = map (\<lambda>insn. if code insn = BPF_RET_K then insn\<lparr>k := 0\<rparr> else insn) prog"

definition bpf_result :: "(sock_filter list \<Rightarrow> 'call \<Rightarrow> nat) \<Rightarrow> (sock_filter list \<Rightarrow> 'call \<Rightarrow> u32) \<Rightarrow> sock_filter list \<Rightarrow> 'call \<Rightarrow> bool" where
  "bpf_result pick result prog call \<longleftrightarrow>
     (let i = pick (hide_results prog) call
      in i < length prog \<and> code (prog ! i) = BPF_RET_K \<and> result prog call = k (prog ! i))"

lemma hide_TrapsToErrno: "hide_results (snd (TrapsToErrno prog)) = hide_results prog"
  by (simp add: hide_results_def TrapsToErrno_map is_trap_def o_def)

section \<open>The loader's contract\<close>

text \<open>
  The program of the policy: what the file compiles to or, unless the build only logs, that with its traps, of which there must be one, as
  errors.
\<close>

definition codec_policy :: "string \<Rightarrow> bool \<Rightarrow> seccomp_env \<Rightarrow> sock_filter list option" where
  "codec_policy path logOnly E =
     (case compiled_policy E path (install_options logOnly) of
        None \<Rightarrow> None
      | Some prog \<Rightarrow>
          if logOnly then Some prog
          else if list_ex is_trap prog then Some (snd (TrapsToErrno prog)) else None)"

definition codec_install :: "string \<Rightarrow> bool \<Rightarrow> seccomp_env \<Rightarrow> process \<Rightarrow> outcome \<times> process" where
  "codec_install path logOnly E p = (case InstallFilter path logOnly E p of (ok, detail, p') \<Rightarrow> (Continues ok, p'))"

lemma no_trap_changed: "length (filter is_trap prog) = 0 \<longleftrightarrow> \<not> list_ex is_trap prog"
  by (induction prog) simp_all

lemmas install_defs = codec_install_def InstallFilter_def codec_policy_def compiled_policy_def set_no_new_privs_def
  sys_seccomp_def filter_added_def threads_def sync_thread_def SECCOMP_FILTER_FLAG_TSYNC_def TrapsToErrno_map Let_def

interpretation codec_loader: seccomp_loader "codec_install path logOnly" "codec_policy path logOnly" SECCOMP_FILTER_FLAG_TSYNC
  for path logOnly
proof
  fix E p
  show "fst (codec_install path logOnly E p) = Continues True \<longleftrightarrow>
      codec_policy path logOnly E \<noteq> None \<and> prctl_result E = 0 \<and> seccomp_result E = 0"
    using no_trap_changed by (auto simp: install_defs split: prod.splits)
next
  fix E p p' prog
  assume "codec_install path logOnly E p = (Continues True, p')" "codec_policy path logOnly E = Some prog"
  then show "filter_added SECCOMP_FILTER_FLAG_TSYNC prog p p' \<and> allocated p' = allocated p"
    by (auto simp: install_defs list_all_iff split: prod.splits if_splits)
next
  fix E p r p'
  assume "codec_install path logOnly E p = (r, p')" "r \<noteq> Continues True"
  then show "map filters (threads p') = map filters (threads p) \<and> (r = Aborts \<or> allocated p' = allocated p)"
    by (auto simp: install_defs split: prod.splits if_splits)
qed

section \<open>The gate\<close>

lemma FilterStore_names:
  "mNames (FilterStore store allowed) \<noteq> {} \<Longrightarrow> \<exists>st. store = Some st \<and> mStore (FilterStore store allowed) = Some st"
  by (auto simp: FilterStore_def Let_def split: option.splits if_splits)

text \<open>A name that passes belongs to a component that the store lists and whose name is allowed.\<close>

lemma FilterStore_passes:
  assumes "n \<in> mNames (FilterStore (Some st) allowed)"
  shows "\<exists>t. Some t \<in> set (listComponents st) \<and> name t \<in> allowed \<and> (n = name t \<or> n \<in> set (aliases t)) \<and>
    t \<in> set (mListed (FilterStore (Some st) allowed))"
proof -
  from assms obtain t where t: "t \<in> set (allowed_traits allowed (listComponents st))" "n = name t \<or> n \<in> set (aliases t)"
    by (auto simp: FilterStore_def Let_def split: if_splits)
  have "Some t \<in> set xs" if "t \<in> set (List.map_filter id xs)" for xs
    using that by (auto simp: map_filter_def)
  with t assms show ?thesis by (auto simp: FilterStore_def Let_def allowed_traits_def split: if_splits)
qed

section \<open>The calls of the service\<close>

datatype ('c, 'i) codec_call =
    CallSetUpMinijail seccomp_env string string bool "unit option option"
  | CallSupportedCodecs Platform "(unit \<Rightarrow> string set) option option"
  | CallStoreCtor seccomp_env Platform "('c, 'i) C2ComponentStore option" "unit option option"

fun codec_step :: "bool \<Rightarrow> ('c, 'i) codec_service \<Rightarrow> ('c, 'i) codec_call \<Rightarrow> ('c, 'i) codec_service" where
  "codec_step logOnly s (CallSetUpMinijail E base extra readable library) =
     (if alive s then SetUpMinijail logOnly E base extra readable library s else s)"
| "codec_step logOnly s (CallSupportedCodecs P library) =
     (if alive s then snd (getSupportedCodecs P library s) else s)"
| "codec_step logOnly s (CallStoreCtor E P store library) =
     (if alive s then c2hwjailStoreCtor logOnly E P store library s else s)"

definition new_service :: "process \<Rightarrow> ('c, 'i) codec_service" where
  "new_service p = \<lparr>proc = p, gFilterOnce = False, gFilterInstalled = False, filter_env = None, stacked = [], plugin = [], stores = [], alive = True\<rparr>"

text \<open>
  Every thread runs under the program that the policy file compiled to in the environment \<open>E\<close>, with its traps as errors unless
  the build only logs, and cannot gain privileges.
\<close>

definition jailed :: "bool \<Rightarrow> seccomp_env \<Rightarrow> process \<Rightarrow> bool" where
  "jailed logOnly E p \<longleftrightarrow>
     fopen_ok E \<and>
     (case compile_filter E kPolicy (install_options logOnly) of
        (result, prog) \<Rightarrow>
          let prog' = (if logOnly then prog else snd (TrapsToErrno prog))
          in result = 0 \<and> (logOnly \<or> list_ex is_trap prog \<and> \<not> list_ex is_trap prog') \<and>
             list_all (\<lambda>t. no_new_privs t \<and> prog' \<in> set (filters t)) (threads p))"

text \<open>The environment of the first call that makes sure of the filter.\<close>

fun first_env :: "('c, 'i) codec_call list \<Rightarrow> seccomp_env option" where
  "first_env [] = None"
| "first_env (CallSetUpMinijail E base extra readable library # calls) = Some E"
| "first_env (CallSupportedCodecs P library # calls) = first_env calls"
| "first_env (CallStoreCtor E P store library # calls) = Some E"

definition gate_ok :: "bool \<Rightarrow> Platform \<times> ('c, 'i) FilteringStore \<Rightarrow> bool" where
  "gate_ok installed x \<longleftrightarrow>
     (\<exists>store allowed. snd x = FilterStore store allowed \<and>
        (allowed = {} \<or> installed \<and> allowed = fst (AllowedCodecs (fst x))))"

definition service_ok :: "bool \<Rightarrow> ('c, 'i) codec_service \<Rightarrow> bool" where
  "service_ok logOnly s \<longleftrightarrow>
     (gFilterInstalled s \<longrightarrow> gFilterOnce s \<and> (\<exists>E. filter_env s = Some E \<and> jailed logOnly E (proc s))) \<and>
     list_all (gate_ok (gFilterInstalled s)) (stores s)"

lemma gate_ok_mono: "gate_ok False x \<Longrightarrow> gate_ok b x"
  by (auto simp: gate_ok_def)

lemma InstallFilter_jailed:
  assumes "InstallFilter kPolicy logOnly E p = (True, d, p')" shows "jailed logOnly E p'"
proof -
  from assms have "codec_install kPolicy logOnly E p = (Continues True, p')" by (simp add: codec_install_def)
  from codec_loader.install_confined [OF this] show ?thesis
    using TrapsToErrno_no_trap
    by (auto simp: codec_loader.confined_def codec_policy_def compiled_policy_def jailed_def Let_def list_ex_iff
        split: option.splits if_splits prod.splits)
qed

text \<open>The filter is tried once, in the environment of the first call that comes to it.\<close>

lemma first_env_run:
  "alive s \<or> gFilterOnce s \<Longrightarrow>
   filter_env (run (codec_step logOnly) s calls) = (if gFilterOnce s then filter_env s else first_env calls) \<or>
   \<not> gFilterOnce s \<and> filter_env s \<noteq> None"
proof (induction calls arbitrary: s)
  case (Cons c calls)
  show ?case
  proof (cases c)
    case (CallSetUpMinijail E base extra readable library)
    let ?t = "codec_step logOnly s c"
    have "alive ?t \<or> gFilterOnce ?t" "alive s \<longrightarrow> gFilterOnce ?t"
      "alive s \<longrightarrow> filter_env ?t = (if gFilterOnce s then filter_env s else Some E)" "\<not> alive s \<longrightarrow> ?t = s"
      using CallSetUpMinijail Cons.prems
      by (auto simp: SetUpMinijail_def EnsureFilter_def Let_def split: option.split prod.split)
    with Cons.IH [of ?t] Cons.prems CallSetUpMinijail show ?thesis by (auto simp del: codec_step.simps)
  next
    case (CallSupportedCodecs P library)
    let ?t = "codec_step logOnly s c"
    have "alive ?t = alive s" "gFilterOnce ?t = gFilterOnce s" "filter_env ?t = filter_env s"
      using CallSupportedCodecs by (auto simp: getSupportedCodecs_def Let_def)
    with Cons.IH [of ?t] Cons.prems CallSupportedCodecs show ?thesis by (auto simp del: codec_step.simps)
  next
    case (CallStoreCtor E P store library)
    let ?t = "codec_step logOnly s c"
    have "alive ?t \<or> gFilterOnce ?t" "alive s \<longrightarrow> gFilterOnce ?t"
      "alive s \<longrightarrow> filter_env ?t = (if gFilterOnce s then filter_env s else Some E)" "\<not> alive s \<longrightarrow> ?t = s"
      using CallStoreCtor Cons.prems
      by (auto simp: c2hwjailStoreCtor_def EnsureFilter_def Let_def split: option.split prod.split)
    with Cons.IH [of ?t] Cons.prems CallStoreCtor show ?thesis by (auto simp del: codec_step.simps)
  qed
qed auto

lemma EnsureFilter_ok:
  assumes "service_ok logOnly s" shows "service_ok logOnly (EnsureFilter logOnly E s)" "stores (EnsureFilter logOnly E s) = stores s"
proof -
  show "service_ok logOnly (EnsureFilter logOnly E s)"
  proof (cases "gFilterOnce s")
    case False
    obtain ok d p where i: "InstallFilter kPolicy logOnly E (proc s) = (ok, d, p)" by (metis prod_cases3)
    from False assms have "list_all (gate_ok ok) (stores s)"
      by (cases "gFilterInstalled s") (auto simp: service_ok_def elim!: list.pred_mono_strong intro: gate_ok_mono)
    moreover have "ok \<longrightarrow> jailed logOnly E p" using InstallFilter_jailed [of logOnly E "proc s" d p] i by auto
    ultimately show ?thesis using False i by (simp add: EnsureFilter_def service_ok_def)
  qed (use assms in \<open>simp add: EnsureFilter_def\<close>)
qed (simp add: EnsureFilter_def split: prod.split)

interpretation codec_calls: step_invariant "codec_step logOnly" "service_ok logOnly" for logOnly
proof
  fix s :: "('c, 'i) codec_service" and e
  assume ok: "service_ok logOnly s"
  show "service_ok logOnly (codec_step logOnly s e)"
  proof (cases e)
    case (CallSetUpMinijail E base extra readable library)
    with ok EnsureFilter_ok(1) [OF ok, of E] show ?thesis
      by (auto simp: SetUpMinijail_def service_ok_def Let_def split: option.split)
  next
    case (CallSupportedCodecs P library)
    with ok show ?thesis by (simp add: getSupportedCodecs_def service_ok_def Let_def)
  next
    case (CallStoreCtor E P store library)
    let ?s = "EnsureFilter logOnly E s"
    have "gate_ok (gFilterInstalled ?s) (P, FilterStore store (fst (if \<not> gFilterInstalled ?s then ({}, NoFilter)
        else if Option.is_none store then ({}, NoStore) else AllowedCodecs P)))"
      unfolding gate_ok_def by auto
    with CallStoreCtor ok EnsureFilter_ok [OF ok, of E] show ?thesis
      by (auto simp: c2hwjailStoreCtor_def service_ok_def Let_def case_prod_unfold split: option.split)
  qed
qed

lemma new_service_ok: "service_ok logOnly (new_service p)"
  by (simp add: service_ok_def new_service_def)

text \<open>The user's choice, and the owner and mode of the decoder node that go with it.\<close>

definition hw_decode :: "Platform \<Rightarrow> bool" where
  "hw_decode P \<longleftrightarrow> getProperty P kModeProperty = ''1''"

definition node_protected :: "Platform \<Rightarrow> bool \<Rightarrow> bool" where
  "node_protected P decoders \<longleftrightarrow>
     (case statPath P kDecoderNode of
        Inl e \<Rightarrow> e = ENOENT
      | Inr nd \<Rightarrow> S_ISCHR (st_mode nd) \<and> st_uid nd = AID_ROOT P \<and>
          (if decoders then st_gid nd = AID_MEDIA_CODEC P \<and> st_mode nd AND 0xFFF = 0x1B0
           else st_gid nd = AID_ROOT P \<and> st_mode nd AND 0xFFF = 0x180))"

text \<open>A list of names in the specification, or none.\<close>

definition lists_names :: "json \<Rightarrow> string list \<Rightarrow> bool" where
  "lists_names j names \<longleftrightarrow> j = JNull \<and> names = [] \<or> j = JArray (map JString names)"

definition spec_lists :: "Platform \<Rightarrow> string \<Rightarrow> string set \<Rightarrow> bool" where
  "spec_lists P path names \<longleftrightarrow>
     (\<exists>content root video available decoders encoders optional.
        readFile P path = Some content \<and> int (length content) \<le> kMaxSpecBytes \<and> parse P content = Some root \<and> isObject root \<and>
        video = member root ''Video'' \<and> isObject video \<and>
        available = member video ''codecs-available'' \<and> isObject available \<and>
        lists_names (member available ''decoders'') decoders \<and> lists_names (member available ''encoders'') encoders \<and>
        lists_names (member video ''OptionalCodecs'') optional \<and>
        names = set decoders \<union> set encoders \<union> set optional)"

lemma add_names_iff: "add_names what xs names = Inr out \<longleftrightarrow> (\<exists>ns. xs = map JString ns \<and> out = names \<union> set ns)"
  by (induction what xs names rule: add_names.induct) (auto simp: Cons_eq_map_conv)

lemma AddCodecNames_iff: "AddCodecNames j what names = Inr out \<longleftrightarrow> (\<exists>ns. lists_names j ns \<and> out = names \<union> set ns)"
  by (cases j) (auto simp: lists_names_def add_names_iff)

lemma listed_codecs_iff:
  "listed_codecs video available = Inr out \<longleftrightarrow>
    (\<exists>ds es os. lists_names (member available ''decoders'') ds \<and> lists_names (member available ''encoders'') es \<and>
       lists_names (member video ''OptionalCodecs'') os \<and> out = set ds \<union> set es \<union> set os)"
proof -
  have "listed_codecs video available = Inr out \<longleftrightarrow>
      (\<exists>a b. AddCodecNames (member available ''decoders'') ''codecs-available.decoders'' {} = Inr a \<and>
        AddCodecNames (member available ''encoders'') ''codecs-available.encoders'' a = Inr b \<and>
        AddCodecNames (member video ''OptionalCodecs'') ''OptionalCodecs'' b = Inr out)"
    by (simp add: listed_codecs_def split: sum.split)
  then show ?thesis by (auto simp: AddCodecNames_iff)
qed

lemma read_spec_iff: "read_spec P path = Inr names \<longleftrightarrow> spec_lists P path names"
  by (auto simp: read_spec_def spec_lists_def listed_codecs_iff Let_def split: option.splits)

section \<open>Properties\<close>

text \<open>
  C34. No codec without the filter: whatever calls the service makes, in any order and with any failures, a store it
  built passes on a name only under two conditions. The policy file was opened and compiled at the first call that makes sure of the filter,
  and every thread of the process has no_new_privs and the compiled program, in which, unless the build only logs, each trap of the policy
  is an error. And the name or alias is that of a component which the Qualcomm store lists and the configuration check allowed. Every other
  name is not found, and no call goes through a null store.
\<close>
theorem no_codec_without_filter:
  assumes "s = run (codec_step logOnly) (new_service p) calls" "(P, f) \<in> set (stores s)"
  shows "if n \<in> mNames f
    then (\<exists>E. first_env calls = Some E \<and> jailed logOnly E (proc s)) \<and>
      (\<exists>st t. mStore f = Some st \<and> fs_createComponent f n = Some (createComponent st n) \<and>
        fs_createInterface f n = Some (createInterface st n) \<and> Some t \<in> set (listComponents st) \<and>
        name t \<in> fst (AllowedCodecs P) \<and> (n = name t \<or> n \<in> set (aliases t)))
    else fs_createComponent f n = Some (C2_NOT_FOUND, None) \<and> fs_createInterface f n = Some (C2_NOT_FOUND, None)"
proof (cases "n \<in> mNames f")
  case True
  have "service_ok logOnly s" unfolding assms(1) by (intro codec_calls.run_inv new_service_ok)
  with assms(2) have ok: "gFilterInstalled s \<longrightarrow> (\<exists>E. filter_env s = Some E \<and> jailed logOnly E (proc s))"
    "gate_ok (gFilterInstalled s) (P, f)"
    by (auto simp: service_ok_def list_all_iff)
  have env: "filter_env s = first_env calls"
    using first_env_run [of "new_service p" logOnly calls] by (simp add: assms(1) new_service_def)
  from ok(2) obtain store allowed where f: "f = FilterStore store allowed"
    "allowed = {} \<or> gFilterInstalled s \<and> allowed = fst (AllowedCodecs P)" by (auto simp: gate_ok_def)
  with True FilterStore_names [of store allowed] obtain st where st: "store = Some st" "mStore f = Some st" by auto
  from FilterStore_passes [of n st allowed] True obtain t where t: "Some t \<in> set (listComponents st)" "name t \<in> allowed"
    "n = name t \<or> n \<in> set (aliases t)" unfolding f(1) st(1) by blast
  with f(2) ok(1) st(2) True env show ?thesis by (auto simp: fs_createComponent_def fs_createInterface_def)
qed (simp add: fs_createComponent_def fs_createInterface_def)

text \<open>
  C35. The configuration check fails closed. It allows something if and only if all of this holds: the mode is unset, 0 or 1; the target variant is
  the one of that mode; the specification of the variant can be read, is not too large, and is an object with the objects it needs, whose
  lists have names only; the names in the lists are exactly the codecs of the mode; and the decoder node is missing or has the owner and the permissions of the mode. Then it
  allows exactly these codecs: the five encoders and, only with the mode 1, the three decoders. The set for the codec plugin
  is never empty and has nothing that is not allowed, except the name that no codec has.
\<close>
theorem allowed_codecs_fail_closed:
  "fst (AllowedCodecs P) =
     (if getProperty P kModeProperty \<in> {[], ''0'', ''1''} \<and>
         getProperty P kVariantProperty = (if hw_decode P then kDecodersVariant else kEncodersOnlyVariant) \<and>
         spec_lists P (spec_path (getProperty P kVariantProperty)) (boot_codecs (hw_decode P)) \<and>
         node_protected P (hw_decode P)
      then boot_codecs (hw_decode P) else {}) \<and>
    (fst (AllowedCodecs P) \<inter> set kDecoders = {} \<or> hw_decode P) \<and>
    KeepAllowedCodecs codecs (fst (AllowedCodecs P)) \<noteq> {} \<and>
    KeepAllowedCodecs codecs (fst (AllowedCodecs P)) \<subseteq> insert ''c2hwjail.none'' (codecs \<inter> fst (AllowedCodecs P))"
proof -
  have "boot_codecs False \<inter> set kDecoders = {}" by code_simp
  have node: "check_node P d = None \<longleftrightarrow> node_protected P d" for d
    by (auto simp: check_node_def node_protected_def Let_def split: sum.splits if_splits)
  have allowed: "fst (AllowedCodecs P) =
     (if getProperty P kModeProperty \<in> {[], ''0'', ''1''} \<and>
         getProperty P kVariantProperty = (if hw_decode P then kDecodersVariant else kEncodersOnlyVariant) \<and>
         read_spec P (spec_path (getProperty P kVariantProperty)) = Inr (boot_codecs (hw_decode P)) \<and>
         check_node P (hw_decode P) = None
      then boot_codecs (hw_decode P) else {})"
    unfolding AllowedCodecs_def hw_decode_def Let_def by (simp split: sum.split option.split)
  show ?thesis
    unfolding allowed node read_spec_iff using \<open>boot_codecs False \<inter> set kDecoders = {}\<close>
    by (cases "hw_decode P") (simp_all add: KeepAllowedCodecs_def Let_def subset_insertI)
qed

text \<open>
  C36. Traps become errors: for any interpreter that picks a result by the rest of the program, a
  rewritten program answers every call as before, except that a trap is an EPERM error.
\<close>
theorem traps_become_errors:
  assumes "bpf_result pick result prog call" "bpf_result pick result (snd (TrapsToErrno prog)) call"
  shows "result (snd (TrapsToErrno prog)) call =
    (if result prog call AND SECCOMP_RET_ACTION_FULL = SECCOMP_RET_TRAP
     then SECCOMP_RET_ERRNO OR EPERM else result prog call)"
proof -
  have eperm: "EPERM AND SECCOMP_RET_DATA = EPERM" by (simp add: seccomp_codes)
  from assms show ?thesis
    unfolding bpf_result_def hide_TrapsToErrno Let_def
    by (auto simp: TrapsToErrno_map is_trap_def eperm)
qed

theorem traps_become_errors_witness:
  "(\<lambda>prog call. k (hd prog)) (snd (TrapsToErrno sample_program)) () = SECCOMP_RET_ERRNO OR EPERM"
proof -
  let ?result = "\<lambda>(prog :: sock_filter list) (call :: unit). k (hd prog)"
  have "bpf_result (\<lambda>prog call. 0) ?result sample_program ()"
    "bpf_result (\<lambda>prog call. 0) ?result (snd (TrapsToErrno sample_program)) ()"
    by (simp_all add: bpf_result_def sample_program_def is_trap_def seccomp_codes Let_def)
  from traps_become_errors [OF this] show ?thesis
    by (simp add: sample_program_def seccomp_codes is_trap_def)
qed

text \<open>A boot with hardware decoders.\<close>

definition sample_platform :: Platform where
  "sample_platform =
     \<lparr>getProperty = (\<lambda>n. if n = kModeProperty then ''1'' else if n = kVariantProperty then kDecodersVariant else []),
      readFile = (\<lambda>path. if path = spec_path kDecodersVariant then Some ''spec'' else None),
      statPath = (\<lambda>path. Inr \<lparr>st_mode = 0x21B0, st_uid = 0, st_gid = 1046\<rparr>),
      parse = (\<lambda>content. Some (JObject [(''Video'', JObject [(''codecs-available'', JObject
        [(''decoders'', JArray (map JString kDecoders)), (''encoders'', JArray (map JString kEncoders))])])])),
      AID_ROOT = 0, AID_MEDIA_CODEC = 1046\<rparr>"

definition sample_store :: "(nat, nat) C2ComponentStore" where
  "sample_store =
     \<lparr>getName = ''qti'', listComponents = [None, Some \<lparr>name = ''c2.qti.avc.decoder'', aliases = [''OMX.avc'']\<rparr>,
        Some \<lparr>name = ''c2.qti.avc.decoder.secure'', aliases = []\<rparr>],
      createComponent = (\<lambda>n. (C2_OK, Some 1)), createInterface = (\<lambda>n. (C2_OK, Some 2)), copyBuffer = (\<lambda>a b. C2_OK),
      query_sm = (\<lambda>a b. (C2_OK, [])), config_sm = (\<lambda>a. (C2_OK, [])), getParamReflector = None,
      querySupportedParams_nb = (C2_OK, []), querySupportedValues_sm = (\<lambda>a. (C2_OK, a))\<rparr>"

lemma sample_allowed: "fst (AllowedCodecs sample_platform) = boot_codecs True"
  by code_simp

theorem no_codec_without_filter_witness:
  "\<exists>f. stores (run (codec_step False) (new_service new_process)
      [CallStoreCtor sample_seccomp_env sample_platform (Some sample_store) (Some (Some ()))]) = [(sample_platform, f)] \<and>
    jailed False sample_seccomp_env (proc (run (codec_step False) (new_service new_process)
      [CallStoreCtor sample_seccomp_env sample_platform (Some sample_store) (Some (Some ()))])) \<and>
    fs_createComponent f ''OMX.avc'' = Some (C2_OK, Some 1) \<and>
    fs_createComponent f ''c2.qti.avc.decoder.secure'' = Some (C2_NOT_FOUND, None)"
proof -
  let ?calls = "[CallStoreCtor sample_seccomp_env sample_platform (Some sample_store) (Some (Some ()))]"
  let ?s = "run (codec_step False) (new_service new_process) ?calls"
  let ?f = "FilterStore (Some sample_store) (boot_codecs True)"
  have f: "stores ?s = [(sample_platform, ?f)]"
    by (simp add: c2hwjailStoreCtor_def EnsureFilter_def new_service_def InstallFilter_def sample_seccomp_env_def
        sample_program_def is_trap_def seccomp_codes set_no_new_privs_def sys_seccomp_def RealSymbol_def sample_allowed
        case_prod_unfold Let_def)
  then have mem: "(sample_platform, ?f) \<in> set (stores ?s)" by simp
  have n: "''OMX.avc'' \<in> mNames ?f" "''c2.qti.avc.decoder.secure'' \<notin> mNames ?f" by code_simp+
  have st: "mStore ?f = Some sample_store" by (simp add: FilterStore_def Let_def)
  from no_codec_without_filter [OF refl mem, of "''OMX.avc''"] n(1) st
  have "jailed False sample_seccomp_env (proc ?s)" "fs_createComponent ?f ''OMX.avc'' = Some (C2_OK, Some 1)"
    by (auto simp: sample_store_def)
  moreover from no_codec_without_filter [OF refl mem, of "''c2.qti.avc.decoder.secure''"] n(2)
  have "fs_createComponent ?f ''c2.qti.avc.decoder.secure'' = Some (C2_NOT_FOUND, None)" by simp
  ultimately show ?thesis using f by blast
qed

end
