(* ===== verification/Jailed_Services.thy ===== *)
theory Jailed_Services
  imports Seccomp
begin

text \<open>
  The two services that abort unless their seccomp filter is in place: the constructor that the camera provider
  runs before its \<^verbatim>\<open>main\<close> (\<^verbatim>\<open>camera/seccomp/camxjail.c\<close>), and the Bluetooth HCI service
  (\<^verbatim>\<open>bluetooth/service.cpp\<close>).

  \<open>logOnly\<close> is the build's choice. The results of the system calls, of the property functions and of the registration are
  arguments. \<open>events\<close> is a ghost list of what the Bluetooth service did, each with the process as it was then.
\<close>

section \<open>The camera provider's constructor\<close>

definition POLICY :: string where "POLICY = ''/vendor/etc/seccomp_policy/camera-provider.policy''"

definition CAMXJAIL_ACTION :: "bool \<Rightarrow> block_action" where
  "CAMXJAIL_ACTION logOnly = (if logOnly then ACTION_RET_LOG else ACTION_RET_TRAP)"

definition loader_options :: "block_action \<Rightarrow> filter_options" where
  "loader_options act =
     \<lparr>action = act, allow_logging = (act = ACTION_RET_LOG), allow_syscalls_for_logging = False,
      allow_duplicate_syscalls = False, include_libc_compatibility_allowlist = False\<rparr>"

definition camxjail_install :: "bool \<Rightarrow> bool \<Rightarrow> seccomp_env \<Rightarrow> process \<Rightarrow> outcome \<times> process" where
  "camxjail_install signal_ok logOnly E p =
     (let p = (if signal_ok then p\<lparr>sigpipe_ignored := True\<rparr> else p) in
      if \<not> fopen_ok E then (Aborts, p)
      else case compile_filter E POLICY (loader_options (CAMXJAIL_ACTION logOnly)) of (compiled, prog) \<Rightarrow>
        if compiled \<noteq> 0 then (Aborts, p)
        else let p = p\<lparr>allocated := allocated p + 1\<rparr> in
          case set_no_new_privs E p of (result, p) \<Rightarrow>
            if result \<noteq> 0 then (Aborts, p)
            else case sys_seccomp E SECCOMP_FILTER_FLAG_TSYNC prog p of (installed, p) \<Rightarrow>
              if installed \<noteq> 0 then (Aborts, p)
              else (Continues True, p\<lparr>allocated := allocated p - 1\<rparr>))"

section \<open>The Bluetooth service\<close>

definition kSeccompPolicy :: string where "kSeccompPolicy = ''/vendor/etc/seccomp_policy/bluetooth-hci.policy''"
definition kSeccompFilterFlagLog :: u32 where "kSeccompFilterFlagLog = push_bit 1 1"

definition kSeccompAction :: "bool \<Rightarrow> block_action" where
  "kSeccompAction logOnly = (if logOnly then ACTION_RET_LOG else ACTION_RET_TRAP)"

definition InstallSeccompFilter :: "bool \<Rightarrow> seccomp_env \<Rightarrow> process \<Rightarrow> outcome \<times> process" where
  "InstallSeccompFilter logOnly E p =
     (if \<not> fopen_ok E then (Aborts, p)
      else case compile_filter E kSeccompPolicy (loader_options (kSeccompAction logOnly)) of (compiled, prog) \<Rightarrow>
        if compiled \<noteq> 0 then (Aborts, p)
        else let p = p\<lparr>allocated := allocated p + 1\<rparr> in
          case set_no_new_privs E p of (result, p) \<Rightarrow>
            if result \<noteq> 0 then (Aborts, p)
            else case sys_seccomp E (SECCOMP_FILTER_FLAG_TSYNC OR kSeccompFilterFlagLog) prog p of (installed, p) \<Rightarrow>
              if installed \<noteq> 0 then (Aborts, p)
              else (Continues True, p\<lparr>allocated := allocated p - 1\<rparr>))"

definition kSocProperty :: string where "kSocProperty = ''persist.vendor.qcom.bluetooth.soc''"
definition kChipsetIdSize :: nat where "kChipsetIdSize = 32"

record SocName =
  chipset :: string
  soc_name :: string

definition kSocNames :: "SocName list" where
  "kSocNames =
     [\<lparr>chipset = ''qca6490'', soc_name = ''hastings''\<rparr>, \<lparr>chipset = ''qca6390'', soc_name = ''hastings''\<rparr>,
      \<lparr>chipset = ''kiwi'', soc_name = ''hamilton''\<rparr>, \<lparr>chipset = ''wcn7850'', soc_name = ''hamilton''\<rparr>,
      \<lparr>chipset = ''peach'', soc_name = ''ganges''\<rparr>, \<lparr>chipset = ''wcn786x'', soc_name = ''ganges''\<rparr>,
      \<lparr>chipset = ''wcn3990'', soc_name = ''cherokee''\<rparr>, \<lparr>chipset = ''wcn6750'', soc_name = ''moselle''\<rparr>,
      \<lparr>chipset = ''wcn6450'', soc_name = ''evros''\<rparr>]"

text \<open>The text of a zeroed buffer after the driver wrote to it, and \<^verbatim>\<open>strstr\<close> as a test.\<close>

definition c_string :: "string \<Rightarrow> string" where
  "c_string bytes = takeWhile (\<lambda>c. c \<noteq> CHR 0x00) (take kChipsetIdSize bytes)"

fun strstr :: "string \<Rightarrow> string \<Rightarrow> bool" where
  "strstr [] needle \<longleftrightarrow> needle = []"
| "strstr (c # cs) needle \<longleftrightarrow> take (length needle) (c # cs) = needle \<or> strstr cs needle"

fun find_soc :: "string \<Rightarrow> SocName list \<Rightarrow> string option" where
  "find_soc chip [] = None"
| "find_soc chip (soc # socs) = (if strstr chip (chipset soc) then Some (soc_name soc) else find_soc chip socs)"

record bt_env =
  power_device :: "string option option" \<comment> \<open>cannot be opened, cannot be read, or what it wrote\<close>
  property_set_ok :: bool
  register_1_1 :: int
  register_1_0 :: int

datatype bt_event = Umask nat | Threadpool nat bool | SetSoc | Register string int | Join

record bluetooth =
  bt_proc :: process
  soc_property :: string
  events :: "(bt_event \<times> process) list"

definition bt_do :: "bt_event \<Rightarrow> bluetooth \<Rightarrow> bluetooth" where
  "bt_do e s = s\<lparr>events := events s @ [(e, bt_proc s)]\<rparr>"

definition SetSocName :: "bt_env \<Rightarrow> bluetooth \<Rightarrow> bluetooth" where
  "SetSocName B s =
     (if soc_property s \<noteq> [] then s
      else case power_device B of
        None \<Rightarrow> s
      | Some None \<Rightarrow> s
      | Some (Some bytes) \<Rightarrow>
          (case find_soc (c_string bytes) kSocNames of
             None \<Rightarrow> s
           | Some n \<Rightarrow> if property_set_ok B then s\<lparr>soc_property := n\<rparr> else s))"

definition bt_main :: "bool \<Rightarrow> seccomp_env \<Rightarrow> bt_env \<Rightarrow> bluetooth \<Rightarrow> int option \<times> bluetooth" where
  "bt_main logOnly E B s =
     (case InstallSeccompFilter logOnly E (bt_proc s) of (r, p) \<Rightarrow>
        let s = s\<lparr>bt_proc := p\<rparr> in
        if r = Aborts then (None, s)
        else let s = bt_do (Umask 18) s;
                 s = bt_do (Threadpool 1 True) s;
                 s = bt_do SetSoc (SetSocName B s);
                 s = bt_do (Register ''1.1'' (register_1_1 B)) s;
                 s = (if register_1_1 B \<noteq> 0 then bt_do (Register ''1.0'' (register_1_0 B)) s else s)
          in (Some 1, bt_do Join s))"

section \<open>Both keep the loader's contract\<close>

lemmas loader_defs = set_no_new_privs_def sys_seccomp_def compiled_policy_def filter_added_def threads_def
  sync_thread_def SECCOMP_FILTER_FLAG_TSYNC_def kSeccompFilterFlagLog_def Let_def

abbreviation camera_policy :: "bool \<Rightarrow> seccomp_env \<Rightarrow> sock_filter list option" where
  "camera_policy logOnly E \<equiv> compiled_policy E POLICY (loader_options (CAMXJAIL_ACTION logOnly))"

abbreviation bluetooth_policy :: "bool \<Rightarrow> seccomp_env \<Rightarrow> sock_filter list option" where
  "bluetooth_policy logOnly E \<equiv> compiled_policy E kSeccompPolicy (loader_options (kSeccompAction logOnly))"

interpretation camx: seccomp_loader "camxjail_install signal_ok logOnly" "camera_policy logOnly" SECCOMP_FILTER_FLAG_TSYNC
  for signal_ok logOnly
  by unfold_locales (auto simp: camxjail_install_def loader_defs list_all_iff split: prod.splits if_splits)

interpretation bluetooth_jail: seccomp_loader "InstallSeccompFilter logOnly" "bluetooth_policy logOnly"
  "SECCOMP_FILTER_FLAG_TSYNC OR kSeccompFilterFlagLog" for logOnly
  by unfold_locales (auto simp: InstallSeccompFilter_def loader_defs list_all_iff split: prod.splits if_splits)

lemma loaders_say_no_failure:
  "fst (camxjail_install signal_ok logOnly E p) \<noteq> Continues False" "fst (InstallSeccompFilter logOnly E p) \<noteq> Continues False"
  by (auto simp: camxjail_install_def InstallSeccompFilter_def Let_def split: prod.split)

section \<open>The chip's name\<close>

lemma take_length_append: "(take (length ys) xs = ys) = (\<exists>zs. xs = ys @ zs)"
  by (metis append_eq_conv_conj append_take_drop_id)

lemma strstr_iff: "strstr hay needle \<longleftrightarrow> (\<exists>us vs. hay = us @ needle @ vs)"
proof (induction hay)
  case (Cons c cs)
  have "(\<exists>us vs. c # cs = us @ needle @ vs) \<longleftrightarrow>
      (\<exists>vs. c # cs = needle @ vs) \<or> (\<exists>us vs. cs = us @ needle @ vs)"
    by (auto simp: Cons_eq_append_conv)
  with Cons show ?case by (simp add: take_length_append)
qed simp

lemma find_soc_find: "find_soc chip socs = map_option soc_name (find (\<lambda>soc. strstr chip (chipset soc)) socs)"
  by (induction socs) simp_all

section \<open>Properties\<close>

text \<open>
  C37. Neither service runs unconfined. The camera provider's constructor and the Bluetooth service's loader abort if the policy
  file cannot be opened, does not compile, or one of the two system calls fails, and then no thread's filters changed. Otherwise they
  go on, and every thread of the process has no_new_privs and the program that the service's own policy file compiled to, on top of the filters the caller
  had, installed with \<^verbatim>\<open>TSYNC\<close> (and for Bluetooth with logging). Everything the Bluetooth
  service does, from the umask to the registration of the closed implementation, it does in such a process;
  it tries the old interface if and only if the new one failed, and returns 1.
\<close>
theorem services_run_confined:
  assumes "bt_main logOnly E B s = (r, s')"
  shows "(case camxjail_install signal_ok logOnly E p of
      (Aborts, p') \<Rightarrow> (camera_policy logOnly E = None \<or> prctl_result E \<noteq> 0 \<or> seccomp_result E \<noteq> 0) \<and>
        map filters (threads p') = map filters (threads p)
    | (Continues ok, p') \<Rightarrow> ok \<and> allocated p' = allocated p \<and>
        (\<exists>prog. camera_policy logOnly E = Some prog \<and> filter_added SECCOMP_FILTER_FLAG_TSYNC prog p p')) \<and>
    (if bluetooth_policy logOnly E = None \<or> prctl_result E \<noteq> 0 \<or> seccomp_result E \<noteq> 0
     then r = None \<and> events s' = events s
     else r = Some 1 \<and> (\<exists>new. events s' = events s @ new \<and>
       map fst new = [Umask 18, Threadpool 1 True, SetSoc, Register ''1.1'' (register_1_1 B)] @
         (if register_1_1 B \<noteq> 0 then [Register ''1.0'' (register_1_0 B)] else []) @ [Join] \<and>
       list_all (\<lambda>x. filter_added (SECCOMP_FILTER_FLAG_TSYNC OR kSeccompFilterFlagLog)
         (the (bluetooth_policy logOnly E)) (bt_proc s) (snd x)) new))"
proof (rule conjI [OF camx.past_loader [OF loaders_say_no_failure(1)]])
  obtain o2 p2 where i: "InstallSeccompFilter logOnly E (bt_proc s) = (o2, p2)" by fastforce
  have soc: "bt_proc (SetSocName B x) = bt_proc x" "events (SetSocName B x) = events x" for x
    by (simp_all add: SetSocName_def split: option.split)
  have no: "o2 \<noteq> Continues False" using loaders_say_no_failure(2) [of logOnly E "bt_proc s"] i by auto
  note iff = bluetooth_jail.install_iff [of logOnly E "bt_proc s"]
  show "if bluetooth_policy logOnly E = None \<or> prctl_result E \<noteq> 0 \<or> seccomp_result E \<noteq> 0
     then r = None \<and> events s' = events s
     else r = Some 1 \<and> (\<exists>new. events s' = events s @ new \<and>
       map fst new = [Umask 18, Threadpool 1 True, SetSoc, Register ''1.1'' (register_1_1 B)] @
         (if register_1_1 B \<noteq> 0 then [Register ''1.0'' (register_1_0 B)] else []) @ [Join] \<and>
       list_all (\<lambda>x. filter_added (SECCOMP_FILTER_FLAG_TSYNC OR kSeccompFilterFlagLog)
         (the (bluetooth_policy logOnly E)) (bt_proc s) (snd x)) new)"
  proof (cases "o2 = Continues True")
    case False
    with no have "o2 = Aborts" by (cases o2) auto
    with assms i iff show ?thesis by (auto simp: bt_main_def)
  next
    case True
    with i have i': "InstallSeccompFilter logOnly E (bt_proc s) = (Continues True, p2)" by simp
    from bluetooth_jail.install_policy [OF i']
    have "filter_added (SECCOMP_FILTER_FLAG_TSYNC OR kSeccompFilterFlagLog) (the (bluetooth_policy logOnly E)) (bt_proc s) p2"
      by (metis option.sel)
    moreover have "\<not> (bluetooth_policy logOnly E = None \<or> prctl_result E \<noteq> 0 \<or> seccomp_result E \<noteq> 0)"
      using iff i' by simp
    ultimately show ?thesis using assms i' by (auto simp: bt_main_def bt_do_def soc Let_def)
  qed
qed

definition sample_bt_env :: bt_env where
  "sample_bt_env = \<lparr>power_device = Some (Some ''qcom,wcn6750-bt''), property_set_ok = True, register_1_1 = 1, register_1_0 = 0\<rparr>"

definition new_bluetooth :: bluetooth where
  "new_bluetooth = \<lparr>bt_proc = new_process, soc_property = [], events = []\<rparr>"

theorem services_run_confined_witness:
  "\<exists>s'. bt_main False sample_seccomp_env sample_bt_env new_bluetooth = (Some 1, s') \<and>
     list_all (\<lambda>x. map filters (threads (snd x)) = [[sample_program], [sample_program]]) (events s') \<and>
     length (events s') = 6 \<and> soc_property s' = ''moselle''"
proof -
  obtain r s' where b: "bt_main False sample_seccomp_env sample_bt_env new_bluetooth = (r, s')" by fastforce
  have soc: "soc_property (snd (bt_main False sample_seccomp_env sample_bt_env new_bluetooth)) = ''moselle''" by code_simp
  have pol: "bluetooth_policy False sample_seccomp_env = Some sample_program"
    "prctl_result sample_seccomp_env = 0" "seccomp_result sample_seccomp_env = 0"
    by (simp_all add: compiled_policy_def sample_seccomp_env_def)
  have fs: "map filters (threads q) = [[sample_program], [sample_program]]"
    if "filter_added flags sample_program (bt_proc new_bluetooth) q" for flags q
    using that by (auto simp: filter_added_def new_bluetooth_def new_process_def threads_def length_Suc_conv)
  from services_run_confined [OF b, where signal_ok = True and p = new_process] pol obtain new where
    "r = Some 1" "events s' = new" "length (map fst new) = 6"
    "list_all (\<lambda>x. filter_added (SECCOMP_FILTER_FLAG_TSYNC OR kSeccompFilterFlagLog) sample_program (bt_proc new_bluetooth) (snd x)) new"
    by (auto simp: sample_bt_env_def new_bluetooth_def list_all_iff)
  with b soc fs show ?thesis by (auto simp: list_all_iff)
qed

text \<open>
  The SoC name is set only when it is unset and the chip is known: then it becomes the name of the first entry of the
  table whose chipset occurs in the text the driver gave, and in every other case it stays.
\<close>
lemma soc_name_first_match:
  "soc_property (SetSocName B s) \<noteq> soc_property s \<longrightarrow>
     soc_property s = [] \<and> (\<exists>bytes i. power_device B = Some (Some bytes) \<and> i < length kSocNames \<and>
       soc_property (SetSocName B s) = soc_name (kSocNames ! i) \<and>
       (\<exists>us vs. c_string bytes = us @ chipset (kSocNames ! i) @ vs) \<and>
       (\<forall>j < i. \<not> (\<exists>us vs. c_string bytes = us @ chipset (kSocNames ! j) @ vs)))"
  unfolding SetSocName_def find_soc_find
  by (auto simp: find_Some_iff strstr_iff split: option.splits if_splits)

end
