(* ===== verification/Power_Stats.thy ===== *)
theory Power_Stats
  imports FP6_Prelude "HOL-Library.Sublist"
begin

text \<open>
  The power statistics service, \<^verbatim>\<open>power/stats\<close>: the interface of the sleep counter driver
  (\<^verbatim>\<open>QcomStats.cpp\<close>, \<^verbatim>\<open>QcomStats.h\<close>) and the service's calls (\<^verbatim>\<open>PowerStats.cpp\<close>).

  Whether the device can be opened and what each ioctl gives are arguments: \<open>io n cmd\<close> is the
  answer to the command for the n-th id of a request, \<open>None\<close> if it fails. A reply is an
  exception or a list.
\<close>

section \<open>The driver's interface\<close>

record SleepStats =
  statType :: u32
  count :: u32
  lastEnteredAt :: u64
  lastExitedAt :: u64
  accumulated :: u64

definition kTicksPerMs :: u64 where "kTicksPerMs = 19200"

datatype StatsIoctl = kModem | kWpss | kAdsp | kCdsp | kAosd | kCxsd | kDdr

fun ioctl_number :: "StatsIoctl \<Rightarrow> u32" where
  "ioctl_number kModem = 1"
| "ioctl_number kWpss = 2"
| "ioctl_number kAdsp = 3"
| "ioctl_number kCdsp = 5"
| "ioctl_number kAosd = 10"
| "ioctl_number kCxsd = 11"
| "ioctl_number kDdr = 12"

definition kStatsIoctlMagic :: u32 where "kStatsIoctlMagic = 0x9d"

text \<open>\<^verbatim>\<open>_IOR\<close> with the size of a pointer on arm64: direction 2, size 8.\<close>

definition IoctlCommand :: "StatsIoctl \<Rightarrow> u32" where
  "IoctlCommand nr = push_bit 30 2 OR push_bit 16 8 OR push_bit 8 kStatsIoctlMagic OR ioctl_number nr"

text \<open>\<^verbatim>\<open>tolower\<close> in the C locale.\<close>

definition tolower :: "u8 \<Rightarrow> u8" where
  "tolower c = (if 65 \<le> c \<and> c \<le> 90 then c + 32 else c)"

fun record_name :: "nat \<Rightarrow> nat \<Rightarrow> u32 \<Rightarrow> string" where
  "record_name i 0 t = []"
| "record_name i (Suc n) t =
     (let c = ucast (drop_bit (8 * i) t AND 0xff) :: u8
      in if c = 0 \<or> c = 32 then [] else char_of (unat (tolower c)) # record_name (Suc i) n t)"

definition RecordName :: "u32 \<Rightarrow> string" where
  "RecordName t = record_name 0 4 t"

record StateSource =
  state_name :: string
  ioctlNr :: StatsIoctl
  record_of :: "string option"

record EntitySource =
  entity_name :: string
  entity_states :: "StateSource list"

definition Entities :: "EntitySource list" where
  "Entities =
     [\<lparr>entity_name = ''SoC'', entity_states =
        [\<lparr>state_name = ''AOSD'', ioctlNr = kAosd, record_of = Some ''aosd''\<rparr>,
         \<lparr>state_name = ''CXSD'', ioctlNr = kCxsd, record_of = Some ''cxsd''\<rparr>,
         \<lparr>state_name = ''DDR'', ioctlNr = kDdr, record_of = Some ''ddr''\<rparr>]\<rparr>,
      \<lparr>entity_name = ''Modem'', entity_states = [\<lparr>state_name = ''Sleep'', ioctlNr = kModem, record_of = None\<rparr>]\<rparr>,
      \<lparr>entity_name = ''WPSS'', entity_states = [\<lparr>state_name = ''Sleep'', ioctlNr = kWpss, record_of = None\<rparr>]\<rparr>,
      \<lparr>entity_name = ''ADSP'', entity_states = [\<lparr>state_name = ''Sleep'', ioctlNr = kAdsp, record_of = None\<rparr>]\<rparr>,
      \<lparr>entity_name = ''CDSP'', entity_states = [\<lparr>state_name = ''Sleep'', ioctlNr = kCdsp, record_of = None\<rparr>]\<rparr>]"

section \<open>The service\<close>

record State =
  state_id :: i32
  name_of_state :: string

record PowerEntity =
  entity_id :: i32
  name_of_entity :: string
  states_of :: "State list"

record StateResidency =
  res_id :: i32
  totalTimeInStateMs :: i64
  totalStateEntryCount :: i64
  lastEntryTimestampMs :: i64

record StateResidencyResult =
  result_id :: i32
  stateResidencyData :: "StateResidency list"

datatype exception = EX_ILLEGAL_ARGUMENT

definition ToResidency :: "i32 \<Rightarrow> SleepStats \<Rightarrow> StateResidency" where
  "ToResidency i st =
     \<lparr>res_id = i, totalTimeInStateMs = accumulated st div kTicksPerMs, totalStateEntryCount = ucast (count st),
      lastEntryTimestampMs = lastEnteredAt st div kTicksPerMs\<rparr>"

definition mEntities :: "PowerEntity list" where
  "mEntities =
     map (\<lambda>(i, e). \<lparr>entity_id = of_nat i, name_of_entity = entity_name e,
       states_of = map (\<lambda>(j, st). \<lparr>state_id = of_nat j, name_of_state = state_name st\<rparr>)
         (zip [0..<length (entity_states e)] (entity_states e))\<rparr>)
       (zip [0..<length Entities] Entities)"

definition getPowerEntityInfo :: "PowerEntity list" where
  "getPowerEntityInfo = mEntities"

fun read_states :: "(u32 \<Rightarrow> SleepStats option) \<Rightarrow> nat \<Rightarrow> StateSource list \<Rightarrow> StateResidency list option" where
  "read_states io j [] = Some []"
| "read_states io j (st # sts) =
     (case io (IoctlCommand (ioctlNr st)) of
        None \<Rightarrow> None
      | Some stats \<Rightarrow>
          if record_of st \<noteq> None \<and> record_of st \<noteq> Some (RecordName (statType stats)) then None
          else map_option (Cons (ToResidency (of_nat j) stats)) (read_states io (Suc j) sts))"

definition readEntity :: "(u32 \<Rightarrow> SleepStats option) \<Rightarrow> nat \<Rightarrow> StateResidency list option" where
  "readEntity io index = read_states io 0 (entity_states (Entities ! index))"

fun read_ids :: "(nat \<Rightarrow> u32 \<Rightarrow> SleepStats option) \<Rightarrow> nat \<Rightarrow> i32 list \<Rightarrow> StateResidencyResult list" where
  "read_ids io n [] = []"
| "read_ids io n (i # is) =
     (case readEntity (io n) (unat i) of
        None \<Rightarrow> read_ids io (Suc n) is
      | Some data \<Rightarrow> \<lparr>result_id = i, stateResidencyData = data\<rparr> # read_ids io (Suc n) is)"

definition valid_id :: "i32 \<Rightarrow> bool" where
  "valid_id i \<longleftrightarrow> \<not> (sint i < 0 \<or> unat i \<ge> length mEntities)"

definition requested_ids :: "i32 list \<Rightarrow> i32 list" where
  "requested_ids ids = (if ids = [] then map of_nat [0..<length mEntities] else ids)"

definition getStateResidency ::
    "bool \<Rightarrow> (nat \<Rightarrow> u32 \<Rightarrow> SleepStats option) \<Rightarrow> i32 list \<Rightarrow> exception + StateResidencyResult list" where
  "getStateResidency open_ok io in_powerEntityIds =
     (let ids = requested_ids in_powerEntityIds in
      if \<not> list_all valid_id ids then Inl EX_ILLEGAL_ARGUMENT
      else if \<not> open_ok then Inr []
      else Inr (read_ids io 0 ids))"

text \<open>There are no meters and no consumers: the other calls give nothing and refuse every id.\<close>

definition getEnergyConsumerInfo :: "unit list" where
  "getEnergyConsumerInfo = []"

definition getEnergyConsumed :: "i32 list \<Rightarrow> exception + unit list" where
  "getEnergyConsumed ids = (if ids \<noteq> [] then Inl EX_ILLEGAL_ARGUMENT else Inr [])"

definition getEnergyMeterInfo :: "unit list" where
  "getEnergyMeterInfo = []"

definition readEnergyMeter :: "i32 list \<Rightarrow> exception + unit list" where
  "readEnergyMeter ids = (if ids \<noteq> [] then Inl EX_ILLEGAL_ARGUMENT else Inr [])"

section \<open>The dump\<close>

text \<open>\<^verbatim>\<open>%-ns\<close> and \<^verbatim>\<open>%ns\<close>, and \<^verbatim>\<open>%nlld\<close>.\<close>

definition pad_right :: "nat \<Rightarrow> string \<Rightarrow> string" where
  "pad_right n s = s @ replicate (n - length s) (CHR '' '')"

definition pad_left :: "nat \<Rightarrow> string \<Rightarrow> string" where
  "pad_left n s = replicate (n - length s) (CHR '' '') @ s"

definition newline :: string where "newline = [CHR 0x0A]"

text \<open>The last result with an entity's id, as the loop finds it.\<close>

definition result_of :: "i32 \<Rightarrow> StateResidencyResult list \<Rightarrow> StateResidencyResult option" where
  "result_of i rs = find (\<lambda>r. result_id r = i) (rev rs)"

text \<open>A residency's line; \<open>None\<close> if its state does not exist.\<close>

definition residency_line :: "PowerEntity \<Rightarrow> StateResidency \<Rightarrow> string option" where
  "residency_line e r =
     (if unat (res_id r) < length (states_of e)
      then Some (pad_right 8 (name_of_entity e) @ '' '' @ pad_right 6 (name_of_state (states_of e ! unat (res_id r))) @ '' '' @
        pad_left 14 (show_int (sint (totalTimeInStateMs r))) @ '' '' @
        pad_left 12 (show_int (sint (totalStateEntryCount r))) @ '' '' @
        pad_left 16 (show_int (sint (lastEntryTimestampMs r))) @ newline)
      else None)"

fun concat_opt :: "string option list \<Rightarrow> string option" where
  "concat_opt [] = Some []"
| "concat_opt (None # xs) = None"
| "concat_opt (Some s # xs) = map_option (append s) (concat_opt xs)"

definition entity_lines :: "StateResidencyResult list \<Rightarrow> PowerEntity \<Rightarrow> string option" where
  "entity_lines rs e =
     (case result_of (entity_id e) rs of
        None \<Rightarrow> Some (pad_right 8 (name_of_entity e) @ '' '' @ pad_right 6 ''-'' @ '' '' @ pad_left 14 ''no data'' @ newline)
      | Some r \<Rightarrow> concat_opt (map (residency_line e) (stateResidencyData r)))"

definition dump_text :: "bool \<Rightarrow> (nat \<Rightarrow> u32 \<Rightarrow> SleepStats option) \<Rightarrow> string option" where
  "dump_text open_ok io =
     (let results = (case getStateResidency open_ok io [] of Inl e \<Rightarrow> [] | Inr rs \<Rightarrow> rs)
      in map_option (append (''State residency from /dev/stats (qcom_stats); no energy meters or consumers.'' @ newline @
           pad_right 8 ''Entity'' @ '' '' @ pad_right 6 ''State'' @ '' '' @ pad_left 14 ''Time (ms)'' @ '' '' @
           pad_left 12 ''Entries'' @ '' '' @ pad_left 16 ''Last entry (ms)'' @ newline))
         (concat_opt (map (entity_lines results) mEntities)))"

datatype binder_status = STATUS_OK | STATUS_FAILED_TRANSACTION

definition dump :: "bool \<Rightarrow> (nat \<Rightarrow> u32 \<Rightarrow> SleepStats option) \<Rightarrow> bool \<Rightarrow> binder_status option" where
  "dump open_ok io write_ok =
     map_option (\<lambda>content. if write_ok then STATUS_OK else STATUS_FAILED_TRANSACTION) (dump_text open_ok io)"

section \<open>Whole and well-typed replies\<close>

lemma length_mEntities: "length mEntities = 5" by (simp add: mEntities_def Entities_def)

lemma mEntities_nth:
  assumes "n < 5"
  shows "entity_id (mEntities ! n) = of_nat n"
    "map state_id (states_of (mEntities ! n)) = map of_nat [0..<length (entity_states (Entities ! n))]"
proof -
  have len: "n < length Entities" using assms by (simp add: Entities_def)
  then show "entity_id (mEntities ! n) = of_nat n" by (simp add: mEntities_def)
  have "map state_id (map (\<lambda>(j, st). \<lparr>state_id = of_nat j, name_of_state = state_name st\<rparr>) (zip [0..<length sts] sts)) =
      map of_nat [0..<length sts]" for sts
    by (intro nth_equalityI) simp_all
  with len show "map state_id (states_of (mEntities ! n)) = map of_nat [0..<length (entity_states (Entities ! n))]"
    by (simp add: mEntities_def)
qed

lemma sint_small: "uint w < 2 ^ 63 \<Longrightarrow> sint (w :: u64) = uint w"
proof -
  assume "uint w < 2 ^ 63"
  moreover have "0 \<le> uint w" by simp
  ultimately have "signed_take_bit 63 (uint w) = uint w" by (intro signed_take_bit_int_eq_self) linarith+
  then show ?thesis by (simp add: sint_uint)
qed

lemma valid_id_iff: "valid_id i \<longleftrightarrow> 0 \<le> sint i \<and> sint i < 5"
proof (cases "0 \<le> sint i")
  case True
  moreover have "sint i < 2 ^ 32" using sint_range_size [of i] by (simp add: word_size)
  ultimately have "take_bit 32 (sint i) = sint i" by (simp add: take_bit_int_eq_self)
  then have "sint i = uint i" by (simp add: uint_sint)
  then have "sint i = int (unat i)" by simp
  then show ?thesis unfolding valid_id_def length_mEntities by linarith
qed (simp add: valid_id_def)

lemma ticks_to_ms: "sint (x div kTicksPerMs) = uint x div 19200"
proof -
  have u: "uint (x div kTicksPerMs) = uint x div 19200" by (simp add: kTicksPerMs_def uint_div)
  have "uint x < 2 ^ 64" using uint_lt2p [of x] by simp
  then have "uint x div 19200 < 2 ^ 63" by (simp add: div_less_iff_less_mult)
  with u show ?thesis by (simp add: sint_small)
qed

lemma count_to_i64: "sint (ucast (c :: u32) :: i64) = uint c"
proof -
  have "uint (ucast c :: i64) = uint c" by (simp add: unsigned_ucast_eq take_bit_int_eq_self uint_lt2p order_less_le_trans [OF uint_lt2p])
  moreover have "uint c < 2 ^ 63" using uint_lt2p [of c] by simp
  ultimately show ?thesis by (simp add: sint_small)
qed

definition residency_ok :: "StateResidency \<Rightarrow> bool" where
  "residency_ok r \<longleftrightarrow> 0 \<le> sint (totalTimeInStateMs r) \<and> 0 \<le> sint (totalStateEntryCount r) \<and> 0 \<le> sint (lastEntryTimestampMs r)"

lemma ToResidency_ok: "residency_ok (ToResidency i st)" "res_id (ToResidency i st) = i"
  by (simp_all add: residency_ok_def ToResidency_def ticks_to_ms count_to_i64 pos_imp_zdiv_nonneg_iff)

lemma read_states_whole:
  "read_states io j sts = Some data \<Longrightarrow>
     map res_id data = map of_nat [j..<j + length sts] \<and> list_all residency_ok data"
proof (induction sts arbitrary: j data)
  case (Cons st sts)
  then obtain stats ds where "data = ToResidency (of_nat j) stats # ds" "read_states io (Suc j) sts = Some ds"
    by (auto split: option.splits if_splits)
  with Cons.IH [of "Suc j" ds] show ?case by (simp add: ToResidency_ok upt_rec [of j] del: upt_Suc)
qed simp

text \<open>A result is for an entity, has each of its states once and in order, and no negative number.\<close>

definition result_ok :: "StateResidencyResult \<Rightarrow> bool" where
  "result_ok r \<longleftrightarrow>
     (\<exists>n < length mEntities. result_id r = entity_id (mEntities ! n) \<and>
        map res_id (stateResidencyData r) = map state_id (states_of (mEntities ! n))) \<and>
     list_all residency_ok (stateResidencyData r)"

lemma read_ids_ok:
  assumes "list_all valid_id ids"
  shows "list_all result_ok (read_ids io n ids) \<and> subseq (map result_id (read_ids io n ids)) ids"
  using assms
proof (induction ids arbitrary: n)
  case (Cons i ids)
  show ?case
  proof (cases "readEntity (io n) (unat i)")
    case None
    with Cons.IH [of "Suc n"] Cons.prems show ?thesis by (simp add: list_emb_Cons)
  next
    case (Some data)
    from Cons.prems have i: "unat i < 5" by (simp add: valid_id_def length_mEntities)
    with read_states_whole [OF Some [unfolded readEntity_def]]
    have "result_ok \<lparr>result_id = i, stateResidencyData = data\<rparr>"
      unfolding result_ok_def by (intro conjI exI [of _ "unat i"]) (simp_all add: mEntities_nth length_mEntities)
    with Some Cons show ?thesis by simp
  qed
qed simp

lemma requested_empty_valid: "list_all valid_id (requested_ids [])"
  by (simp add: requested_ids_def valid_id_def mEntities_def Entities_def)

lemma concat_opt_defined: "None \<notin> set xs \<Longrightarrow> \<exists>s. concat_opt xs = Some s"
  by (induction xs rule: concat_opt.induct) auto

lemma entity_lines_defined:
  assumes "list_all result_ok rs" "n < 5"
  shows "entity_lines rs (mEntities ! n) \<noteq> None"
proof (cases "result_of (entity_id (mEntities ! n)) rs")
  case None
  then show ?thesis by (simp add: entity_lines_def)
next
  case (Some r)
  then have r: "r \<in> set rs" "result_id r = entity_id (mEntities ! n)"
    by (auto simp: result_of_def find_Some_iff) (metis nth_mem set_rev length_rev)
  with assms(1) obtain m where m: "m < 5" "result_id r = entity_id (mEntities ! m)"
    "map res_id (stateResidencyData r) = map state_id (states_of (mEntities ! m))"
    by (auto simp: list_all_iff result_ok_def length_mEntities)
  have "m = n"
  proof -
    from m(1,2) r(2) assms(2) have "(of_nat m :: i32) = of_nat n" by (simp add: mEntities_nth)
    then have "unat (of_nat m :: i32) = unat (of_nat n :: i32)" by simp
    with m(1) assms(2) show ?thesis by (simp add: unat_of_nat)
  qed
  with m(3) assms(2) have ids: "map res_id (stateResidencyData r) = map of_nat [0..<length (states_of (mEntities ! n))]"
    using mEntities_nth(2) [OF assms(2)] by (metis length_map map_nth length_upt diff_zero)
  have "unat (res_id x) < length (states_of (mEntities ! n))" if "x \<in> set (stateResidencyData r)" for x
  proof -
    from that have "res_id x \<in> set (map res_id (stateResidencyData r))" by simp
    then obtain j where j: "j < length (states_of (mEntities ! n))" "res_id x = of_nat j" unfolding ids by auto
    have "unat (of_nat j :: i32) \<le> j" by (simp add: unat_of_nat)
    with j show ?thesis by simp
  qed
  then have "None \<notin> set (map (residency_line (mEntities ! n)) (stateResidencyData r))"
    by (auto simp: residency_line_def)
  from concat_opt_defined [OF this] Some show ?thesis by (auto simp: entity_lines_def)
qed

section \<open>Properties\<close>

text \<open>
  C38. Replies are typed: a request is refused exactly if it names an unknown entity; otherwise every result is for a
  requested entity, in the order of the request, with each state that the service declares for that entity exactly once and in
  order, and no number that is negative as an \<^verbatim>\<open>int64_t\<close>. The dump finds the name of every state it prints.
\<close>
theorem residency_well_typed:
  "(case getStateResidency open_ok io ids of
      Inl e \<Rightarrow> list_ex (\<lambda>i. sint i < 0 \<or> sint i \<ge> int (length getPowerEntityInfo)) ids
    | Inr rs \<Rightarrow>
        list_all (\<lambda>i. 0 \<le> sint i \<and> sint i < int (length getPowerEntityInfo)) ids \<and>
        subseq (map result_id rs) (if ids = [] then map entity_id getPowerEntityInfo else ids) \<and>
        list_all (\<lambda>r. list_ex (\<lambda>e. result_id r = entity_id e \<and>
            map res_id (stateResidencyData r) = map state_id (states_of e)) getPowerEntityInfo \<and>
          list_all residency_ok (stateResidencyData r)) rs) \<and>
   (\<exists>content. dump_text open_ok io = Some content)"
proof -
  let ?ids = "requested_ids ids"
  have req: "list_all valid_id ?ids = list_all valid_id ids"
    using requested_empty_valid by (simp add: requested_ids_def)
  have five: "int (length getPowerEntityInfo) = 5" by (simp add: getPowerEntityInfo_def length_mEntities)
  have empty: "requested_ids [] = map entity_id getPowerEntityInfo"
    by (simp add: requested_ids_def getPowerEntityInfo_def mEntities_def Entities_def)
  have results: "list_ex (\<lambda>e. result_id r = entity_id e \<and> map res_id (stateResidencyData r) = map state_id (states_of e))
      getPowerEntityInfo \<and> list_all residency_ok (stateResidencyData r)" if "result_ok r" for r
    using that by (auto simp: result_ok_def list_ex_iff getPowerEntityInfo_def)
  have "case getStateResidency open_ok io ids of
      Inl e \<Rightarrow> list_ex (\<lambda>i. sint i < 0 \<or> sint i \<ge> int (length getPowerEntityInfo)) ids
    | Inr rs \<Rightarrow>
        list_all (\<lambda>i. 0 \<le> sint i \<and> sint i < int (length getPowerEntityInfo)) ids \<and>
        subseq (map result_id rs) (if ids = [] then map entity_id getPowerEntityInfo else ids) \<and>
        list_all (\<lambda>r. list_ex (\<lambda>e. result_id r = entity_id e \<and>
            map res_id (stateResidencyData r) = map state_id (states_of e)) getPowerEntityInfo \<and>
          list_all residency_ok (stateResidencyData r)) rs"
  proof (cases "list_all valid_id ids")
    case True
    then have ids: "list_all (\<lambda>i. 0 \<le> sint i \<and> sint i < int (length getPowerEntityInfo)) ids"
      by (auto simp: list_all_iff valid_id_iff five)
    show ?thesis
    proof (cases open_ok)
      case False
      with True ids req show ?thesis by (simp add: getStateResidency_def Let_def)
    next
      case op: True
      from read_ids_ok [of ?ids io 0] True req
      have "list_all result_ok (read_ids io 0 ?ids)" "subseq (map result_id (read_ids io 0 ?ids)) ?ids" by simp_all
      moreover have "?ids = (if ids = [] then map entity_id getPowerEntityInfo else ids)"
        using empty by (simp add: requested_ids_def)
      ultimately show ?thesis using op True ids req results
        by (auto simp: getStateResidency_def Let_def elim!: list.pred_mono_strong)
    qed
  next
    case False
    then have "list_ex (\<lambda>i. sint i < 0 \<or> sint i \<ge> int (length getPowerEntityInfo)) ids"
      unfolding five list_ex_iff list_all_iff valid_id_iff by (meson not_le)
    with False req show ?thesis by (simp add: getStateResidency_def)
  qed
  moreover have "\<exists>content. dump_text open_ok io = Some content"
  proof -
    obtain rs where rs: "getStateResidency open_ok io [] = Inr rs" "list_all result_ok rs"
      using read_ids_ok [OF requested_empty_valid, of io 0] requested_empty_valid
      by (cases open_ok) (auto simp: getStateResidency_def Let_def)
    have "None \<notin> set (map (entity_lines rs) mEntities)"
      using entity_lines_defined [OF rs(2)] by (metis (no_types, lifting) in_set_conv_nth length_mEntities length_map nth_map)
    from concat_opt_defined [OF this] rs(1) show ?thesis by (auto simp: dump_text_def)
  qed
  ultimately show ?thesis by blast
qed

end
