(* ===== verification/Graphic_Buffer.thy ===== *)
theory Graphic_Buffer
  imports Handle_Library
begin

text \<open>
  The Android 14 graphic buffers, \<^verbatim>\<open>compat/codec2-v34\<close>: the objects that the stock codec and camera
  libraries construct in their own memory (\<^verbatim>\<open>GraphicBufferV34.cpp\<close>), the mapper's lock and unlock
  (\<^verbatim>\<open>GraphicBufferMapperV34.cpp\<close>) and the input surface that is refused (\<^verbatim>\<open>GraphicBufferSourceV34.cpp\<close>).

  An object is what an address holds; using an address that holds none is \<open>None\<close>, and so is giving back a handle
  or a hardware buffer that is not held. The Android 17 mapper and the NDK's hardware buffers are not part of the sources:
  what they answer is in the arguments, their constants in the parameter \<open>G\<close>, and \<open>clones\<close> and \<open>hwbufs\<close> are ghost sets
  of the handles imported and not freed and of the hardware buffers allocated and not released; \<open>locks\<close> counts the locks of a hardware buffer.
\<close>

section \<open>Data\<close>

record gfx_api =
  NO_INIT :: int
  BAD_VALUE :: int
  CPU_READ_MASK :: u64
  CPU_WRITE_MASK :: u64

datatype owner = kOwnNone | kOwnHandle | kOwnData

record GraphicBufferV34 =
  width :: i32
  height :: i32
  stride :: i32
  format :: i32
  usage_deprecated :: i32
  usage :: u64
  layerCount :: u64
  handle :: "nat option"
  mOwner :: owner
  mBufferMapper :: bool \<comment> \<open>the pointer is not NULL\<close>
  mInitCheck :: int
  mTransportNumFds :: u32
  mTransportNumInts :: u32
  mId :: u64
  mBufferId :: i32
  mGenerationNumber :: u32

record gfx =
  getpid :: u32
  next_id :: u32
  hw_decode :: bool \<comment> \<open>the property, which is read once\<close>
  gRefusalLogged :: bool
  objects :: "nat \<Rightarrow> GraphicBufferV34 option"
  gHardwareBuffers :: "nat \<Rightarrow> nat option"
  clones :: "nat set"
  hwbufs :: "nat set"
  locks :: "nat \<Rightarrow> nat"

definition kCloneHandle :: u8 where "kCloneHandle = 3"

definition nextBufferId :: "gfx \<Rightarrow> u64 \<times> gfx" where
  "nextBufferId s = (push_bit 32 (ucast (getpid s)) OR ucast (next_id s), s\<lparr>next_id := next_id s + 1\<rparr>)"

definition hardwareBufferOf :: "nat \<Rightarrow> gfx \<Rightarrow> nat option" where
  "hardwareBufferOf a s = gHardwareBuffers s a"

definition construct :: "gfx_api \<Rightarrow> bool \<Rightarrow> bool \<Rightarrow> nat \<Rightarrow> gfx \<Rightarrow> GraphicBufferV34 \<times> gfx" where
  "construct G usable withMapper a s =
     (case nextBufferId s of (i, s) \<Rightarrow>
        let b = \<lparr>width = 0, height = 0, stride = 0, format = 0, usage_deprecated = 0, usage = 0, layerCount = 0,
                 handle = None, mOwner = kOwnData, mBufferMapper = withMapper, mInitCheck = (if usable then 0 else NO_INIT G),
                 mTransportNumFds = 0, mTransportNumInts = 0, mId = i, mBufferId = - 1, mGenerationNumber = 0\<rparr>
        in (b, s\<lparr>objects := (objects s)(a := Some b)\<rparr>))"

text \<open>The description that the callers give.\<close>

record buffer_request =
  inWidth :: u32
  inHeight :: u32
  inFormat :: i32
  inLayerCount :: u32
  inUsage :: u64
  inStride :: u32

text \<open>What \<^verbatim>\<open>importBuffer\<close> answers: an error, a handle or none, and the handle's transport size.\<close>

record import_answer =
  import_err :: int
  imported :: "nat option"
  transport :: "u32 \<times> u32"

text \<open>What allocation answers: an error, a buffer or none, its native handle or none, and its description.\<close>

record alloc_answer =
  alloc_err :: int
  alloc_buffer :: "nat option"
  native_handle :: "nat option"
  actual_width :: u32
  actual_height :: u32
  actual_stride :: u32

definition importClone ::
    "gfx_api \<Rightarrow> import_answer \<Rightarrow> buffer_request \<Rightarrow> nat \<Rightarrow> GraphicBufferV34 \<Rightarrow> gfx \<Rightarrow> int \<times> GraphicBufferV34 \<times> gfx" where
  "importClone G ans q a b s =
     (case (import_err ans = 0, imported ans) of
        (True, Some h) \<Rightarrow>
          let b = b\<lparr>width := inWidth q, height := inHeight q, stride := inStride q, format := inFormat q,
                    usage := inUsage q, usage_deprecated := ucast (inUsage q), layerCount := ucast (inLayerCount q),
                    mOwner := kOwnHandle, mTransportNumFds := fst (transport ans), mTransportNumInts := snd (transport ans),
                    handle := Some h\<rparr>
          in (0, b, s\<lparr>clones := insert h (clones s), objects := (objects s)(a := Some b)\<rparr>)
      | _ \<Rightarrow> (if import_err ans \<noteq> 0 then import_err ans else NO_INIT G, b, s))"

definition allocate ::
    "gfx_api \<Rightarrow> alloc_answer \<Rightarrow> buffer_request \<Rightarrow> nat \<Rightarrow> GraphicBufferV34 \<Rightarrow> gfx \<Rightarrow> int \<times> GraphicBufferV34 \<times> gfx" where
  "allocate G ans q a b s =
     (case (alloc_err ans = 0, alloc_buffer ans) of
        (True, Some hb) \<Rightarrow>
          let s = s\<lparr>hwbufs := insert hb (hwbufs s)\<rparr> in
          (case native_handle ans of
             None \<Rightarrow> (NO_INIT G, b, s\<lparr>hwbufs := hwbufs s - {hb}\<rparr>)
           | Some h \<Rightarrow>
               let b = b\<lparr>width := actual_width ans, height := actual_height ans, stride := actual_stride ans,
                         format := inFormat q, usage := inUsage q, usage_deprecated := ucast (inUsage q),
                         layerCount := ucast (inLayerCount q), mOwner := kOwnData, handle := Some h\<rparr>
               in (0, b, s\<lparr>objects := (objects s)(a := Some b), gHardwareBuffers := (gHardwareBuffers s)(a \<mapsto> hb)\<rparr>))
      | _ \<Rightarrow> (if alloc_err ans \<noteq> 0 then alloc_err ans else NO_INIT G, b, s))"

definition destroy :: "nat \<Rightarrow> gfx \<Rightarrow> gfx option" where
  "destroy a s =
     (case objects s a of
        None \<Rightarrow> None
      | Some b \<Rightarrow>
          let freed = (case handle b of
                 Some h \<Rightarrow> if mOwner b = kOwnHandle \<and> mBufferMapper b
                   then (if h \<in> clones s then Some (s\<lparr>clones := clones s - {h}\<rparr>) else None) else Some s
               | None \<Rightarrow> Some s)
          in (case freed of
                None \<Rightarrow> None
              | Some s \<Rightarrow>
                  let s = s\<lparr>objects := (objects s)(a := None)\<rparr> in
                  (case gHardwareBuffers s a of
                     None \<Rightarrow> Some s
                   | Some hb \<Rightarrow>
                       if hb \<in> hwbufs s
                       then Some (s\<lparr>gHardwareBuffers := (gHardwareBuffers s)(a := None), hwbufs := hwbufs s - {hb}\<rparr>)
                       else None)))"

definition surfaceOutputAllowed :: "gfx \<Rightarrow> bool" where
  "surfaceOutputAllowed s = hw_decode s"

definition refuse :: "gfx_api \<Rightarrow> nat \<Rightarrow> gfx \<Rightarrow> gfx" where
  "refuse G a s = (snd (construct G False True a s))\<lparr>gRefusalLogged := True\<rparr>"

section \<open>Entry points\<close>

definition fp6GraphicBufferV34Construct :: "gfx_api \<Rightarrow> nat \<Rightarrow> gfx \<Rightarrow> gfx" where
  "fp6GraphicBufferV34Construct G a s =
     (if \<not> surfaceOutputAllowed s then refuse G a s else snd (construct G True True a s))"

definition set_init_check :: "nat \<Rightarrow> int \<times> GraphicBufferV34 \<times> gfx \<Rightarrow> gfx" where
  "set_init_check a r = (case r of (err, b, s) \<Rightarrow> s\<lparr>objects := (objects s)(a := Some (b\<lparr>mInitCheck := err\<rparr>))\<rparr>)"

definition fp6GraphicBufferV34ConstructWithHandle ::
    "gfx_api \<Rightarrow> import_answer \<Rightarrow> buffer_request \<Rightarrow> u8 \<Rightarrow> bool \<Rightarrow> nat \<Rightarrow> gfx \<Rightarrow> gfx" where
  "fp6GraphicBufferV34ConstructWithHandle G ans q wrap handle_present a s =
     (if \<not> surfaceOutputAllowed s then refuse G a s
      else case construct G True True a s of (b, s) \<Rightarrow>
        set_init_check a
          (if wrap = kCloneHandle \<and> handle_present then importClone G ans q a b s else (NO_INIT G, b, s)))"

definition fp6GraphicBufferV34ConstructAllocated ::
    "gfx_api \<Rightarrow> alloc_answer \<Rightarrow> u32 \<Rightarrow> u32 \<Rightarrow> i32 \<Rightarrow> u32 \<Rightarrow> nat \<Rightarrow> gfx \<Rightarrow> gfx" where
  "fp6GraphicBufferV34ConstructAllocated G ans w h f u a s =
     (case construct G True False a s of (b, s) \<Rightarrow>
        set_init_check a (allocate G ans
          \<lparr>inWidth = w, inHeight = h, inFormat = f, inLayerCount = 1, inUsage = ucast u, inStride = 0\<rparr> a b s))"

record plane =
  plane_data :: nat
  pixelStride :: u32
  rowStride :: u32

record android_ycbcr =
  ycbcr_y :: nat
  ycbcr_cb :: nat
  ycbcr_cr :: nat
  ystride :: u64
  cstride :: u64
  chroma_step :: u64

definition lock_hw :: "nat \<Rightarrow> gfx \<Rightarrow> gfx" where
  "lock_hw hb s = s\<lparr>locks := (locks s)(hb := locks s hb + 1)\<rparr>"

definition unlock_hw :: "nat \<Rightarrow> gfx \<Rightarrow> gfx" where
  "unlock_hw hb s = s\<lparr>locks := (locks s)(hb := locks s hb - 1)\<rparr>"

text \<open>The usage passed on, the status, and what the caller gets; \<open>answer\<close>: the error of \<^verbatim>\<open>lockPlanes\<close> and the planes.\<close>

definition cpu_usage :: "gfx_api \<Rightarrow> u32 \<Rightarrow> u64" where
  "cpu_usage G u = ucast u AND (CPU_READ_MASK G OR CPU_WRITE_MASK G)"

definition fp6GraphicBufferV34LockYCbCr ::
    "gfx_api \<Rightarrow> (u64 \<Rightarrow> int \<times> plane list) \<Rightarrow> u32 \<Rightarrow> bool \<Rightarrow> nat \<Rightarrow> gfx \<Rightarrow> int \<times> android_ycbcr option \<times> gfx" where
  "fp6GraphicBufferV34LockYCbCr G answer u out_present a s =
     (case hardwareBufferOf a s of
        None \<Rightarrow> (NO_INIT G, None, s)
      | Some hb \<Rightarrow>
          if \<not> out_present then (BAD_VALUE G, None, s)
          else (case answer (cpu_usage G u) of (err, planes) \<Rightarrow>
            if err \<noteq> 0 then (err, None, s)
            else let s = lock_hw hb s in
              if length planes \<noteq> 3 then (BAD_VALUE G, None, unlock_hw hb s)
              else (0, Some \<lparr>ycbcr_y = plane_data (planes ! 0), ycbcr_cb = plane_data (planes ! 1), ycbcr_cr = plane_data (planes ! 2),
                ystride = ucast (rowStride (planes ! 0)), cstride = ucast (rowStride (planes ! 1)),
                chroma_step = ucast (pixelStride (planes ! 1))\<rparr>, s)))"

definition fp6GraphicBufferV34Unlock :: "gfx_api \<Rightarrow> int \<Rightarrow> nat \<Rightarrow> gfx \<Rightarrow> int \<times> gfx" where
  "fp6GraphicBufferV34Unlock G answer a s =
     (case hardwareBufferOf a s of
        None \<Rightarrow> (NO_INIT G, s)
      | Some hb \<Rightarrow> (answer, if answer = 0 then unlock_hw hb s else s))"

definition fp6GraphicBufferV34InitCheck :: "nat \<Rightarrow> gfx \<Rightarrow> int option" where
  "fp6GraphicBufferV34InitCheck a s = map_option mInitCheck (objects s a)"

text \<open>The casts between an object and a hardware buffer are identities on the address.\<close>

definition fp6GraphicBufferV34FromAHardwareBuffer :: "nat \<Rightarrow> nat" where
  "fp6GraphicBufferV34FromAHardwareBuffer a = a"

definition fp6GraphicBufferV34FromConstAHardwareBuffer :: "nat \<Rightarrow> nat" where
  "fp6GraphicBufferV34FromConstAHardwareBuffer a = a"

definition fp6GraphicBufferV34ToAHardwareBuffer :: "nat \<Rightarrow> nat" where
  "fp6GraphicBufferV34ToAHardwareBuffer a = a"

section \<open>The mapper and the input surface\<close>

text \<open>
  The status, and the two out parameters if their pointers are given. The unlock waits for the fence it gets, if
  any; the result of the wait is only logged.
\<close>

definition fp6GraphicBufferMapperLockV34 :: "int \<Rightarrow> bool \<Rightarrow> bool \<Rightarrow> int \<times> i32 option \<times> i32 option" where
  "fp6GraphicBufferMapperLockV34 lock_answer bpp_present bps_present =
     (lock_answer, if bpp_present then Some (- 1) else None, if bps_present then Some (- 1) else None)"

definition fp6GraphicBufferMapperUnlockV34 :: "int \<Rightarrow> int option \<Rightarrow> int \<times> int list" where
  "fp6GraphicBufferMapperUnlockV34 unlock_answer fence =
     (unlock_answer,
      case fence of None \<Rightarrow> [] | Some fd \<Rightarrow> if unlock_answer = 0 then [fd] else [])" \<comment> \<open>the fences waited for\<close>

definition fp6GetHGraphicBufferProducerV34 :: "nat option" where
  "fp6GetHGraphicBufferProducerV34 = None"

section \<open>Who owns what\<close>

text \<open>The clone that an object holds, if it holds one.\<close>

definition clone_of :: "GraphicBufferV34 \<Rightarrow> nat option" where
  "clone_of b = (if mOwner b = kOwnHandle then handle b else None)"

definition clone_at :: "gfx \<Rightarrow> nat \<Rightarrow> nat option" where
  "clone_at s a = Option.bind (objects s a) clone_of"

text \<open>
  A handle or hardware buffer is held exactly if one object owns it. An object with a clone can free it and exists only
  with hardware decoders; without them an object that reports success has a hardware buffer.
\<close>

definition owned_once :: "(nat \<Rightarrow> nat option) \<Rightarrow> bool" where
  "owned_once m \<longleftrightarrow> (\<forall>a a' x. m a = Some x \<longrightarrow> m a' = Some x \<longrightarrow> a = a')"

definition gfx_ok :: "gfx_api \<Rightarrow> gfx \<Rightarrow> bool" where
  "gfx_ok G s \<longleftrightarrow>
     NO_INIT G \<noteq> 0 \<and> clones s = ran (clone_at s) \<and> hwbufs s = ran (gHardwareBuffers s) \<and>
     dom (gHardwareBuffers s) \<subseteq> dom (objects s) \<and>
     owned_once (gHardwareBuffers s) \<and> owned_once (clone_at s) \<and>
     (\<forall>a b. objects s a = Some b \<longrightarrow>
        (mOwner b = kOwnHandle \<longrightarrow> handle b \<noteq> None \<and> mBufferMapper b \<and> hw_decode s) \<and>
        (hw_decode s \<or> mInitCheck b \<noteq> 0 \<or> gHardwareBuffers s a \<noteq> None))"

definition gfx_live :: "gfx \<Rightarrow> nat \<Rightarrow> bool" where
  "gfx_live s a \<longleftrightarrow> objects s a \<noteq> None"

lemma ran_upd_fresh: "m a = None \<Longrightarrow> ran (m(a := Some x)) = insert x (ran m)"
  by (rule ran_map_upd)

lemma ran_upd_gone: "owned_once m \<Longrightarrow> ran (m(a := None)) = ran m - set_option (m a)"
  unfolding owned_once_def ran_def by (auto split: if_splits)

lemma owned_once_fresh: "owned_once m \<Longrightarrow> m a = None \<Longrightarrow> x \<notin> ran m \<Longrightarrow> owned_once (m(a := Some x))"
  unfolding owned_once_def ran_def by auto

lemma owned_once_None: "owned_once m \<Longrightarrow> owned_once (m(a := None))"
  unfolding owned_once_def by auto

lemma clone_at_upd: "clone_at (s\<lparr>objects := (objects s)(a := x)\<rparr>) = (clone_at s)(a := Option.bind x clone_of)"
  by (auto simp: clone_at_def fun_eq_iff)

text \<open>The state with an object at an address that held none.\<close>

lemma put_object_ok:
  assumes ok: "gfx_ok G s" and a: "objects s a = None"
    and b: "mOwner b \<noteq> kOwnHandle" "hw_decode s \<or> mInitCheck b \<noteq> 0"
  shows "gfx_ok G (s\<lparr>objects := (objects s)(a := Some b)\<rparr>)"
proof -
  have c: "clone_at s a = None" "clone_of b = None" using a b(1) by (simp_all add: clone_at_def clone_of_def)
  have "clone_at (s\<lparr>objects := (objects s)(a := Some b)\<rparr>) = clone_at s"
    unfolding clone_at_upd using c by (auto simp: fun_eq_iff)
  with ok b show ?thesis unfolding gfx_ok_def by auto
qed

lemma put_clone_ok:
  assumes ok: "gfx_ok G s" and a: "objects s a = None" and "h \<notin> clones s"
    and b: "mOwner b = kOwnHandle" "handle b = Some h" "mBufferMapper b" "hw_decode s"
  shows "gfx_ok G (s\<lparr>clones := insert h (clones s), objects := (objects s)(a := Some b)\<rparr>)"
proof -
  let ?s = "s\<lparr>clones := insert h (clones s), objects := (objects s)(a := Some b)\<rparr>"
  have c: "clone_at s a = None" using a by (simp add: clone_at_def)
  have at: "clone_at ?s = (clone_at s)(a := Some h)" using b by (auto simp: clone_at_def clone_of_def fun_eq_iff)
  have "ran (clone_at ?s) = insert h (ran (clone_at s))" "owned_once (clone_at ?s)"
    using ok assms(3) c unfolding at gfx_ok_def by (simp_all add: ran_upd_fresh owned_once_fresh)
  with ok b show ?thesis unfolding gfx_ok_def by auto
qed

lemma put_hwbuf_ok:
  assumes ok: "gfx_ok G s" and a: "objects s a = None" and "hb \<notin> hwbufs s" and b: "mOwner b = kOwnData"
  shows "gfx_ok G (s\<lparr>hwbufs := insert hb (hwbufs s), gHardwareBuffers := (gHardwareBuffers s)(a \<mapsto> hb),
      objects := (objects s)(a := Some b)\<rparr>)"
proof -
  let ?s = "s\<lparr>hwbufs := insert hb (hwbufs s), gHardwareBuffers := (gHardwareBuffers s)(a \<mapsto> hb), objects := (objects s)(a := Some b)\<rparr>"
  have c: "clone_at s a = None" "clone_of b = None" using a b by (simp_all add: clone_at_def clone_of_def)
  have at: "clone_at ?s = clone_at s" using a c by (auto simp: clone_at_def fun_eq_iff)
  from ok a have g: "gHardwareBuffers s a = None" unfolding gfx_ok_def by blast
  have "ran (gHardwareBuffers ?s) = insert hb (ran (gHardwareBuffers s))" "owned_once (gHardwareBuffers ?s)"
    using ok assms(3) g unfolding gfx_ok_def by (simp_all add: ran_upd_fresh owned_once_fresh)
  with ok b at show ?thesis unfolding gfx_ok_def by auto
qed

lemma gfx_frame:
  assumes "objects s' = objects s" "gHardwareBuffers s' = gHardwareBuffers s" "clones s' = clones s" "hwbufs s' = hwbufs s"
    "hw_decode s' = hw_decode s"
  shows "gfx_ok G s' = gfx_ok G s" "gfx_live s' = gfx_live s"
proof -
  have "clone_at s' = clone_at s" using assms by (simp add: clone_at_def fun_eq_iff)
  with assms show "gfx_ok G s' = gfx_ok G s" unfolding gfx_ok_def by simp
  from assms show "gfx_live s' = gfx_live s" by (simp add: gfx_live_def fun_eq_iff)
qed

section \<open>Construction and destruction\<close>

text \<open>The state a constructor starts from, and the plain object in it.\<close>

definition counted :: "gfx \<Rightarrow> gfx" where
  "counted s = s\<lparr>next_id := next_id s + 1\<rparr>"

lemma counted_frame [simp]:
  "gfx_ok G (counted s) = gfx_ok G s" "gfx_live (counted s) = gfx_live s" "objects (counted s) = objects s"
  "clones (counted s) = clones s" "hwbufs (counted s) = hwbufs s" "hw_decode (counted s) = hw_decode s"
  "gHardwareBuffers (counted s) = gHardwareBuffers s"
  using gfx_frame [of "counted s" s] by (simp_all add: counted_def)

lemma construct_eq:
  obtains b where "construct G usable withMapper a s = (b, (counted s)\<lparr>objects := (objects s)(a := Some b)\<rparr>)"
    "mOwner b = kOwnData" "mBufferMapper b = withMapper" "mInitCheck b = (if usable then 0 else NO_INIT G)" "handle b = None"
proof
  show "construct G usable withMapper a s =
      (fst (construct G usable withMapper a s), (counted s)\<lparr>objects := (objects s)(a := Some (fst (construct G usable withMapper a s)))\<rparr>)"
    by (simp add: construct_def nextBufferId_def counted_def Let_def)
qed (simp_all add: construct_def nextBufferId_def Let_def)

lemma refuse_ok:
  assumes "gfx_ok G s" "objects s a = None"
  shows "gfx_ok G (refuse G a s)" "gfx_live (refuse G a s) = (gfx_live s)(a := True)"
proof -
  obtain b where b: "construct G False True a s = (b, (counted s)\<lparr>objects := (objects s)(a := Some b)\<rparr>)"
    "mOwner b = kOwnData" "mInitCheck b = NO_INIT G" by (rule construct_eq [of G False True a s]) auto
  have r: "refuse G a s = (counted s)\<lparr>objects := (objects s)(a := Some b), gRefusalLogged := True\<rparr>"
    using b(1) by (simp add: refuse_def)
  from assms(1) have "NO_INIT G \<noteq> 0" by (simp add: gfx_ok_def)
  with put_object_ok [of G "counted s" a b] assms b have "gfx_ok G ((counted s)\<lparr>objects := (objects s)(a := Some b)\<rparr>)" by simp
  then show "gfx_ok G (refuse G a s)" unfolding r by (subst gfx_frame(1)) simp_all
  show "gfx_live (refuse G a s) = (gfx_live s)(a := True)" unfolding r by (auto simp: gfx_live_def fun_eq_iff)
qed

lemma construct_empty_ok:
  assumes "gfx_ok G s" "objects s a = None"
  shows "gfx_ok G (fp6GraphicBufferV34Construct G a s)"
    "gfx_live (fp6GraphicBufferV34Construct G a s) = (gfx_live s)(a := True)"
proof -
  obtain b where b: "construct G True True a s = (b, (counted s)\<lparr>objects := (objects s)(a := Some b)\<rparr>)" "mOwner b = kOwnData"
    by (rule construct_eq [of G True True a s]) auto
  show "gfx_ok G (fp6GraphicBufferV34Construct G a s)"
    using refuse_ok(1) [OF assms] put_object_ok [of G "counted s" a b] assms b
    by (simp add: fp6GraphicBufferV34Construct_def surfaceOutputAllowed_def)
  show "gfx_live (fp6GraphicBufferV34Construct G a s) = (gfx_live s)(a := True)"
    using refuse_ok(2) [OF assms] b(1)
    by (auto simp: fp6GraphicBufferV34Construct_def surfaceOutputAllowed_def gfx_live_def fun_eq_iff)
qed

lemma construct_handle_ok:
  fixes q wrap present
  assumes "gfx_ok G s" "objects s a = None" and fresh: "\<And>h. imported ans = Some h \<Longrightarrow> h \<notin> clones s"
  defines "s' \<equiv> fp6GraphicBufferV34ConstructWithHandle G ans q wrap present a s"
  shows "gfx_ok G s'" "gfx_live s' = (gfx_live s)(a := True)"
proof -
  obtain b where b: "construct G True True a s = (b, (counted s)\<lparr>objects := (objects s)(a := Some b)\<rparr>)"
    "mOwner b = kOwnData" "mBufferMapper b" by (rule construct_eq [of G True True a s]) auto
  show "gfx_ok G s'"
  proof (cases "hw_decode s")
    case False
    with refuse_ok(1) [OF assms(1,2)] show ?thesis
      by (simp add: s'_def fp6GraphicBufferV34ConstructWithHandle_def surfaceOutputAllowed_def)
  next
    case True
    have plain: "gfx_ok G ((counted s)\<lparr>objects := (objects s)(a := Some (b\<lparr>mInitCheck := e\<rparr>))\<rparr>)" for e
      using put_object_ok [of G "counted s" a "b\<lparr>mInitCheck := e\<rparr>"] assms(1,2) True b(2) by simp
    have clone: "gfx_ok G ((counted s)\<lparr>clones := insert h (clones s), objects := (objects s)(a := Some c)\<rparr>)"
      if "mOwner c = kOwnHandle" "handle c = Some h" "mBufferMapper c" "imported ans = Some h" for c h
      using put_clone_ok [of G "counted s" a h c] assms(1,2) True fresh that by simp
    show ?thesis
      using True b plain clone
      by (auto simp: s'_def fp6GraphicBufferV34ConstructWithHandle_def surfaceOutputAllowed_def set_init_check_def importClone_def
          Let_def split: option.split)
  qed
  show "gfx_live s' = (gfx_live s)(a := True)"
    using refuse_ok(2) [OF assms(1,2)] b(1)
    by (auto simp: s'_def fp6GraphicBufferV34ConstructWithHandle_def surfaceOutputAllowed_def set_init_check_def importClone_def
        gfx_live_def fun_eq_iff Let_def split: option.split)
qed

lemma construct_allocated_ok:
  fixes w h f u
  assumes "gfx_ok G s" "objects s a = None" and fresh: "\<And>hb. alloc_buffer ans = Some hb \<Longrightarrow> hb \<notin> hwbufs s"
  defines "s' \<equiv> fp6GraphicBufferV34ConstructAllocated G ans w h f u a s"
  shows "gfx_ok G s'" "gfx_live s' = (gfx_live s)(a := True)"
proof -
  obtain b where b: "construct G True False a s = (b, (counted s)\<lparr>objects := (objects s)(a := Some b)\<rparr>)"
    "mOwner b = kOwnData" by (rule construct_eq [of G True False a s]) auto
  have failed: "gfx_ok G ((counted s)\<lparr>objects := (objects s)(a := Some (b\<lparr>mInitCheck := e\<rparr>))\<rparr>)" if "e \<noteq> 0" for e
    using put_object_ok [of G "counted s" a "b\<lparr>mInitCheck := e\<rparr>"] assms(1,2) b(2) that by simp
  have released: "gfx_ok G ((counted s)\<lparr>hwbufs := insert hb (hwbufs s) - {hb}, objects := (objects s)(a := Some (b\<lparr>mInitCheck := e\<rparr>))\<rparr>)"
    if "e \<noteq> 0" "alloc_buffer ans = Some hb" for e hb
  proof -
    have "insert hb (hwbufs s) - {hb} = hwbufs s" using fresh [OF that(2)] by simp
    with failed [OF that(1)] show ?thesis by (subst gfx_frame(1)) (simp_all)
  qed
  have made: "gfx_ok G ((counted s)\<lparr>hwbufs := insert hb (hwbufs s), gHardwareBuffers := (gHardwareBuffers s)(a \<mapsto> hb),
      objects := (objects s)(a := Some c)\<rparr>)" if "mOwner c = kOwnData" "alloc_buffer ans = Some hb" for c hb
    using put_hwbuf_ok [of G "counted s" a hb c] assms(1,2) fresh that by simp
  from assms(1) have "NO_INIT G \<noteq> 0" by (simp add: gfx_ok_def)
  then show "gfx_ok G s'"
    using b failed released made
    by (auto simp: s'_def fp6GraphicBufferV34ConstructAllocated_def set_init_check_def allocate_def Let_def split: option.split)
  show "gfx_live s' = (gfx_live s)(a := True)"
    using b(1)
    by (auto simp: s'_def fp6GraphicBufferV34ConstructAllocated_def set_init_check_def allocate_def
        gfx_live_def fun_eq_iff Let_def split: option.split)
qed

lemma destroy_ok:
  assumes ok: "gfx_ok G s" and live: "gfx_live s a"
  shows "\<exists>s'. destroy a s = Some s' \<and> gfx_ok G s' \<and> gfx_live s' = (gfx_live s)(a := False)"
proof -
  from live obtain b where b: "objects s a = Some b" by (auto simp: gfx_live_def)
  have cl: "clones s = ran (clone_at s)" "owned_once (clone_at s)" and hw: "hwbufs s = ran (gHardwareBuffers s)" "owned_once (gHardwareBuffers s)"
    and obj: "\<And>a b. objects s a = Some b \<Longrightarrow> (mOwner b = kOwnHandle \<longrightarrow> handle b \<noteq> None \<and> mBufferMapper b \<and> hw_decode s) \<and>
        (hw_decode s \<or> mInitCheck b \<noteq> 0 \<or> gHardwareBuffers s a \<noteq> None)"
    using ok by (auto simp: gfx_ok_def)
  let ?s = "s\<lparr>clones := clones s - set_option (clone_at s a), objects := (objects s)(a := None),
      gHardwareBuffers := (gHardwareBuffers s)(a := None), hwbufs := hwbufs s - set_option (gHardwareBuffers s a)\<rparr>"
  have held: "set_option (clone_at s a) \<subseteq> clones s" "set_option (gHardwareBuffers s a) \<subseteq> hwbufs s"
    using cl(1) hw(1) by (auto intro: ranI)
  have "destroy a s = Some ?s"
  proof (cases "mOwner b = kOwnHandle")
    case True
    with obj [OF b] obtain h where "handle b = Some h" "mBufferMapper b" by auto
    moreover from this True b have "clone_at s a = Some h" by (simp add: clone_at_def clone_of_def)
    ultimately show ?thesis
      using True b held unfolding destroy_def by (cases "gHardwareBuffers s a") (simp_all add: fun_upd_idem)
  next
    case False
    with b have "clone_at s a = None" by (simp add: clone_at_def clone_of_def)
    with False b held show ?thesis
      unfolding destroy_def by (cases "gHardwareBuffers s a"; cases "handle b") (simp_all add: fun_upd_idem)
  qed
  moreover have "clone_at ?s = (clone_at s)(a := None)" by (auto simp: clone_at_def fun_eq_iff)
  then have "gfx_ok G ?s"
    using ok cl hw obj unfolding gfx_ok_def
    by (auto simp: ran_upd_gone owned_once_None)
  moreover have "gfx_live ?s = (gfx_live s)(a := False)" by (auto simp: gfx_live_def fun_eq_iff)
  ultimately show ?thesis by blast
qed

section \<open>The buffers as a library\<close>

text \<open>
  What a caller constructs, with the answers of the code below: the address it passes holds no object, an imported handle is
  one that is not held yet, and so is an allocated hardware buffer.
\<close>

datatype gfx_new =
    Empty_Buffer nat
  | From_Handle nat import_answer buffer_request u8 bool
  | Allocated nat alloc_answer u32 u32 i32 u32

datatype gfx_use =
    Lock_YCbCr "u64 \<Rightarrow> int \<times> plane list" u32 bool
  | Unlock int
  | Init_Check

fun gfx_create :: "gfx_api \<Rightarrow> gfx_new \<Rightarrow> gfx \<Rightarrow> ((int + nat) \<times> gfx) option" where
  "gfx_create G (Empty_Buffer a) s = Some (Inr a, fp6GraphicBufferV34Construct G a s)"
| "gfx_create G (From_Handle a ans q wrap p) s = Some (Inr a, fp6GraphicBufferV34ConstructWithHandle G ans q wrap p a s)"
| "gfx_create G (Allocated a ans w h f u) s = Some (Inr a, fp6GraphicBufferV34ConstructAllocated G ans w h f u a s)"

fun gfx_create_args :: "gfx_new \<Rightarrow> gfx \<Rightarrow> bool" where
  "gfx_create_args (Empty_Buffer a) s \<longleftrightarrow> \<not> gfx_live s a"
| "gfx_create_args (From_Handle a ans q wrap p) s \<longleftrightarrow> \<not> gfx_live s a \<and> set_option (imported ans) \<inter> clones s = {}"
| "gfx_create_args (Allocated a ans w h f u) s \<longleftrightarrow> \<not> gfx_live s a \<and> set_option (alloc_buffer ans) \<inter> hwbufs s = {}"

fun gfx_use_buffer :: "gfx_api \<Rightarrow> nat \<Rightarrow> gfx_use \<Rightarrow> gfx \<Rightarrow> (int \<times> gfx) option" where
  "gfx_use_buffer G a (Lock_YCbCr answer u p) s = (case fp6GraphicBufferV34LockYCbCr G answer u p a s of (r, _, s') \<Rightarrow> Some (r, s'))"
| "gfx_use_buffer G a (Unlock answer) s = Some (fp6GraphicBufferV34Unlock G answer a s)"
| "gfx_use_buffer G a Init_Check s = map_option (\<lambda>r. (r, s)) (fp6GraphicBufferV34InitCheck a s)"

definition gfx_lib :: "gfx_api \<Rightarrow> (nat, gfx_new, gfx_use, gfx) handle_lib" where
  "gfx_lib G = \<lparr>lib_create_op = gfx_create G, lib_release_op = (\<lambda>a s. map_option (Pair 0) (destroy a s)),
     lib_operate_op = gfx_use_buffer G, lib_live = gfx_live, lib_create_args = gfx_create_args, lib_operate_args = (\<lambda>_. True)\<rparr>"

lemma gfx_create_ok:
  assumes ok: "gfx_ok G s" and args: "gfx_create_args c s"
  shows "\<exists>a s'. gfx_create G c s = Some (Inr a, s') \<and> gfx_ok G s' \<and> \<not> gfx_live s a \<and> gfx_live s' = (gfx_live s)(a := True)"
proof (cases c)
  case (Empty_Buffer a)
  then show ?thesis using construct_empty_ok [OF ok, of a] args by (simp add: gfx_live_def)
next
  case (From_Handle a ans q wrap p)
  then show ?thesis using construct_handle_ok [OF ok, of a ans q wrap p] args by (auto simp: gfx_live_def)
next
  case (Allocated a ans w h f u)
  then show ?thesis using construct_allocated_ok [OF ok, of a ans w h f u] args by (auto simp: gfx_live_def)
qed

lemma locks_frame [simp]:
  "gfx_ok G (s\<lparr>locks := l\<rparr>) = gfx_ok G s" "gfx_live (s\<lparr>locks := l\<rparr>) = gfx_live s"
  using gfx_frame [of "s\<lparr>locks := l\<rparr>" s] by simp_all

lemma gfx_use_ok:
  assumes "gfx_ok G s" "gfx_live s a"
  shows "\<exists>r s'. gfx_use_buffer G a x s = Some (r, s') \<and> gfx_ok G s' \<and> gfx_live s' = gfx_live s"
  using assms
  by (cases x) (auto simp: fp6GraphicBufferV34LockYCbCr_def fp6GraphicBufferV34Unlock_def fp6GraphicBufferV34InitCheck_def
      lock_hw_def unlock_hw_def gfx_live_def [of s] Let_def split: option.split prod.split)

interpretation gb: handle_library "gfx_lib G" "gfx_ok G"
proof
  show "\<exists>r s'. lib_create_op (gfx_lib G) c s = Some (r, s') \<and> gfx_ok G s' \<and>
      (case r of Inl e \<Rightarrow> e < 0 \<and> lib_live (gfx_lib G) s' = lib_live (gfx_lib G) s
       | Inr h \<Rightarrow> \<not> lib_live (gfx_lib G) s h \<and> lib_live (gfx_lib G) s' = (lib_live (gfx_lib G) s)(h := True))"
    if "gfx_ok G s" "lib_create_args (gfx_lib G) c s" for s c
    using gfx_create_ok [of G s c] that by (force simp: gfx_lib_def)
  show "\<exists>s'. lib_release_op (gfx_lib G) a s = Some (0, s') \<and> gfx_ok G s' \<and>
      lib_live (gfx_lib G) s' = (lib_live (gfx_lib G) s)(a := False)"
    if "gfx_ok G s" "lib_live (gfx_lib G) s a" for s a
    using destroy_ok [of G s a] that by (auto simp: gfx_lib_def)
  show "\<exists>r s'. lib_operate_op (gfx_lib G) a x s = Some (r, s') \<and> gfx_ok G s' \<and> lib_live (gfx_lib G) s' = lib_live (gfx_lib G) s"
    if "gfx_ok G s" "lib_live (gfx_lib G) s a" for s a x
    using gfx_use_ok [of G s a x] that by (auto simp: gfx_lib_def)
qed

section \<open>The property\<close>

definition new_gfx :: "bool \<Rightarrow> gfx" where
  "new_gfx hw = \<lparr>getpid = 812, next_id = 0, hw_decode = hw, gRefusalLogged = False, objects = (\<lambda>_. None),
     gHardwareBuffers = (\<lambda>_. None), clones = {}, hwbufs = {}, locks = (\<lambda>_. 0)\<rparr>"

lemma new_gfx_ok: "NO_INIT G \<noteq> 0 \<Longrightarrow> gfx_ok G (new_gfx hw)"
  by (simp add: gfx_ok_def new_gfx_def owned_once_def clone_at_def ran_def)

lemma gfx_ok_ownership:
  assumes ok: "gfx_ok G s"
  shows "h \<in> clones s \<longleftrightarrow> (\<exists>!a. clone_at s a = Some h)" "hb \<in> hwbufs s \<longleftrightarrow> (\<exists>!a. hardwareBufferOf a s = Some hb)"
    "\<lbrakk>\<And>a. \<not> gfx_live s a\<rbrakk> \<Longrightarrow> clones s = {} \<and> hwbufs s = {}"
proof -
  have cl: "clones s = ran (clone_at s)" "owned_once (clone_at s)" and hw: "hwbufs s = ran (gHardwareBuffers s)" "owned_once (gHardwareBuffers s)"
    and d: "dom (gHardwareBuffers s) \<subseteq> dom (objects s)"
    using ok by (auto simp: gfx_ok_def)
  show "h \<in> clones s \<longleftrightarrow> (\<exists>!a. clone_at s a = Some h)" using cl unfolding owned_once_def ran_def by auto
  show "hb \<in> hwbufs s \<longleftrightarrow> (\<exists>!a. hardwareBufferOf a s = Some hb)"
    using hw unfolding owned_once_def ran_def hardwareBufferOf_def by auto
  assume "\<And>a. \<not> gfx_live s a"
  then have none: "objects s a = None" for a by (simp add: gfx_live_def)
  then have "clone_at s a = None" "gHardwareBuffers s a = None" for a using d by (auto simp: clone_at_def)
  then show "clones s = {} \<and> hwbufs s = {}" using cl(1) hw(1) by (simp add: ran_def)
qed

text \<open>
  C39. Graphic buffers give back what they take, once. Whatever buffers a stock library constructs, uses and destroys, if it uses an
  address only between construction and destruction, the shim always returns: it never frees a handle or releases a hardware buffer that
  is not held. A handle stays imported, and a hardware buffer allocated, exactly as long as one object owns it, so when the last
  object is gone nothing is held. While the hardware decoders are switched off no handle is
  ever imported, and an object that reports success has a hardware buffer of its own.
\<close>

theorem graphic_buffers_owned:
  assumes "NO_INIT G \<noteq> 0" "well_behaved (gfx_lib G) calls (new_gfx hw)"
  shows "\<exists>s. performs (gfx_lib G) calls (new_gfx hw) = Some s \<and>
    (\<forall>h. h \<in> clones s \<longleftrightarrow> (\<exists>!a. clone_at s a = Some h)) \<and>
    (\<forall>hb. hb \<in> hwbufs s \<longleftrightarrow> (\<exists>!a. hardwareBufferOf a s = Some hb)) \<and>
    ((\<forall>a. \<not> gfx_live s a) \<longrightarrow> clones s = {} \<and> hwbufs s = {}) \<and>
    (\<not> hw_decode s \<longrightarrow> clones s = {} \<and>
      (\<forall>a. fp6GraphicBufferV34InitCheck a s = Some 0 \<longrightarrow> hardwareBufferOf a s \<noteq> None))"
proof -
  from gb.performs_ok [OF new_gfx_ok [OF assms(1)] assms(2)]
  obtain s where s: "performs (gfx_lib G) calls (new_gfx hw) = Some s" "gfx_ok G s" by blast
  have "clones s = {} \<and> (\<forall>a. fp6GraphicBufferV34InitCheck a s = Some 0 \<longrightarrow> hardwareBufferOf a s \<noteq> None)" if "\<not> hw_decode s"
  proof -
    from s(2) that have b: "objects s a = Some b \<Longrightarrow> mOwner b \<noteq> kOwnHandle \<and> (mInitCheck b \<noteq> 0 \<or> gHardwareBuffers s a \<noteq> None)" for a b
      unfolding gfx_ok_def by blast
    have "clone_at s a = None" for a using b [of a] by (cases "objects s a") (auto simp: clone_at_def clone_of_def)
    moreover have "clones s = ran (clone_at s)" using s(2) by (simp add: gfx_ok_def)
    ultimately show ?thesis using b by (auto simp: ran_def fp6GraphicBufferV34InitCheck_def hardwareBufferOf_def)
  qed
  with s(1) gfx_ok_ownership [OF s(2)] show ?thesis by blast
qed

text \<open>A library that imports a handle, allocates a buffer, locks and unlocks it and destroys both.\<close>

definition sample_gfx_api :: gfx_api where
  "sample_gfx_api = \<lparr>NO_INIT = - 19, BAD_VALUE = - 22, CPU_READ_MASK = 15, CPU_WRITE_MASK = 240\<rparr>"

definition sample_gfx_calls :: "(nat, gfx_new, gfx_use) lib_call list" where
  "sample_gfx_calls =
     [Create (From_Handle 100 \<lparr>import_err = 0, imported = Some 7, transport = (1, 20)\<rparr>
        \<lparr>inWidth = 640, inHeight = 480, inFormat = 35, inLayerCount = 1, inUsage = 3, inStride = 640\<rparr> 3 True),
      Create (Allocated 200 \<lparr>alloc_err = 0, alloc_buffer = Some 9, native_handle = Some 5, actual_width = 64, actual_height = 48,
        actual_stride = 64\<rparr> 64 48 35 3),
      Operate 200 (Lock_YCbCr (\<lambda>_. (0, [])) 3 True),
      Operate 200 (Unlock 0),
      Release 100]"

lemmas gfx_eval = gfx_lib_def sample_gfx_api_def sample_gfx_calls_def new_gfx_def construct_def nextBufferId_def kCloneHandle_def
  fp6GraphicBufferV34ConstructWithHandle_def surfaceOutputAllowed_def set_init_check_def importClone_def
  fp6GraphicBufferV34ConstructAllocated_def allocate_def fp6GraphicBufferV34LockYCbCr_def fp6GraphicBufferV34Unlock_def
  lock_hw_def unlock_hw_def hardwareBufferOf_def destroy_def gfx_live_def

theorem graphic_buffers_owned_witness:
  "well_behaved (gfx_lib sample_gfx_api) (sample_gfx_calls @ [Release 200]) (new_gfx True) \<and>
   (\<exists>s. performs (gfx_lib sample_gfx_api) sample_gfx_calls (new_gfx True) = Some s \<and>
     (\<forall>hb. hb \<in> hwbufs s \<longleftrightarrow> (\<exists>!a. hardwareBufferOf a s = Some hb)) \<and> hwbufs s = {9})"
proof -
  have w: "well_behaved (gfx_lib sample_gfx_api) (sample_gfx_calls @ [Release 200]) (new_gfx True)"
    "well_behaved (gfx_lib sample_gfx_api) sample_gfx_calls (new_gfx True)"
    by (simp_all add: gfx_eval Let_def)
  have "map_option hwbufs (performs (gfx_lib sample_gfx_api) sample_gfx_calls (new_gfx True)) = Some {9}"
    by (simp add: gfx_eval Let_def)
  with w graphic_buffers_owned [of sample_gfx_api sample_gfx_calls True] show ?thesis
    by (auto simp: sample_gfx_api_def)
qed

end
