(* ===== verification/Color_Formats.thy ===== *)
theory Color_Formats
  imports FP6_Prelude
begin

text \<open>
  The layout of video buffers, \<^verbatim>\<open>compat/kernel-headers/include/display/media/mmm_color_fmt.h\<close>: the strides, scanlines and
  sizes of the colour formats that the display and video drivers exchange. Everything is computed in 32 bit
  unsigned integers, as the header does. The \<^verbatim>\<open>int\<close> variables of the header hold a rounded-up quotient by at least 4, so no sum on
  them reaches the sign bit and \<open>u32\<close> computes the same.
\<close>

section \<open>Formats and rounding\<close>

datatype mmm_color_fmts =
    MMM_COLOR_FMT_NV12 | MMM_COLOR_FMT_NV21 | MMM_COLOR_FMT_NV12_UBWC | MMM_COLOR_FMT_NV12_BPP10_UBWC | MMM_COLOR_FMT_RGBA8888 | MMM_COLOR_FMT_RGBA8888_UBWC | MMM_COLOR_FMT_RGBA1010102_UBWC | MMM_COLOR_FMT_RGB565_UBWC
  | MMM_COLOR_FMT_P010_UBWC | MMM_COLOR_FMT_P010 | MMM_COLOR_FMT_P010_512 | MMM_COLOR_FMT_NV12_512 | MMM_COLOR_FMT_RGBA16161616F_UBWC







section \<open>Strides and scanlines\<close>













section \<open>Sizes\<close>








section \<open>Rounding without wrapping\<close>

definition align :: "nat \<Rightarrow> nat \<Rightarrow> nat" where
  "align n a = (n + a - 1) div a * a"

definition roundup :: "nat \<Rightarrow> nat \<Rightarrow> nat" where
  "roundup n r = (n + r - 1) div r"


lemma roundup_mono: "n \<le> m \<Longrightarrow> roundup n r \<le> roundup m r"
  unfolding roundup_def by (intro div_le_mono) auto

















section \<open>The layout without wrapping\<close>

text \<open>
  The sizes on natural numbers. A chroma plane has half as many lines as the luma plane,
  rounded up, and a chroma tile covers twice as many luma lines as a luma tile.
\<close>

definition half :: "nat \<Rightarrow> nat" where
  "half n = (n + 1) div 2"

definition linear_layout :: "nat \<Rightarrow> nat \<Rightarrow> nat \<Rightarrow> nat" where
  "linear_layout stride y_lines uv_lines = align (stride * y_lines + stride * uv_lines) 4096"

definition tiled_layout :: "nat \<Rightarrow> nat \<Rightarrow> nat \<Rightarrow> nat \<Rightarrow> nat \<Rightarrow> nat \<Rightarrow> nat \<Rightarrow> nat" where
  "tiled_layout stride y_lines uv_lines tile_w tile_h w h =
     align (stride * y_lines) 4096 + align (stride * uv_lines) 4096 +
     align (align (roundup w tile_w) 64 * align (roundup h tile_h) 16) 4096 +
     align (align (roundup w tile_w) 64 * align (roundup h (2 * tile_h)) 16) 4096"

definition nv12_frame :: "nat \<Rightarrow> nat \<Rightarrow> nat" where
  "nv12_frame w h = tiled_layout (align w 128) (align h 32) (align (half h) 32) 32 8 w h"

definition rgb_layout :: "nat \<Rightarrow> nat \<Rightarrow> nat \<Rightarrow> nat \<Rightarrow> nat" where
  "rgb_layout bytes tile_w w h =
     align (align (w * bytes) 256 * align h 16) 4096 + align (align (roundup w tile_w) 64 * align (roundup h 4) 16) 4096"

definition may_be_interlaced :: "nat \<Rightarrow> nat \<Rightarrow> bool" where
  "may_be_interlaced w h \<longleftrightarrow> w \<le> 1920 \<and> h \<le> 1920 \<and> h * w div 256 \<le> 8160"

text \<open>The size that the functions compute for each format, if nothing wraps.\<close>

fun layout_size :: "mmm_color_fmts \<Rightarrow> nat \<Rightarrow> nat \<Rightarrow> nat" where
  "layout_size MMM_COLOR_FMT_NV12 w h = linear_layout (align w 128) (align h 32) (align (half h) 16)"
| "layout_size MMM_COLOR_FMT_NV21 w h = linear_layout (align w 128) (align h 32) (align (half h) 16)"
| "layout_size MMM_COLOR_FMT_P010 w h = linear_layout (align (w * 2) 256) (align h 32) (align (half h) 16)"
| "layout_size MMM_COLOR_FMT_P010_512 w h = linear_layout (align (w * 2) 512) (align h 32) (align (half h) 16)"
| "layout_size MMM_COLOR_FMT_NV12_512 w h = linear_layout (align w 512) (align h 512) (align (half h) 256)"
| "layout_size MMM_COLOR_FMT_NV12_UBWC w h =
     (if may_be_interlaced w h then nv12_frame w (half h) * 2 else nv12_frame w h)"
| "layout_size MMM_COLOR_FMT_NV12_BPP10_UBWC w h =
     tiled_layout (align (w * 4 div 3) 256) (align h 16) (align (half h) 16) 48 4 w h"
| "layout_size MMM_COLOR_FMT_P010_UBWC w h = tiled_layout (align (w * 2) 256) (align h 16) (align (half h) 16) 32 4 w h"
| "layout_size MMM_COLOR_FMT_RGBA8888 w h = align (align (w * 4) 256 * align h 32) 4096"
| "layout_size MMM_COLOR_FMT_RGBA8888_UBWC w h = rgb_layout 4 16 w h"
| "layout_size MMM_COLOR_FMT_RGBA1010102_UBWC w h = rgb_layout 4 16 w h"
| "layout_size MMM_COLOR_FMT_RGB565_UBWC w h = rgb_layout 2 16 w h"
| "layout_size MMM_COLOR_FMT_RGBA16161616F_UBWC w h = rgb_layout 8 8 w h"

text \<open>
  The size that the comment on each enumerator gives, with the tiles of the code where the comment gives none and half
  an odd height rounded up. The comment
  on the ten bit compressed format aligns its luma lines to 32, the code to 16.
\<close>

fun documented_size :: "mmm_color_fmts \<Rightarrow> nat \<Rightarrow> nat \<Rightarrow> nat" where
  "documented_size MMM_COLOR_FMT_NV12 w h = linear_layout (align w 128) (align h 32) (align (half h) 16)"
| "documented_size MMM_COLOR_FMT_NV21 w h = linear_layout (align w 128) (align h 32) (align (half h) 16)"
| "documented_size MMM_COLOR_FMT_P010 w h = linear_layout (align (w * 2) 256) (align h 32) (align (half h) 16)"
| "documented_size MMM_COLOR_FMT_P010_512 w h = linear_layout (align (w * 2) 512) (align h 32) (align (half h) 16)"
| "documented_size MMM_COLOR_FMT_NV12_512 w h = linear_layout (align w 512) (align h 512) (align (half h) 256)"
| "documented_size MMM_COLOR_FMT_NV12_UBWC w h =
     (if may_be_interlaced w h then nv12_frame w (half h) * 2 else nv12_frame w h)"
| "documented_size MMM_COLOR_FMT_NV12_BPP10_UBWC w h =
     tiled_layout (align (w * 4 div 3) 256) (align h 32) (align (half h) 16) 48 4 w h"
| "documented_size MMM_COLOR_FMT_P010_UBWC w h = tiled_layout (align (w * 2) 256) (align h 16) (align (half h) 16) 32 4 w h"
| "documented_size MMM_COLOR_FMT_RGBA8888 w h = align (align (w * 4) 256 * align h 32) 4096"
| "documented_size MMM_COLOR_FMT_RGBA8888_UBWC w h = rgb_layout 4 16 w h"
| "documented_size MMM_COLOR_FMT_RGBA1010102_UBWC w h = rgb_layout 4 16 w h"
| "documented_size MMM_COLOR_FMT_RGB565_UBWC w h = rgb_layout 2 16 w h"
| "documented_size MMM_COLOR_FMT_RGBA16161616F_UBWC w h = rgb_layout 8 8 w h"




text \<open>The comment and the code do differ.\<close>

lemma ten_bit_divergence:
  "layout_size MMM_COLOR_FMT_NV12_BPP10_UBWC 1920 1072 < documented_size MMM_COLOR_FMT_NV12_BPP10_UBWC 1920 1072"
  by (simp add: tiled_layout_def align_def half_def)






section \<open>The computed layout\<close>



























section \<open>A frame fits its buffer\<close>














section \<open>The property\<close>




end
