(* ===== verification/Spec2Isabelle.thy ===== *)
theory Spec2Isabelle
  imports Fp_Service Timekeep_Daemon Fw_Main Camera_Hints Tap_SubHal Voice_Processing Volume_Listener
    Codec_Jail Jailed_Services Power_Stats Graphic_Buffer Color_Formats
begin

text \<open>
  Verification of the device support code of the Fairphone 6.
\<close>

end
